(* ===== verification/Meister_Prelude.thy ===== *)
theory Meister_Prelude
  imports Main "HOL-Library.Word" "HOL-Library.Char_ord" "HOL-Library.List_Lexorder"
    "HOL-Library.Product_Lexorder"
begin

text \<open>
  The vocabulary every component theory shares: the machine integers of the Rust sources with
  their saturating operations, the iterator reductions \<open>max_by\<close> and \<open>min_by\<close>, and ordered maps
  as association lists. Nothing here is specific to MeisterStack: it is the part of the Rust
  core library the sources call.

  Strings are byte strings (a Rust \<open>str\<close> is its UTF-8 bytes) and are compared bytewise, which is
  the order \<open>HOL-Library.List_Lexorder\<close> puts on \<open>char list\<close>. Tuples are compared
  lexicographically, as Rust's derived \<open>Ord\<close> does.
\<close>

named_theorems sat_simps \<open>saturating words read as natural numbers\<close>

section \<open>Machine integers\<close>

type_synonym u32 = "32 word"
type_synonym u64 = "64 word"

definition sat_add :: "'a::len word \<Rightarrow> 'a word \<Rightarrow> 'a word" where
  "sat_add a b = (if unat a + unat b < 2 ^ LENGTH('a) then a + b else - 1)"

definition sat_sub :: "'a::len word \<Rightarrow> 'a word \<Rightarrow> 'a word" where
  "sat_sub a b = (if b \<le> a then a - b else 0)"

lemma unat_max_word: "unat (- 1 :: 'a::len word) = 2 ^ LENGTH('a) - 1"
  by (simp add: unsigned_minus_1_eq_mask mask_eq_exp_minus_1)

lemma unat_sat_add [sat_simps]:
  "unat (sat_add a b) = min (unat a + unat b) (2 ^ LENGTH('a) - 1)"
  for a b :: "'a::len word"
  by (auto simp: sat_add_def unat_word_ariths unat_max_word)

lemma unat_sat_sub [sat_simps]: "unat (sat_sub a b) = unat a - unat b"
  by (auto simp: sat_sub_def unat_sub word_le_nat_alt)

lemma unat_le_max: "unat a \<le> 2 ^ LENGTH('a) - 1" for a :: "'a::len word"
proof -
  have "unat a < 2 ^ LENGTH('a)" by (rule unsigned_less)
  then show ?thesis by linarith
qed

lemma sat_add_ge: "a \<le> sat_add a b" "b \<le> sat_add a b"
  using unat_le_max [of a] unat_le_max [of b] by (simp_all add: word_le_nat_alt unat_sat_add)

lemma sat_add_mono: "a \<le> c \<Longrightarrow> b \<le> d \<Longrightarrow> sat_add a b \<le> sat_add c d"
  by (simp add: word_le_nat_alt unat_sat_add)

lemma sat_add_commute: "sat_add a b = sat_add b a"
  by (simp add: sat_add_def add.commute)

lemma sat_add_assoc: "sat_add (sat_add a b) c = sat_add a (sat_add b c)"
proof -
  have "min (min x m + y) m = min (x + min y m) m" for x y m :: nat
    by simp
  then show ?thesis by (simp add: word_unat_eq_iff unat_sat_add)
qed

lemma sat_add_0 [simp]: "sat_add a 0 = a" "sat_add 0 a = a"
  by (simp_all add: sat_add_def)

lemma sat_sub_le: "sat_sub a b \<le> a"
  by (simp add: word_le_nat_alt unat_sat_sub)

lemma sat_sub_antimono: "b \<le> c \<Longrightarrow> sat_sub a c \<le> sat_sub a b"
  by (simp add: word_le_nat_alt unat_sat_sub)

lemma sat_sub_0 [simp]: "sat_sub a 0 = a" "sat_sub a a = 0"
  by (simp_all add: sat_sub_def)

section \<open>Iterator reductions\<close>

text \<open>
  \<open>Iterator::max_by\<close> keeps the later of two equal elements and \<open>Iterator::min_by\<close> the earlier
  one. The comparison function is given by its \<open>Greater\<close> answer.
\<close>

fun max_by :: "('a \<Rightarrow> 'a \<Rightarrow> bool) \<Rightarrow> 'a list \<Rightarrow> 'a option" where
  "max_by gt [] = None"
| "max_by gt (x # xs) = Some (foldl (\<lambda>a y. if gt a y then a else y) x xs)"

fun min_by :: "('a \<Rightarrow> 'a \<Rightarrow> bool) \<Rightarrow> 'a list \<Rightarrow> 'a option" where
  "min_by gt [] = None"
| "min_by gt (x # xs) = Some (foldl (\<lambda>a y. if gt a y then y else a) x xs)"

lemma max_by_None [simp]: "max_by gt xs = None \<longleftrightarrow> xs = []"
  by (cases xs) auto

lemma min_by_None [simp]: "min_by gt xs = None \<longleftrightarrow> xs = []"
  by (cases xs) auto

text \<open>
  What \<open>Ord\<close> demands of a comparison function, as far as the reductions need it: asymmetry and
  transitivity of ``not greater''.
\<close>

locale comparator =
  fixes gt :: "'a \<Rightarrow> 'a \<Rightarrow> bool"
  assumes gt_asym: "gt x y \<Longrightarrow> \<not> gt y x"
    and not_gt_trans: "\<not> gt x y \<Longrightarrow> \<not> gt y z \<Longrightarrow> \<not> gt x z"
begin

lemma not_gt_refl: "\<not> gt x x"
  using gt_asym by blast

lemma foldl_max:
  "let m = foldl (\<lambda>a y. if gt a y then a else y) a xs
   in m \<in> insert a (set xs) \<and> \<not> gt a m \<and> (\<forall>x\<in>set xs. \<not> gt x m)"
proof (induction xs arbitrary: a)
  case Nil
  then show ?case by (simp add: not_gt_refl)
next
  case (Cons y ys)
  let ?b = "if gt a y then a else y"
  let ?m = "foldl (\<lambda>a y. if gt a y then a else y) ?b ys"
  have b: "\<not> gt a ?b" "\<not> gt y ?b" "?b = a \<or> ?b = y"
    using not_gt_refl gt_asym by auto
  have m: "?m \<in> insert ?b (set ys)" "\<not> gt ?b ?m" "\<forall>x\<in>set ys. \<not> gt x ?m"
    using Cons.IH [of ?b] by (auto simp: Let_def)
  have "\<not> gt a ?m" "\<not> gt y ?m"
    using b m not_gt_trans by blast+
  with m b(3) show ?case by (auto simp: Let_def)
qed

lemma foldl_min:
  "let m = foldl (\<lambda>a y. if gt a y then y else a) a xs
   in m \<in> insert a (set xs) \<and> \<not> gt m a \<and> (\<forall>x\<in>set xs. \<not> gt m x)"
proof (induction xs arbitrary: a)
  case Nil
  then show ?case by (simp add: not_gt_refl)
next
  case (Cons y ys)
  let ?b = "if gt a y then y else a"
  let ?m = "foldl (\<lambda>a y. if gt a y then y else a) ?b ys"
  have b: "\<not> gt ?b a" "\<not> gt ?b y" "?b = a \<or> ?b = y"
    using not_gt_refl gt_asym by auto
  have m: "?m \<in> insert ?b (set ys)" "\<not> gt ?m ?b" "\<forall>x\<in>set ys. \<not> gt ?m x"
    using Cons.IH [of ?b] by (auto simp: Let_def)
  have "\<not> gt ?m a" "\<not> gt ?m y"
    using b m not_gt_trans by blast+
  with m b(3) show ?case by (auto simp: Let_def)
qed

lemma max_by_max: "max_by gt xs = Some m \<Longrightarrow> m \<in> set xs \<and> (\<forall>x\<in>set xs. \<not> gt x m)"
  using foldl_max by (cases xs) (fastforce simp: Let_def)+

lemma min_by_min: "min_by gt xs = Some m \<Longrightarrow> m \<in> set xs \<and> (\<forall>x\<in>set xs. \<not> gt m x)"
  using foldl_min by (cases xs) (fastforce simp: Let_def)+

end

section \<open>Ordered maps\<close>

text \<open>
  A \<open>BTreeMap\<close> is the list of its entries in key order: iteration is the list itself, \<open>get\<close> is
  \<open>map_of\<close>, and \<open>insert\<close> puts an entry at its place.
\<close>

type_synonym ('k, 'v) bmap = "('k \<times> 'v) list"

definition bm_wf :: "('k::linorder, 'v) bmap \<Rightarrow> bool" where
  "bm_wf m \<longleftrightarrow> sorted_wrt (<) (map fst m)"

fun bm_insert :: "'k::linorder \<Rightarrow> 'v \<Rightarrow> ('k, 'v) bmap \<Rightarrow> ('k, 'v) bmap" where
  "bm_insert k v [] = [(k, v)]"
| "bm_insert k v ((k', v') # m) =
     (if k < k' then (k, v) # (k', v') # m
      else if k = k' then (k, v) # m
      else (k', v') # bm_insert k v m)"

lemma map_of_bm_insert [simp]: "map_of (bm_insert k v m) = (map_of m)(k \<mapsto> v)"
  by (induction m) (auto simp: fun_eq_iff)

lemma keys_bm_insert: "set (map fst (bm_insert k v m)) = insert k (set (map fst m))"
  by (induction k v m rule: bm_insert.induct) (simp_all add: insert_commute)

lemma bm_wf_Cons: "bm_wf ((k, v) # m) \<longleftrightarrow> (\<forall>x\<in>set (map fst m). k < x) \<and> bm_wf m"
  by (simp add: bm_wf_def)

lemma bm_wf_insert: "bm_wf m \<Longrightarrow> bm_wf (bm_insert k v m)"
proof (induction k v m rule: bm_insert.induct)
  case (1 k v)
  then show ?case by (simp add: bm_wf_def)
next
  case (2 k v k' v' m)
  have wf: "\<forall>x\<in>set (map fst m). k' < x" "bm_wf m"
    using "2.prems" by (simp_all add: bm_wf_Cons del: set_map)
  consider "k < k'" | "k = k'" | "k' < k" by fastforce
  then show ?case
  proof cases
    case 1
    then have "\<forall>x\<in>set (map fst m). k < x"
      using wf(1) less_trans by blast
    with 1 wf show ?thesis by (simp add: bm_wf_Cons del: set_map)
  next
    case 2
    with wf show ?thesis by (simp add: bm_wf_Cons del: set_map)
  next
    case 3
    then have "bm_wf (bm_insert k v m)" using "2.IH" wf(2) by simp
    moreover have "\<not> k < k'" "k \<noteq> k'" using 3 by auto
    ultimately show ?thesis using 3 wf by (simp add: bm_wf_Cons keys_bm_insert del: set_map)
  qed
qed

lemma bm_wf_distinct: "bm_wf m \<Longrightarrow> distinct (map fst m)"
  by (simp add: bm_wf_def strict_sorted_iff)

section \<open>Lists\<close>

fun join :: "string \<Rightarrow> string list \<Rightarrow> string" where
  "join sep [] = []"
| "join sep [x] = x"
| "join sep (x # y # xs) = x @ sep @ join sep (y # xs)"

text \<open>\<open>Iterator::find_map\<close>.\<close>

fun find_map :: "('a \<Rightarrow> 'b option) \<Rightarrow> 'a list \<Rightarrow> 'b option" where
  "find_map f [] = None"
| "find_map f (x # xs) = (case f x of None \<Rightarrow> find_map f xs | Some y \<Rightarrow> Some y)"

lemma find_map_Some: "find_map f xs = Some y \<Longrightarrow> \<exists>x \<in> set xs. f x = Some y"
  by (induction xs) (auto split: option.splits)

lemma filter_eq_Nil_iff: "filter P xs = [] \<longleftrightarrow> (\<forall>x\<in>set xs. \<not> P x)"
  by (induction xs) auto

section \<open>Options\<close>

fun unwrap_or :: "'a \<Rightarrow> 'a option \<Rightarrow> 'a" where
  "unwrap_or d None = d"
| "unwrap_or d (Some x) = x"

fun or_else :: "'a option \<Rightarrow> 'a option \<Rightarrow> 'a option" where
  "or_else None y = y"
| "or_else (Some x) y = Some x"

lemma or_else_None [simp]: "or_else x None = x"
  by (cases x) simp_all

section \<open>Closed sets of words\<close>

text \<open>
  Every closed set of the sources has the same shape: a list \<open>ALL\<close> of its variants, a spelling
  \<open>as_str\<close>, and \<open>parse\<close>, which looks a word up in \<open>ALL\<close>. The locale is the promise the spelling
  makes; each set below is an interpretation of it.
\<close>

definition parse_in :: "'a list \<Rightarrow> ('a \<Rightarrow> string) \<Rightarrow> string \<Rightarrow> 'a option" where
  "parse_in all as_str s = find (\<lambda>x. as_str x = s) all"

locale closed_words =
  fixes all :: "'a list" and as_str :: "'a \<Rightarrow> string"
  assumes all_UNIV: "\<And>x. x \<in> set all"
    and distinct_words: "distinct (map as_str all)"
begin

lemma as_str_inject: "as_str x = as_str y \<longleftrightarrow> x = y"
  using distinct_words all_UNIV by (metis distinct_map inj_on_eq_iff)

lemma parse_as_str: "parse_in all as_str (as_str x) = Some x"
proof -
  have "\<exists>y \<in> set all. as_str y = as_str x" using all_UNIV by blast
  then obtain y where "parse_in all as_str (as_str x) = Some y"
    unfolding parse_in_def by (metis (mono_tags, lifting) find_None_iff option.exhaust)
  moreover from this have "as_str y = as_str x"
    unfolding parse_in_def find_Some_iff by blast
  ultimately show ?thesis using as_str_inject [of y x] by simp
qed

lemma parse_Some: "parse_in all as_str s = Some x \<longleftrightarrow> s = as_str x"
proof
  assume "parse_in all as_str s = Some x"
  then show "s = as_str x" unfolding parse_in_def find_Some_iff by blast
qed (simp add: parse_as_str)

end

end
