(* ===== verification/Rust_Str.thy ===== *)
theory Rust_Str
  imports Meister_Prelude
begin

text \<open>
  The string operations of the Rust core library that the sources call: decimal display and
  parsing of integers, \<open>split_once\<close>, \<open>split\<close>, \<open>trim\<close>, \<open>strip_prefix\<close> and \<open>strip_suffix\<close>, the
  \<open>Debug\<close> form of a string, and \<open>Ipv4Addr\<close>'s \<open>FromStr\<close> and \<open>Display\<close>.
\<close>

section \<open>Decimal numbers\<close>

definition digit_char :: "nat \<Rightarrow> char" where
  "digit_char d = char_of (48 + d)"

definition digit_val :: "char \<Rightarrow> nat" where
  "digit_val c = of_char c - 48"

definition is_digit :: "char \<Rightarrow> bool" where
  "is_digit c \<longleftrightarrow> (48::nat) \<le> of_char c \<and> of_char c \<le> (57::nat)"

fun dec :: "nat \<Rightarrow> string" where
  "dec n = (if n < 10 then [digit_char n] else dec (n div 10) @ [digit_char (n mod 10)])"

declare dec.simps [simp del]

definition digits_val :: "string \<Rightarrow> nat" where
  "digits_val s = foldl (\<lambda>a c. 10 * a + digit_val c) 0 s"

lemma of_char_digit_char: "d < 10 \<Longrightarrow> (of_char (digit_char d) :: nat) = 48 + d"
  by (simp add: digit_char_def)

lemma digit_val_digit_char [simp]: "d < 10 \<Longrightarrow> digit_val (digit_char d) = d"
  by (simp add: digit_val_def of_char_digit_char)

lemma is_digit_digit_char [simp]: "d < 10 \<Longrightarrow> is_digit (digit_char d)"
  by (simp add: is_digit_def of_char_digit_char)

lemma digits_val_snoc [simp]: "digits_val (s @ [c]) = 10 * digits_val s + digit_val c"
  by (simp add: digits_val_def)

lemma digits_val_dec [simp]: "digits_val (dec n) = n"
proof (induction n rule: dec.induct)
  case (1 n)
  then show ?case
    by (cases "n < 10") (simp_all add: dec.simps [of n], simp add: digits_val_def)
qed

lemma dec_not_Nil [simp]: "dec n \<noteq> []"
  by (subst dec.simps) simp

lemma is_digit_dec: "c \<in> set (dec n) \<Longrightarrow> is_digit c"
proof (induction n rule: dec.induct)
  case (1 n)
  then show ?case
    by (cases "n < 10") (auto simp: dec.simps [of n])
qed

lemma list_all_digit_dec [simp]: "list_all is_digit (dec n)"
  by (simp add: list_all_iff is_digit_dec)

lemma hd_dec: "0 < n \<Longrightarrow> hd (dec n) \<noteq> digit_char 0"
proof (induction n rule: dec.induct)
  case (1 n)
  show ?case
  proof (cases "n < 10")
    case True
    have "digit_char n \<noteq> digit_char 0"
      using True "1.prems" digit_val_digit_char [of n] digit_val_digit_char [of 0] by force
    with True show ?thesis by (simp add: dec.simps [of n])
  next
    case False
    with "1.IH" show ?thesis by (simp add: dec.simps [of n])
  qed
qed

lemma length_dec_le: "n < 10 ^ Suc k \<Longrightarrow> length (dec n) \<le> Suc k"
proof (induction k arbitrary: n)
  case 0
  then show ?case by (simp add: dec.simps [of n])
next
  case (Suc k)
  show ?case
  proof (cases "n < 10")
    case True
    then show ?thesis by (simp add: dec.simps [of n])
  next
    case False
    have "n div 10 < 10 ^ Suc k" using Suc.prems by auto
    with Suc.IH [of "n div 10"] False show ?thesis by (simp add: dec.simps [of n])
  qed
qed

text \<open>
  \<open>str::parse\<close> to an unsigned integer with largest value \<open>m\<close>: an optional plus sign, at least
  one digit, no overflow.
\<close>

definition parse_unsigned :: "nat \<Rightarrow> string \<Rightarrow> nat option" where
  "parse_unsigned m s =
     (let body = (case s of c # t \<Rightarrow> if c = CHR ''+'' then t else s | [] \<Rightarrow> [])
      in if body \<noteq> [] \<and> list_all is_digit body \<and> digits_val body \<le> m
         then Some (digits_val body) else None)"

text \<open>\<open>str::parse\<close> to an \<open>i64\<close>: an optional sign, at least one digit, no overflow.\<close>

definition parse_i64 :: "string \<Rightarrow> int option" where
  "parse_i64 s =
     (let neg = (case s of c # t \<Rightarrow> c = CHR ''-'' | [] \<Rightarrow> False);
          body = (case s of c # t \<Rightarrow> if c = CHR ''+'' \<or> c = CHR ''-'' then t else s | [] \<Rightarrow> []);
          v = (if neg then - int (digits_val body) else int (digits_val body))
      in if body \<noteq> [] \<and> list_all is_digit body \<and> - (2 ^ 63) \<le> v \<and> v < 2 ^ 63
         then Some v else None)"

lemma not_digit_sign: "\<not> is_digit CHR ''+''" "\<not> is_digit CHR ''-''"
  by (simp_all add: is_digit_def)

lemma dec_no_sign: "dec n = c # t \<Longrightarrow> c \<noteq> CHR ''+'' \<and> c \<noteq> CHR ''-''"
  using is_digit_dec [of c n] not_digit_sign by auto

lemma parse_unsigned_dec: "parse_unsigned m (dec n) = (if n \<le> m then Some n else None)"
  by (cases "dec n")
    (use dec_no_sign [of n] list_all_digit_dec [of n] digits_val_dec [of n] in
      \<open>auto simp: parse_unsigned_def Let_def\<close>)

lemma parse_i64_dec: "n < 2 ^ 63 \<Longrightarrow> parse_i64 (dec n) = Some (int n)"
proof -
  assume n: "n < 2 ^ 63"
  obtain c t where ct: "dec n = c # t" by (cases "dec n") auto
  have "int n < 2 ^ 63" using n by (metis of_nat_less_iff of_nat_numeral of_nat_power)
  then show ?thesis
    using dec_no_sign [OF ct] list_all_digit_dec [of n] digits_val_dec [of n] ct
    by (simp add: parse_i64_def Let_def)
qed

section \<open>Splitting and trimming\<close>

fun split_once :: "char \<Rightarrow> string \<Rightarrow> (string \<times> string) option" where
  "split_once d [] = None"
| "split_once d (c # s) =
     (if c = d then Some ([], s)
      else map_option (\<lambda>(a, b). (c # a, b)) (split_once d s))"

definition rsplit_once :: "char \<Rightarrow> string \<Rightarrow> (string \<times> string) option" where
  "rsplit_once d s = map_option (\<lambda>(a, b). (rev b, rev a)) (split_once d (rev s))"

fun split_on :: "char \<Rightarrow> string \<Rightarrow> string list" where
  "split_on d [] = [[]]"
| "split_on d (c # s) =
     (if c = d then [] # split_on d s
      else (case split_on d s of [] \<Rightarrow> [[c]] | p # ps \<Rightarrow> (c # p) # ps))"

lemma split_once_Some: "split_once d s = Some (a, b) \<Longrightarrow> s = a @ d # b \<and> d \<notin> set a"
  by (induction s arbitrary: a b) (auto split: if_splits)

lemma split_once_None: "split_once d s = None \<longleftrightarrow> d \<notin> set s"
  by (induction s) auto

lemma split_once_append: "d \<notin> set a \<Longrightarrow> split_once d (a @ d # b) = Some (a, b)"
  by (induction a) auto

lemma split_on_not_Nil [simp]: "split_on d s \<noteq> []"
  by (induction s) (auto split: list.splits)

lemma split_on_single: "d \<notin> set a \<Longrightarrow> split_on d a = [a]"
  by (induction a) auto

lemma split_on_append: "d \<notin> set a \<Longrightarrow> split_on d (a @ d # b) = a # split_on d b"
  by (induction a) auto

text \<open>
  The bytes of the characters with the Unicode property \<open>White_Space\<close>, which \<open>str::trim\<close>
  removes at both ends.
\<close>

definition white_space :: "string list" where
  "white_space = [[CHR 0x09], [CHR 0x0A], [CHR 0x0B], [CHR 0x0C], [CHR 0x0D], [CHR 0x20],
     [CHR 0xC2, CHR 0x85], [CHR 0xC2, CHR 0xA0], [CHR 0xE1, CHR 0x9A, CHR 0x80],
     [CHR 0xE2, CHR 0x80, CHR 0x80], [CHR 0xE2, CHR 0x80, CHR 0x81],
     [CHR 0xE2, CHR 0x80, CHR 0x82], [CHR 0xE2, CHR 0x80, CHR 0x83],
     [CHR 0xE2, CHR 0x80, CHR 0x84], [CHR 0xE2, CHR 0x80, CHR 0x85],
     [CHR 0xE2, CHR 0x80, CHR 0x86], [CHR 0xE2, CHR 0x80, CHR 0x87],
     [CHR 0xE2, CHR 0x80, CHR 0x88], [CHR 0xE2, CHR 0x80, CHR 0x89],
     [CHR 0xE2, CHR 0x80, CHR 0x8A], [CHR 0xE2, CHR 0x80, CHR 0xA8],
     [CHR 0xE2, CHR 0x80, CHR 0xA9], [CHR 0xE2, CHR 0x80, CHR 0xAF],
     [CHR 0xE2, CHR 0x81, CHR 0x9F], [CHR 0xE3, CHR 0x80, CHR 0x80]]"

fun strip_pre :: "string \<Rightarrow> string \<Rightarrow> string option" where
  "strip_pre [] s = Some s"
| "strip_pre (p # ps) (c # s) = (if p = c then strip_pre ps s else None)"
| "strip_pre (p # ps) [] = None"

definition strip_suf :: "string \<Rightarrow> string \<Rightarrow> string option" where
  "strip_suf suf s = map_option rev (strip_pre (rev suf) (rev s))"

lemma strip_pre_Some: "strip_pre p s = Some t \<longleftrightarrow> s = p @ t"
  by (induction p s rule: strip_pre.induct) auto

lemma strip_suf_Some: "strip_suf p s = Some t \<longleftrightarrow> s = t @ p"
proof -
  have "rev s = rev p @ rev t \<longleftrightarrow> s = t @ p"
    by (metis rev_append rev_rev_ident)
  then show ?thesis
    by (auto simp: strip_suf_def strip_pre_Some)
qed

fun trim_fuel :: "nat \<Rightarrow> string list \<Rightarrow> string \<Rightarrow> string" where
  "trim_fuel 0 ws s = s"
| "trim_fuel (Suc n) ws s =
     (case find_map (\<lambda>w. strip_pre w s) ws of None \<Rightarrow> s | Some t \<Rightarrow> trim_fuel n ws t)"

text \<open>
  Every removed character is at least one byte, so as many rounds as there are bytes are enough.
\<close>

definition trim_start :: "string \<Rightarrow> string" where
  "trim_start s = trim_fuel (length s) white_space s"

definition trim_end :: "string \<Rightarrow> string" where
  "trim_end s = rev (trim_fuel (length s) (map rev white_space) (rev s))"

definition trim :: "string \<Rightarrow> string" where
  "trim s = trim_end (trim_start s)"

lemma strip_pre_length: "strip_pre w s = Some t \<Longrightarrow> w \<noteq> [] \<Longrightarrow> length t < length s"
  by (auto simp: strip_pre_Some)

lemma trim_fuel_enough:
  assumes "[] \<notin> set ws" and "length s \<le> n"
  shows "find_map (\<lambda>w. strip_pre w (trim_fuel n ws s)) ws = None"
  using assms
proof (induction n arbitrary: s)
  case 0
  show ?case
  proof (cases "find_map (\<lambda>w. strip_pre w (trim_fuel 0 ws s)) ws")
    case (Some t)
    then obtain w where "w \<in> set ws" "strip_pre w s = Some t"
      by (auto dest!: find_map_Some)
    with 0 show ?thesis using strip_pre_length by fastforce
  qed
next
  case (Suc n)
  show ?case
  proof (cases "find_map (\<lambda>w. strip_pre w s) ws")
    case None
    then show ?thesis by simp
  next
    case (Some t)
    then obtain w where "w \<in> set ws" "strip_pre w s = Some t"
      by (auto dest!: find_map_Some)
    with Suc.prems have "length t < length s"
      using strip_pre_length by blast
    with Suc Some show ?thesis by simp
  qed
qed

definition graphic :: "char \<Rightarrow> bool" where
  "graphic c \<longleftrightarrow> (33::nat) \<le> of_char c \<and> of_char c \<le> (126::nat)"

lemma find_map_None: "(\<forall>x\<in>set xs. f x = None) \<Longrightarrow> find_map f xs = None"
  by (induction xs) auto

lemma strip_pre_hd: "w \<noteq> [] \<Longrightarrow> hd w \<noteq> c \<Longrightarrow> strip_pre w (c # s) = None"
  by (cases w) auto

lemma white_space_hd: "w \<in> set white_space \<Longrightarrow> w \<noteq> [] \<and> \<not> graphic (hd w)"
  by (auto simp: white_space_def graphic_def)

lemma white_space_last: "w \<in> set white_space \<Longrightarrow> \<not> graphic (last w)"
  by (auto simp: white_space_def graphic_def)

lemma trim_fuel_graphic:
  assumes "graphic c" and "\<forall>w\<in>set ws. w \<noteq> [] \<and> \<not> graphic (hd w)"
  shows "trim_fuel n ws (c # s) = c # s"
proof (cases n)
  case (Suc m)
  have "find_map (\<lambda>w. strip_pre w (c # s)) ws = None"
    using assms by (intro find_map_None ballI strip_pre_hd) auto
  with Suc show ?thesis by simp
qed simp

lemma trim_graphic:
  assumes "s \<noteq> []" and "graphic (hd s)" and "graphic (last s)"
  shows "trim s = s"
proof -
  have "trim_start s = s"
    using assms(1,2) trim_fuel_graphic white_space_hd unfolding trim_start_def
    by (metis list.collapse)
  moreover have "trim_end s = s"
  proof -
    have ws: "\<forall>w\<in>set (map rev white_space). w \<noteq> [] \<and> \<not> graphic (hd w)"
      using white_space_hd white_space_last by (auto simp: hd_rev)
    obtain c t where ct: "rev s = c # t" "c = last s"
      using assms(1) by (metis hd_rev list.collapse rev_is_Nil_conv)
    have "trim_fuel (length s) (map rev white_space) (rev s) = rev s"
      using trim_fuel_graphic [OF _ ws] assms(3) unfolding ct by simp
    then show ?thesis by (simp add: trim_end_def)
  qed
  ultimately show ?thesis by (simp add: trim_def)
qed

lemma digit_graphic: "is_digit c \<Longrightarrow> graphic c"
  by (auto simp: is_digit_def graphic_def)

section \<open>The \<open>Debug\<close> form of a string\<close>

definition hex_digit :: "nat \<Rightarrow> char" where
  "hex_digit d = (if d < 10 then digit_char d else char_of (87 + d))"

text \<open>
  \<open>\{:?\}\<close> on a \<open>str\<close>: quoted, with the ASCII escapes. Bytes of non-ASCII characters are written
  as they are, which is what \<open>Debug\<close> does for every printable character.
\<close>

definition char_debug :: "char \<Rightarrow> string" where
  "char_debug c = (let n = of_char c :: nat in
     if n = 0 then [CHR 0x5C, CHR ''0'']
     else if n = 9 then [CHR 0x5C, CHR ''t'']
     else if n = 10 then [CHR 0x5C, CHR ''n'']
     else if n = 13 then [CHR 0x5C, CHR ''r'']
     else if n = 34 \<or> n = 92 then [CHR 0x5C, c]
     else if n < 16 then [CHR 0x5C, CHR ''u'', CHR 0x7B, hex_digit n, CHR 0x7D]
     else if n < 32 \<or> n = 127
       then [CHR 0x5C, CHR ''u'', CHR 0x7B, hex_digit (n div 16), hex_digit (n mod 16), CHR 0x7D]
     else [c])"

definition str_debug :: "string \<Rightarrow> string" where
  "str_debug s = [CHR 0x22] @ concat (map char_debug s) @ [CHR 0x22]"

section \<open>IPv4 addresses\<close>

text \<open>
  An \<open>Ipv4Addr\<close> is its 32-bit value (\<open>u32::from\<close> and \<open>Ipv4Addr::from\<close> are inverse to each
  other). \<open>FromStr\<close> wants four decimal octets of at most three digits with no leading zero.
\<close>

type_synonym ipv4 = u32

definition parse_octet :: "string \<Rightarrow> nat option" where
  "parse_octet s =
     (if s \<noteq> [] \<and> length s \<le> 3 \<and> list_all is_digit s
         \<and> (hd s = CHR ''0'' \<longrightarrow> length s = 1) \<and> digits_val s \<le> 255
      then Some (digits_val s) else None)"

definition parse_ipv4 :: "string \<Rightarrow> ipv4 option" where
  "parse_ipv4 s = (case split_on (CHR ''.'') s of
     [a, b, c, d] \<Rightarrow>
       (case (parse_octet a, parse_octet b, parse_octet c, parse_octet d) of
          (Some a, Some b, Some c, Some d) \<Rightarrow>
            Some (word_of_nat (((a * 256 + b) * 256 + c) * 256 + d))
        | _ \<Rightarrow> None)
   | _ \<Rightarrow> None)"

definition ipv4_display :: "ipv4 \<Rightarrow> string" where
  "ipv4_display w = (let n = unat w in
     dec (n div 256 div 256 div 256) @ ''.'' @ dec (n div 256 div 256 mod 256) @ ''.'' @
     dec (n div 256 mod 256) @ ''.'' @ dec (n mod 256))"

lemma digit_char_0: "digit_char 0 = CHR ''0''"
  by code_simp

lemma parse_octet_dec: "n < 256 \<Longrightarrow> parse_octet (dec n) = Some n"
proof -
  assume n: "n < 256"
  have "length (dec n) \<le> 3" using length_dec_le [of n 2] n by simp
  moreover have "hd (dec n) = CHR ''0'' \<longrightarrow> length (dec n) = 1"
    using hd_dec [of n] by (cases "n = 0") (auto simp: dec.simps [of 0] digit_char_0)
  ultimately show ?thesis using n by (simp add: parse_octet_def)
qed

lemma dot_notin_dec: "CHR ''.'' \<notin> set (dec n)"
  using is_digit_dec [of "CHR ''.''" n] by (auto simp: is_digit_def)

lemma octets_join:
  "(((n div 256 div 256 div 256) * 256 + n div 256 div 256 mod 256) * 256
     + n div 256 mod 256) * 256 + n mod 256 = (n::nat)"
  by (simp only: div_mult_mod_eq)

theorem parse_ipv4_display: "parse_ipv4 (ipv4_display w) = Some w"
proof -
  have "unat w < 256 * 256 * 256 * 256"
    using unat_le_max [of w] by simp
  then have "unat w div 256 div 256 div 256 < 256" by (simp only: div_less_iff_less_mult [of 256, simplified])
  then show ?thesis
    by (simp add: ipv4_display_def parse_ipv4_def Let_def split_on_append [OF dot_notin_dec]
        split_on_single [OF dot_notin_dec] parse_octet_dec octets_join)
qed

end
