(* ===== verification/Ipv4_Net.thy ===== *)
theory Ipv4_Net
  imports Rust_Str
begin

unbundle bit_operations_syntax

text \<open>
  \<open>shared/common/src/net.rs\<close>: IPv4 ranges as CIDRs, single addresses and \<open>a-b\<close> runs, their
  parsing and display, and the allocation scan over a list of ranges. The theorems tie the
  interval comparisons to the sets of addresses they stand for, show that every parsed range is
  well formed, that the display and CIDR forms read back as the same addresses, and that the
  allocation scan finds a free allocatable address exactly when there is one.
\<close>

section \<open>Ranges\<close>

record ipv4_range =
  rg_start :: u32
  rg_end :: u32
  rg_edges_reserved :: bool

datatype range_error =
    RangeEmpty
  | RangeMalformed string
  | RangeInverted string
  | RangePrefixTooLong string

fun range_error_display :: "range_error \<Rightarrow> string" where
  "range_error_display RangeEmpty = ''an address range cannot be empty''"
| "range_error_display (RangeMalformed s) = str_debug s @
     '' is not an address range; write a cidr (10.255.0.0/16), a single address (203.0.113.7) or a range (203.0.113.8-203.0.113.11)''"
| "range_error_display (RangeInverted s) = str_debug s @ '' ends before it starts''"
| "range_error_display (RangePrefixTooLong s) = str_debug s @ '' has a prefix length above 32''"

definition range_contains :: "ipv4_range \<Rightarrow> ipv4 \<Rightarrow> bool" where
  "range_contains r n \<longleftrightarrow> n \<ge> rg_start r \<and> n \<le> rg_end r"

definition range_overlaps :: "ipv4_range \<Rightarrow> ipv4_range \<Rightarrow> bool" where
  "range_overlaps r s \<longleftrightarrow> rg_start r \<le> rg_end s \<and> rg_start s \<le> rg_end r"

definition range_covers :: "ipv4_range \<Rightarrow> ipv4_range \<Rightarrow> bool" where
  "range_covers r s \<longleftrightarrow> rg_start r \<le> rg_start s \<and> rg_end s \<le> rg_end r"

definition range_len :: "ipv4_range \<Rightarrow> u64" where
  "range_len r = ucast (rg_end r - rg_start r) + 1"

text \<open>\<open>from..=to\<close> as the list of its members.\<close>

definition addr_upto :: "ipv4 \<Rightarrow> ipv4 \<Rightarrow> ipv4 list" where
  "addr_upto a b = map word_of_nat [unat a ..< Suc (unat b)]"

definition range_allocatable :: "ipv4_range \<Rightarrow> ipv4 list" where
  "range_allocatable r =
     (let (a, b) = (if rg_edges_reserved r then (rg_start r + 1, rg_end r - 1)
                    else (rg_start r, rg_end r))
      in addr_upto a b)"

definition range_is_allocatable :: "ipv4_range \<Rightarrow> ipv4 \<Rightarrow> bool" where
  "range_is_allocatable r n =
     (if \<not> range_contains r n then False
      else \<not> rg_edges_reserved r \<or> (n \<noteq> rg_start r \<and> n \<noteq> rg_end r))"

definition range_display :: "ipv4_range \<Rightarrow> string" where
  "range_display r =
     (if rg_start r = rg_end r then ipv4_display (rg_start r)
      else ipv4_display (rg_start r) @ ''-'' @ ipv4_display (rg_end r))"

definition range_to_nft :: "ipv4_range \<Rightarrow> string" where
  "range_to_nft r = range_display r"

fun is_power_of_two :: "nat \<Rightarrow> bool" where
  "is_power_of_two n = (if n = 0 then False else if n = 1 then True
                        else even n \<and> is_power_of_two (n div 2))"

fun trailing_zeros :: "nat \<Rightarrow> nat" where
  "trailing_zeros n = (if n = 0 then 64 else if odd n then 0 else Suc (trailing_zeros (n div 2)))"

declare is_power_of_two.simps [simp del] trailing_zeros.simps [simp del]

definition range_to_cidr :: "ipv4_range \<Rightarrow> string option" where
  "range_to_cidr r =
     (let size = unat (rg_end r - rg_start r) + 1 in
      if \<not> is_power_of_two size then None
      else if unat (rg_start r) mod size \<noteq> 0 then None
      else Some (ipv4_display (rg_start r) @ ''/'' @ dec (32 - trailing_zeros size)))"

section \<open>Parsing\<close>

definition parse_addr :: "string \<Rightarrow> string \<Rightarrow> range_error + ipv4" where
  "parse_addr part whole =
     (case parse_ipv4 (trim part) of None \<Rightarrow> Inl (RangeMalformed whole) | Some a \<Rightarrow> Inr a)"

definition prefix_mask :: "nat \<Rightarrow> u32" where
  "prefix_mask prefix = (if prefix = 0 then 0 else push_bit (32 - prefix) (- 1))"

definition cidr_range :: "ipv4 \<Rightarrow> nat \<Rightarrow> ipv4_range" where
  "cidr_range addr prefix =
     (let mask = prefix_mask prefix; base = addr AND mask
      in \<lparr>rg_start = base, rg_end = base OR NOT mask, rg_edges_reserved = (prefix \<le> 30)\<rparr>)"

definition range_from_str :: "string \<Rightarrow> range_error + ipv4_range" where
  "range_from_str s =
     (let text = trim s in
      if text = [] then Inl RangeEmpty
      else case split_once (CHR ''-'') text of
        Some (a, b) \<Rightarrow>
          (case parse_addr a text of Inl e \<Rightarrow> Inl e | Inr start \<Rightarrow>
           (case parse_addr b text of Inl e \<Rightarrow> Inl e | Inr end' \<Rightarrow>
             if end' < start then Inl (RangeInverted text)
             else Inr \<lparr>rg_start = start, rg_end = end', rg_edges_reserved = False\<rparr>))
      | None \<Rightarrow>
          (case split_once (CHR ''/'') text of
             Some (addr, prefix) \<Rightarrow>
               (case parse_addr addr text of Inl e \<Rightarrow> Inl e | Inr addr \<Rightarrow>
                (case parse_unsigned (2 ^ 32 - 1) (trim prefix) of
                   None \<Rightarrow> Inl (RangeMalformed text)
                 | Some prefix \<Rightarrow>
                     if prefix > 32 then Inl (RangePrefixTooLong text)
                     else Inr (cidr_range addr prefix)))
           | None \<Rightarrow>
               (case parse_addr text text of Inl e \<Rightarrow> Inl e | Inr addr \<Rightarrow>
                 Inr \<lparr>rg_start = addr, rg_end = addr, rg_edges_reserved = False\<rparr>)))"

section \<open>Lists of ranges\<close>

type_synonym ipv4_ranges = "ipv4_range list"

fun ranges_parse :: "string list \<Rightarrow> range_error + ipv4_ranges" where
  "ranges_parse [] = Inr []"
| "ranges_parse (e # es) =
     (case range_from_str e of Inl err \<Rightarrow> Inl err | Inr r \<Rightarrow>
      (case ranges_parse es of Inl err \<Rightarrow> Inl err | Inr rs \<Rightarrow> Inr (r # rs)))"

definition ranges_contains :: "ipv4_ranges \<Rightarrow> ipv4 \<Rightarrow> bool" where
  "ranges_contains rs a = list_ex (\<lambda>r. range_contains r a) rs"

definition ranges_overlaps :: "ipv4_ranges \<Rightarrow> ipv4_ranges \<Rightarrow> bool" where
  "ranges_overlaps rs ss = list_ex (\<lambda>a. list_ex (\<lambda>b. range_overlaps a b) ss) rs"

definition ranges_overlaps_range :: "ipv4_ranges \<Rightarrow> ipv4_range \<Rightarrow> bool" where
  "ranges_overlaps_range rs s = list_ex (\<lambda>a. range_overlaps a s) rs"

definition ranges_len :: "ipv4_ranges \<Rightarrow> u64" where
  "ranges_len rs = sum_list (map range_len rs)"

definition ranges_first_free :: "ipv4_ranges \<Rightarrow> ipv4 set \<Rightarrow> ipv4 option" where
  "ranges_first_free rs taken = find (\<lambda>a. a \<notin> taken) (concat (map range_allocatable rs))"

definition ranges_is_allocatable :: "ipv4_ranges \<Rightarrow> ipv4 \<Rightarrow> bool" where
  "ranges_is_allocatable rs a = list_ex (\<lambda>r. range_is_allocatable r a) rs"

definition ranges_to_nft :: "ipv4_ranges \<Rightarrow> string" where
  "ranges_to_nft rs = join '', '' (map range_to_nft rs)"

section \<open>Well-formed ranges\<close>

text \<open>What the parser promises: the ends are in order, and only blocks of at least four addresses
  reserve their edges.\<close>

definition range_wf :: "ipv4_range \<Rightarrow> bool" where
  "range_wf r \<longleftrightarrow> rg_start r \<le> rg_end r
     \<and> (rg_edges_reserved r \<longrightarrow> unat (rg_start r) + 3 \<le> unat (rg_end r))"

lemma prefix_mask_eq: "p \<le> 32 \<Longrightarrow> prefix_mask p = NOT (mask (32 - p))"
proof -
  have "NOT (mask 32 :: u32) = 0"
    by (rule bit_word_eqI) (simp add: bit_simps)
  then show ?thesis by (simp add: prefix_mask_def)
qed

lemma unat_mask: "k \<le> 32 \<Longrightarrow> unat (mask k :: u32) = 2 ^ k - 1"
proof -
  assume k: "k \<le> 32"
  have "nat (uint (mask k :: u32)) = mask k"
    using k by (simp only: uint_mask_eq nat_mask_eq) (simp add: min_def)
  then show ?thesis
    by (simp only: unat_eq_nat_uint mask_eq_exp_minus_1)
qed

lemma unat_and_not_mask: "unat (a AND NOT (mask k)) = unat a - unat a mod 2 ^ k" for a :: u32
proof -
  have "a AND NOT (mask k) = a - take_bit k a"
  proof -
    have "(a AND NOT (mask k)) + take_bit k a = (a AND NOT (mask k)) OR take_bit k a"
      by (rule disjunctive_add_eq_or) (auto simp: bit_eq_iff bit_simps)
    also have "\<dots> = a"
      by (auto simp: bit_eq_iff bit_simps)
    finally show ?thesis by (simp add: eq_diff_eq)
  qed
  moreover have "unat (take_bit k a) = unat a mod 2 ^ k"
    by (simp only: unsigned_take_bit_eq) (simp add: take_bit_eq_mod)
  moreover have "take_bit k a \<le> a"
    by (simp add: word_le_nat_alt calculation(2))
  ultimately show ?thesis by (simp add: unat_sub)
qed

lemma cidr_start:
  assumes "p \<le> 32"
  shows "unat (rg_start (cidr_range a p)) = unat a - unat a mod 2 ^ (32 - p)"
  using assms by (simp add: cidr_range_def Let_def prefix_mask_eq unat_and_not_mask)

lemma cidr_end:
  assumes "p \<le> 32"
  shows "unat (rg_end (cidr_range a p)) = unat (rg_start (cidr_range a p)) + (2 ^ (32 - p) - 1)"
proof -
  let ?k = "32 - p"
  let ?b = "a AND NOT (mask ?k)"
  have "?b OR mask ?k = ?b + mask ?k"
    by (rule disjunctive_add_eq_or [symmetric]) (auto simp: bit_eq_iff bit_simps)
  moreover have m: "unat (mask ?k :: u32) = 2 ^ ?k - 1"
    by (simp add: unat_mask)
  moreover have "unat ?b + unat (mask ?k :: u32) < 2 ^ 32"
  proof -
    have pw: "(2::nat) ^ p * 2 ^ ?k = 2 ^ 32"
      using power_add [of "2::nat" p ?k] assms by (metis le_add_diff_inverse)
    define q where "q = unat a div 2 ^ ?k"
    have b: "unat ?b = q * 2 ^ ?k"
      by (simp add: unat_and_not_mask q_def minus_mod_eq_div_mult)
    have "unat a < 2 ^ 32"
      using unat_le_max [of a] by simp
    then have "unat a < 2 ^ p * 2 ^ ?k"
      by (simp only: pw)
    then have "q < 2 ^ p"
      by (simp add: q_def less_mult_imp_div_less)
    then have "(q + 1) * 2 ^ ?k \<le> 2 ^ p * 2 ^ ?k"
      by (intro mult_le_mono1) simp
    then have "q * 2 ^ ?k + 2 ^ ?k \<le> 2 ^ 32"
      by (simp only: pw distrib_right mult_1)
    moreover have "(0::nat) < 2 ^ ?k" by simp
    ultimately show ?thesis unfolding b m by linarith
  qed
  ultimately have "unat (?b OR mask ?k) = unat ?b + (2 ^ ?k - 1)"
    by (simp add: unat_word_ariths)
  then show ?thesis
    using assms by (simp add: cidr_range_def Let_def prefix_mask_eq)
qed

lemma cidr_wf: "p \<le> 32 \<Longrightarrow> range_wf (cidr_range a p)"
proof -
  assume p: "p \<le> 32"
  have "2 ^ 2 \<le> (2::nat) ^ (32 - p)" if "p \<le> 30"
    by (rule power_increasing) (use that in auto)
  moreover have "0 < (2::nat) ^ (32 - p)" by simp
  moreover have "rg_edges_reserved (cidr_range a p) \<longleftrightarrow> p \<le> 30"
    by (simp add: cidr_range_def Let_def)
  ultimately show ?thesis
    unfolding range_wf_def word_le_nat_alt cidr_end [OF p, of a]
    by (intro conjI impI) (linarith | simp)+
qed

section \<open>Ranges as sets of addresses\<close>

definition addresses_of :: "ipv4_range \<Rightarrow> ipv4 set" where
  "addresses_of r = {a. range_contains r a}"

lemma range_overlaps_iff:
  assumes "range_wf r" and "range_wf s"
  shows "range_overlaps r s \<longleftrightarrow> addresses_of r \<inter> addresses_of s \<noteq> {}"
proof -
  have "range_overlaps r s \<longleftrightarrow> max (rg_start r) (rg_start s) \<le> min (rg_end r) (rg_end s)"
    using assms by (auto simp: range_overlaps_def range_wf_def)
  also have "\<dots> \<longleftrightarrow> (\<exists>a. max (rg_start r) (rg_start s) \<le> a \<and> a \<le> min (rg_end r) (rg_end s))"
    by (meson order.refl order.trans)
  finally show ?thesis
    by (auto simp: addresses_of_def range_contains_def)
qed

lemma range_covers_iff:
  assumes "range_wf s"
  shows "range_covers r s \<longleftrightarrow> addresses_of s \<subseteq> addresses_of r"
proof
  assume "range_covers r s"
  then show "addresses_of s \<subseteq> addresses_of r"
    by (auto simp: range_covers_def addresses_of_def range_contains_def)
next
  assume "addresses_of s \<subseteq> addresses_of r"
  moreover have "rg_start s \<in> addresses_of s" "rg_end s \<in> addresses_of s"
    using assms by (auto simp: addresses_of_def range_contains_def range_wf_def)
  ultimately show "range_covers r s"
    by (auto simp: range_covers_def addresses_of_def range_contains_def)
qed

lemma set_addr_upto: "set (addr_upto a b) = {n. a \<le> n \<and> n \<le> b}"
proof -
  have "n \<in> set (addr_upto a b)" if "a \<le> n" "n \<le> b" for n
  proof -
    have "unat n \<in> set [unat a ..< Suc (unat b)]"
      using that unfolding word_le_nat_alt set_upt by (simp add: less_Suc_eq_le del: upt_Suc)
    then show ?thesis unfolding addr_upto_def set_map
      by (rule rev_image_eqI) simp
  qed
  moreover have "a \<le> n \<and> n \<le> b" if "n \<in> set (addr_upto a b)" for n
  proof -
    from that obtain k where k: "unat a \<le> k" "k \<le> unat b" "n = word_of_nat k"
      by (auto simp: addr_upto_def)
    then have "k < 2 ^ LENGTH(32)"
      using unat_le_max [of b] by simp
    then have "unat n = k"
      using k(3) by (simp add: unsigned_of_nat take_bit_eq_mod)
    with k show ?thesis by (simp add: word_le_nat_alt)
  qed
  ultimately show ?thesis by blast
qed

lemma set_range_allocatable:
  assumes "range_wf r"
  shows "set (range_allocatable r) = {a. range_is_allocatable r a}"
proof (cases "rg_edges_reserved r")
  case False
  then show ?thesis
    by (auto simp: range_allocatable_def set_addr_upto range_is_allocatable_def range_contains_def)
next
  case True
  have r: "unat (rg_start r) + 3 \<le> unat (rg_end r)"
    using assms True by (simp add: range_wf_def)
  have e: "unat (rg_end r - 1) = unat (rg_end r) - 1"
    using r by (simp add: unat_sub word_le_nat_alt)
  have s: "unat (rg_start r + 1) = unat (rg_start r) + 1"
    using r unat_le_max [of "rg_end r"] by (simp add: unat_word_ariths)
  have "rg_start r + 1 \<le> a \<and> a \<le> rg_end r - 1 \<longleftrightarrow> range_is_allocatable r a" for a
    using r True unfolding word_le_nat_alt e s
    by (auto simp: range_is_allocatable_def range_contains_def word_le_nat_alt word_unat_eq_iff)
  with True show ?thesis
    by (simp add: range_allocatable_def set_addr_upto)
qed

lemma find_spec:
  "case find P xs of Some x \<Rightarrow> x \<in> set xs \<and> P x | None \<Rightarrow> \<forall>x\<in>set xs. \<not> P x"
  by (induction xs) (auto split: option.splits)

lemma ranges_first_free_cases:
  assumes "list_all range_wf rs"
  shows "case ranges_first_free rs taken of
           Some a \<Rightarrow> ranges_is_allocatable rs a \<and> a \<notin> taken
         | None \<Rightarrow> \<forall>a. ranges_is_allocatable rs a \<longrightarrow> a \<in> taken"
proof -
  have "set (concat (map range_allocatable rs)) = {a. ranges_is_allocatable rs a}"
    using assms set_range_allocatable
    by (auto simp: ranges_is_allocatable_def list_ex_iff list_all_iff)
  then show ?thesis
    using find_spec [where P = "\<lambda>a. a \<notin> taken" and xs = "concat (map range_allocatable rs)"]
    by (auto simp: ranges_first_free_def split: option.splits)
qed

lemma ranges_is_allocatable_contains: "ranges_is_allocatable rs a \<Longrightarrow> ranges_contains rs a"
  by (auto simp: ranges_is_allocatable_def ranges_contains_def list_ex_iff range_is_allocatable_def
      split: if_splits)

section \<open>The parser\<close>

lemma range_from_str_wf: "range_from_str s = Inr r \<Longrightarrow> range_wf r"
  by (auto simp: range_from_str_def Let_def not_less cidr_wf
      split: if_splits option.splits sum.splits)
    (auto simp: range_wf_def)

lemma ranges_parse_wf: "ranges_parse es = Inr rs \<Longrightarrow> list_all range_wf rs"
  by (induction es arbitrary: rs) (auto split: sum.splits dest: range_from_str_wf)

lemma ranges_parse_Inr:
  "ranges_parse es = Inr rs \<longleftrightarrow> list_all2 (\<lambda>e r. range_from_str e = Inr r) es rs"
  by (induction es arbitrary: rs) (auto simp: list_all2_Cons1 split: sum.splits, metis Inr_inject)

section \<open>Display and CIDR forms read back\<close>

lemma chars_ipv4_display: "c \<in> set (ipv4_display w) \<Longrightarrow> is_digit c \<or> c = CHR ''.''"
  by (auto simp: ipv4_display_def Let_def dest: is_digit_dec)

lemma ipv4_display_not_Nil [simp]: "ipv4_display w \<noteq> []"
  by (simp add: ipv4_display_def Let_def)

lemma not_in_ipv4_display: "CHR ''-'' \<notin> set (ipv4_display w)" "CHR ''/'' \<notin> set (ipv4_display w)"
  by (auto simp: is_digit_def dest: chars_ipv4_display)

lemma graphic_ipv4_display: "graphic (hd (ipv4_display w))" "graphic (last (ipv4_display w))"
  using chars_ipv4_display [of "hd (ipv4_display w)" w] chars_ipv4_display [of "last (ipv4_display w)" w]
  by (auto simp: graphic_def is_digit_def)

lemma trim_ipv4_display [simp]: "trim (ipv4_display w) = ipv4_display w"
  by (simp add: trim_graphic graphic_ipv4_display)

lemma trim_between:
  assumes "u \<noteq> []" "v \<noteq> []" "graphic (hd u)" "graphic (last v)"
  shows "trim (u @ m @ v) = u @ m @ v"
  using assms by (intro trim_graphic) auto

lemma parse_addr_ipv4_display [simp]: "parse_addr (ipv4_display w) whole = Inr w"
  by (simp add: parse_addr_def parse_ipv4_display)

lemma range_from_str_display:
  assumes "range_wf r"
  shows "range_from_str (range_display r) = Inr (r\<lparr>rg_edges_reserved := False\<rparr>)"
proof (cases "rg_start r = rg_end r")
  case True
  then show ?thesis
    by (simp add: range_display_def range_from_str_def Let_def split_once_None
        not_in_ipv4_display [THEN split_once_None [THEN iffD2]])
next
  case False
  have "trim (ipv4_display (rg_start r) @ ''-'' @ ipv4_display (rg_end r))
      = ipv4_display (rg_start r) @ ''-'' @ ipv4_display (rg_end r)"
    by (intro trim_between) (simp_all add: graphic_ipv4_display)
  moreover have "\<not> rg_end r < rg_start r"
    using assms by (simp add: range_wf_def not_less)
  ultimately show ?thesis using False
    by (simp add: range_display_def range_from_str_def Let_def
        split_once_append [OF not_in_ipv4_display(1)])
qed

lemma range_from_str_cidr:
  assumes "p \<le> 32"
  shows "range_from_str (ipv4_display a @ ''/'' @ dec p) = Inr (cidr_range a p)"
proof -
  have d: "graphic (hd (dec p))" "graphic (last (dec p))"
    using is_digit_dec [of _ p] by (auto intro!: digit_graphic)
  have t: "trim (ipv4_display a @ ''/'' @ dec p) = ipv4_display a @ ''/'' @ dec p"
    by (intro trim_between) (simp_all add: graphic_ipv4_display d)
  have "CHR ''-'' \<notin> set (dec p)"
    using is_digit_dec not_digit_sign by blast
  then have "split_once (CHR ''-'') (ipv4_display a @ CHR ''/'' # dec p) = None"
    by (simp add: split_once_None not_in_ipv4_display)
  with t assms show ?thesis
    by (simp add: range_from_str_def Let_def split_once_append [OF not_in_ipv4_display(2)]
        trim_graphic d parse_unsigned_dec)
qed

lemma power_of_two_size:
  "is_power_of_two n \<Longrightarrow> n = 2 ^ trailing_zeros n"
proof (induction n rule: is_power_of_two.induct)
  case (1 n)
  then show ?case
    by (cases "n = 1"; cases "odd n")
      (auto simp: is_power_of_two.simps [of n] trailing_zeros.simps [of n] trailing_zeros.simps [of "Suc 0"]
        split: if_splits)
qed

lemma range_to_cidr_reads_back:
  assumes wf: "range_wf r" and c: "range_to_cidr r = Some s"
  shows "range_from_str s
       = Inr (r\<lparr>rg_edges_reserved := (unat (rg_start r) + 3 \<le> unat (rg_end r))\<rparr>)"
proof -
  define size where "size = unat (rg_end r - rg_start r) + 1"
  define k where "k = trailing_zeros size"
  have size: "size = unat (rg_end r) - unat (rg_start r) + 1"
    using wf by (simp add: size_def range_wf_def unat_sub)
  have pow: "size = 2 ^ k" and al: "unat (rg_start r) mod size = 0"
    and s: "s = ipv4_display (rg_start r) @ ''/'' @ dec (32 - k)"
    using c power_of_two_size [of size]
    by (auto simp: range_to_cidr_def Let_def size_def k_def split: if_splits)
  have "size \<le> 2 ^ 32"
    using unat_le_max [of "rg_end r"] by (simp add: size)
  then have k: "k \<le> 32"
    using power_le_imp_le_exp [of "2::nat" k 32] by (simp only: pow)
  have st: "unat (rg_start (cidr_range (rg_start r) (32 - k))) = unat (rg_start r)"
    using cidr_start [of "32 - k" "rg_start r"] al k by (simp add: pow)
  have en: "unat (rg_end (cidr_range (rg_start r) (32 - k))) = unat (rg_end r)"
  proof -
    have "unat (rg_end (cidr_range (rg_start r) (32 - k))) = unat (rg_start r) + (size - 1)"
      using cidr_end [of "32 - k" "rg_start r"] st k by (simp add: pow)
    moreover have "unat (rg_start r) \<le> unat (rg_end r)"
      using wf by (simp add: range_wf_def word_le_nat_alt)
    ultimately show ?thesis by (simp add: size)
  qed
  have "2 \<le> k \<longleftrightarrow> 4 \<le> size"
  proof -
    have "2 \<le> k \<longleftrightarrow> (2::nat) ^ 2 \<le> 2 ^ k"
      using power_increasing_iff [of "2::nat" 2 k] by (simp del: power2_eq_square)
    then show ?thesis by (simp add: pow)
  qed
  then have ed: "32 - k \<le> 30 \<longleftrightarrow> unat (rg_start r) + 3 \<le> unat (rg_end r)"
    using size k by linarith
  have "cidr_range (rg_start r) (32 - k)
      = r\<lparr>rg_edges_reserved := (unat (rg_start r) + 3 \<le> unat (rg_end r))\<rparr>"
    using st en ed by (intro ipv4_range.equality) (auto simp: word_unat_eq_iff cidr_range_def Let_def)
  then show ?thesis
    unfolding s using range_from_str_cidr [of "32 - k" "rg_start r"] by simp
qed

section \<open>What the ranges promise\<close>

text \<open>C27: What a parsed range prints reads back as the same addresses: the display form always, without
  reserved edges; the CIDR form whenever there is one, with edges reserved exactly when the block
  has four addresses or more.\<close>

theorem printed_ranges_read_back:
  assumes "range_from_str s = Inr r"
  shows "range_from_str (range_display r) = Inr (r\<lparr>rg_edges_reserved := False\<rparr>)
    \<and> (case range_to_cidr r of None \<Rightarrow> True
       | Some c \<Rightarrow> range_from_str c
           = Inr (r\<lparr>rg_edges_reserved := (unat (rg_start r) + 3 \<le> unat (rg_end r))\<rparr>))"
  using range_from_str_wf [OF assms] range_from_str_display range_to_cidr_reads_back
  by (auto split: option.splits)

lemma sample_block:
  "range_from_str (ipv4_display 0x0A000000 @ ''/'' @ dec 30)
     = Inr \<lparr>rg_start = 0x0A000000, rg_end = 0x0A000003, rg_edges_reserved = True\<rparr>"
proof -
  have "unat (rg_start (cidr_range 0x0A000000 30)) = unat (0x0A000000 :: u32)"
    "unat (rg_end (cidr_range 0x0A000000 30)) = unat (0x0A000003 :: u32)"
    "rg_edges_reserved (cidr_range 0x0A000000 30)"
    by (simp_all add: cidr_start cidr_end) (simp add: cidr_range_def Let_def)
  then have "cidr_range 0x0A000000 30 = \<lparr>rg_start = 0x0A000000, rg_end = 0x0A000003, rg_edges_reserved = True\<rparr>"
    by (intro ipv4_range.equality) (simp_all only: word_unat_eq_iff ipv4_range.simps simp_thms unit_eq)
  then show ?thesis using range_from_str_cidr [of 30 "0x0A000000"] by simp
qed

theorem printed_ranges_read_back_witness:
  "range_from_str (range_display \<lparr>rg_start = 0x0A000000, rg_end = 0x0A000003, rg_edges_reserved = True\<rparr>)
     = Inr \<lparr>rg_start = 0x0A000000, rg_end = 0x0A000003, rg_edges_reserved = False\<rparr>"
  using printed_ranges_read_back [OF sample_block] by simp

text \<open>C28: On ranges that were parsed, the interval comparisons are comparisons of sets of addresses: two
  ranges overlap exactly when they share an address, and one covers another exactly when it has
  all its addresses.\<close>

theorem range_comparisons_are_set_comparisons:
  assumes "range_from_str s = Inr r" and "range_from_str t = Inr q"
  shows "(range_overlaps r q \<longleftrightarrow> addresses_of r \<inter> addresses_of q \<noteq> {})
    \<and> (range_covers r q \<longleftrightarrow> addresses_of q \<subseteq> addresses_of r)"
  using range_overlaps_iff range_covers_iff range_from_str_wf [OF assms(1)] range_from_str_wf [OF assms(2)]
  by blast

theorem range_comparisons_are_set_comparisons_witness:
  "addresses_of \<lparr>rg_start = 0x0A000002, rg_end = 0x0A000002, rg_edges_reserved = False\<rparr>
     \<subseteq> addresses_of \<lparr>rg_start = 0x0A000000, rg_end = 0x0A000003, rg_edges_reserved = True\<rparr>"
proof -
  have "range_from_str (range_display \<lparr>rg_start = 0x0A000002, rg_end = 0x0A000002, rg_edges_reserved = False\<rparr>)
      = Inr \<lparr>rg_start = 0x0A000002, rg_end = 0x0A000002, rg_edges_reserved = False\<rparr>"
    by (subst range_from_str_display) (simp_all add: range_wf_def)
  from range_comparisons_are_set_comparisons [OF sample_block this] show ?thesis
    by (simp add: range_covers_def)
qed

text \<open>C26: The allocation scan over configured ranges finds an allocatable address that is not taken, and
  answers none only when every allocatable address is taken; what it finds lies in the ranges.\<close>

theorem first_free_is_free:
  assumes "ranges_parse es = Inr rs"
  shows "case ranges_first_free rs taken of
           Some a \<Rightarrow> ranges_is_allocatable rs a \<and> ranges_contains rs a \<and> a \<notin> taken
         | None \<Rightarrow> (\<forall>a. ranges_is_allocatable rs a \<longrightarrow> a \<in> taken)"
  using ranges_first_free_cases [OF ranges_parse_wf [OF assms], of taken] ranges_is_allocatable_contains
  by (auto split: option.splits)

theorem first_free_is_free_witness:
  "ranges_first_free [\<lparr>rg_start = 0x0A000000, rg_end = 0x0A000003, rg_edges_reserved = True\<rparr>] {0x0A000001}
     = Some 0x0A000002
   \<and> ranges_contains [\<lparr>rg_start = 0x0A000000, rg_end = 0x0A000003, rg_edges_reserved = True\<rparr>] 0x0A000002"
proof -
  let ?r = "\<lparr>rg_start = 0x0A000000, rg_end = 0x0A000003, rg_edges_reserved = True\<rparr>"
  have f: "ranges_first_free [?r] {0x0A000001} = Some 0x0A000002"
    by (simp add: ranges_first_free_def range_allocatable_def addr_upto_def)
  have "ranges_parse [ipv4_display 0x0A000000 @ ''/'' @ dec 30] = Inr [?r]"
    using sample_block by simp
  from first_free_is_free [OF this, of "{0x0A000001}"] f show ?thesis by simp
qed

end
