(* ===== verification/Capability.thy ===== *)
theory Capability
  imports Rust_Str
begin

text \<open>
  \<open>shared/common/src/capability.rs\<close>: the capability strings agents advertise and placement
  compares. Claims are spelled in one place; the theorems show that what one side writes the
  other side reads back, and what a catalogue answers to a bare and to a profiled request.
\<close>

definition VOLUME :: string where "VOLUME = ''volume''"
definition SNAPSHOT :: string where "SNAPSHOT = ''snapshot''"
definition LVM_THIN :: string where "LVM_THIN = ''lvm-thin''"
definition HYPERVISOR :: string where "HYPERVISOR = ''hypervisor''"
definition NETWORK :: string where "NETWORK = ''network''"
definition VXLAN :: string where "VXLAN = ''vxlan''"
definition EVPN :: string where "EVPN = ''evpn''"
definition GATEWAY :: string where "GATEWAY = ''gateway''"
definition DEFAULT_VOLUME_DRIVER :: string where "DEFAULT_VOLUME_DRIVER = ''filesystem''"
definition CONSISTENCY_SEP :: char where "CONSISTENCY_SEP = CHR '':''"

lemmas capability_words = VOLUME_def SNAPSHOT_def LVM_THIN_def HYPERVISOR_def NETWORK_def VXLAN_def
  EVPN_def GATEWAY_def DEFAULT_VOLUME_DRIVER_def CONSISTENCY_SEP_def

section \<open>Snapshot consistency\<close>

datatype snapshot_consistency = Atomic | NeedsQuiesce

fun consistency_as_str :: "snapshot_consistency \<Rightarrow> string" where
  "consistency_as_str Atomic = ''atomic''"
| "consistency_as_str NeedsQuiesce = ''needs-quiesce''"

definition consistency_parse :: "string \<Rightarrow> snapshot_consistency option" where
  "consistency_parse = parse_in [Atomic, NeedsQuiesce] consistency_as_str"

definition snapshot_claim :: "string \<Rightarrow> snapshot_consistency \<Rightarrow> string" where
  "snapshot_claim backend c =
     backend @ ''/'' @ SNAPSHOT @ [CONSISTENCY_SEP] @ consistency_as_str c"

definition parse_snapshot_claim :: "string \<Rightarrow> (string \<times> snapshot_consistency) option" where
  "parse_snapshot_claim profile =
     (case split_once CONSISTENCY_SEP profile of None \<Rightarrow> None
      | Some (head, c) \<Rightarrow>
     (case Option.bind (strip_suf SNAPSHOT head) (strip_suf ''/'') of None \<Rightarrow> None
      | Some backend \<Rightarrow>
        if backend = [] then None
        else map_option (\<lambda>c. (backend, c)) (consistency_parse c)))"

section \<open>Gateway claims\<close>

definition gateway_claim :: "string \<Rightarrow> string" where
  "gateway_claim physnet = GATEWAY @ [CONSISTENCY_SEP] @ physnet"

definition parse_gateway_claim :: "string \<Rightarrow> string option" where
  "parse_gateway_claim profile =
     (case split_once CONSISTENCY_SEP profile of None \<Rightarrow> None
      | Some (head, physnet) \<Rightarrow> if head = GATEWAY \<and> physnet \<noteq> [] then Some physnet else None)"

definition gateway_physnets :: "string list \<Rightarrow> string list" where
  "gateway_physnets catalogue =
     List.map_filter parse_gateway_claim (List.map_filter (strip_pre (NETWORK @ ''/'')) catalogue)"

section \<open>Locality\<close>

datatype locality = NodeLocal | Shared | Networked

fun locality_as_str :: "locality \<Rightarrow> string" where
  "locality_as_str NodeLocal = ''node-local''"
| "locality_as_str Shared = ''shared''"
| "locality_as_str Networked = ''networked''"

definition locality_parse :: "string \<Rightarrow> locality option" where
  "locality_parse = parse_in [NodeLocal, Shared, Networked] locality_as_str"

section \<open>Catalogue entries\<close>

fun entry :: "string \<Rightarrow> string option \<Rightarrow> string" where
  "entry driver (Some p) = driver @ ''/'' @ p"
| "entry driver None = driver"

definition starts_with :: "string \<Rightarrow> string \<Rightarrow> bool" where
  "starts_with s p \<longleftrightarrow> strip_pre p s \<noteq> None"

fun offers :: "string list \<Rightarrow> string \<Rightarrow> string option \<Rightarrow> bool" where
  "offers catalogue driver (Some p) = (entry driver (Some p) \<in> set catalogue)"
| "offers catalogue driver None =
     list_ex (\<lambda>have. have = driver \<or> starts_with have (driver @ ''/'')) catalogue"

section \<open>What is written is read back\<close>

interpretation consistency_words: closed_words "[Atomic, NeedsQuiesce]" consistency_as_str
  by unfold_locales (use snapshot_consistency.exhaust in auto)

interpretation locality_words: closed_words "[NodeLocal, Shared, Networked]" locality_as_str
  by unfold_locales (use locality.exhaust in auto)

lemma snapshot_claim_roundtrip:
  assumes "backend \<noteq> []" and "CONSISTENCY_SEP \<notin> set backend"
  shows "parse_snapshot_claim (snapshot_claim backend c) = Some (backend, c)"
proof -
  have "CONSISTENCY_SEP \<notin> set (backend @ ''/'' @ SNAPSHOT)"
    using assms(2) by (simp add: capability_words)
  from split_once_append [OF this, of "consistency_as_str c"]
  have "split_once CONSISTENCY_SEP (snapshot_claim backend c)
      = Some (backend @ ''/'' @ SNAPSHOT, consistency_as_str c)"
    by (simp add: snapshot_claim_def)
  moreover have "strip_suf SNAPSHOT (backend @ ''/'' @ SNAPSHOT) = Some (backend @ ''/'')"
    by (simp add: strip_suf_Some)
  moreover have "strip_suf ''/'' (backend @ ''/'') = Some backend"
    by (simp add: strip_suf_Some)
  ultimately show ?thesis using assms(1)
    by (simp add: parse_snapshot_claim_def consistency_parse_def consistency_words.parse_as_str)
qed

lemma gateway_claim_roundtrip: "p \<noteq> [] \<Longrightarrow> parse_gateway_claim (gateway_claim p) = Some p"
proof -
  have "CONSISTENCY_SEP \<notin> set GATEWAY" by (simp add: capability_words)
  from split_once_append [OF this, of p] show "p \<noteq> [] \<Longrightarrow> ?thesis"
    by (simp add: parse_gateway_claim_def gateway_claim_def)
qed

lemma parse_gateway_claim_Some:
  "parse_gateway_claim s = Some p \<longleftrightarrow> s = gateway_claim p \<and> p \<noteq> []"
proof
  assume "parse_gateway_claim s = Some p"
  then show "s = gateway_claim p \<and> p \<noteq> []"
    by (auto simp: parse_gateway_claim_def gateway_claim_def
        dest: split_once_Some split: option.splits if_splits)
qed (simp add: gateway_claim_roundtrip)

lemma in_gateway_physnets:
  "p \<in> set (gateway_physnets catalogue)
     \<longleftrightarrow> p \<noteq> [] \<and> entry NETWORK (Some (gateway_claim p)) \<in> set catalogue"
proof -
  have "p \<in> set (gateway_physnets catalogue)
      \<longleftrightarrow> (\<exists>e \<in> set catalogue. \<exists>s. strip_pre (NETWORK @ ''/'') e = Some s \<and> parse_gateway_claim s = Some p)"
    by (force simp: gateway_physnets_def map_filter_def)
  then show ?thesis
    by (auto simp: strip_pre_Some parse_gateway_claim_Some)
qed

section \<open>Catalogue matching\<close>

lemma offers_entry: "offers [entry d p] d p" "offers [entry d p] d None"
  by (cases p; simp add: starts_with_def strip_pre_Some)+

lemma starts_with_append: "starts_with s p \<longleftrightarrow> (\<exists>t. s = p @ t)"
  using strip_pre_Some by (auto simp: starts_with_def)

lemma offers_bare: "offers catalogue d p \<Longrightarrow> offers catalogue d None"
  by (cases p) (auto simp: list_ex_iff starts_with_append)

lemma offers_mono: "set c \<subseteq> set c' \<Longrightarrow> offers c d p \<Longrightarrow> offers c' d p"
  by (cases p) (auto simp: list_ex_iff)

text \<open>A bare request is answered exactly by the driver alone or by one of its profiles.\<close>

lemma offers_bare_iff:
  "offers catalogue d None \<longleftrightarrow> (\<exists>p. entry d p \<in> set catalogue)"
proof
  assume "offers catalogue d None"
  then obtain h where h: "h \<in> set catalogue" "h = d \<or> (\<exists>t. h = (d @ ''/'') @ t)"
    by (auto simp: list_ex_iff starts_with_append)
  then show "\<exists>p. entry d p \<in> set catalogue"
  proof (elim disjE exE)
    assume "h = d"
    with h(1) have "entry d None \<in> set catalogue" by simp
    then show ?thesis ..
  next
    fix t
    assume "h = (d @ ''/'') @ t"
    with h(1) have "entry d (Some t) \<in> set catalogue" by simp
    then show ?thesis ..
  qed
next
  assume "\<exists>p. entry d p \<in> set catalogue"
  then obtain p where "entry d p \<in> set catalogue" ..
  then have "offers catalogue d p \<or> offers catalogue d None"
    by (cases p) (auto simp: list_ex_iff)
  then show "offers catalogue d None"
    using offers_bare by blast
qed

section \<open>What a catalogue means\<close>

text \<open>C40: Claims in a capability catalogue mean what was written: a snapshot claim reads back as its backend
  and its consistency, the provider networks of a catalogue are exactly those for which it holds a
  gateway claim, and a bare driver is offered exactly when some entry of that driver is listed.\<close>

theorem claims_mean_what_was_written:
  assumes "backend \<noteq> []" and "CONSISTENCY_SEP \<notin> set backend"
  shows "parse_snapshot_claim (snapshot_claim backend c) = Some (backend, c)
    \<and> (p \<in> set (gateway_physnets catalogue) \<longleftrightarrow> p \<noteq> [] \<and> offers catalogue NETWORK (Some (gateway_claim p)))
    \<and> (offers catalogue d None \<longleftrightarrow> (\<exists>q. entry d q \<in> set catalogue))"
  using snapshot_claim_roundtrip [OF assms] in_gateway_physnets [of p catalogue] offers_bare_iff [of catalogue d]
  by simp

theorem claims_mean_what_was_written_witness:
  "parse_snapshot_claim (snapshot_claim ''lvm-thin'' NeedsQuiesce) = Some (''lvm-thin'', NeedsQuiesce)"
  using claims_mean_what_was_written [of "''lvm-thin''" NeedsQuiesce] by (simp add: CONSISTENCY_SEP_def)

end
