(* ===== verification/Phase_Model.thy ===== *)
theory Phase_Model
  imports Rust_Str
begin

text \<open>
  \<open>shared/controller-api/src/resources/phase.rs\<close>. The macros \<open>phases!\<close>, \<open>reasons!\<close> and \<open>phased!\<close>
  generate the same types and functions for seven resources; here they are written once, over a
  vocabulary: the kinds of the phase, which of them carry a reason, and the reasons, with their
  spellings. The seven vocabularies are in the resources' own theories and interpret the locale
  \<open>phase_vocab\<close>. An instant is an integer, nanoseconds since the epoch.
\<close>

type_synonym instant = int

definition UNSTAMPED :: instant where "UNSTAMPED = 0"

text \<open>\<open>TimeDelta::num_seconds\<close>: whole seconds, truncated towards zero.\<close>

definition num_seconds :: "int \<Rightarrow> int" where
  "num_seconds d = (if 0 \<le> d then d div 10 ^ 9 else - ((- d) div 10 ^ 9))"

record ('k, 'r) vocab =
  vc_kinds :: "'k list"
  vc_kind_str :: "'k \<Rightarrow> string"
  vc_has_reason :: "'k \<Rightarrow> bool"
  vc_reasons :: "'r list"
  vc_reason_str :: "'r \<Rightarrow> string"
  vc_unrecorded :: 'r

section \<open>Phases\<close>

text \<open>A phase with its evidence. The variants that declare a reason carry one, the others do not;
  \<open>phase_ok\<close> says which.\<close>

record ('k, 'r) phase =
  ph_kind :: 'k
  ph_reason :: "'r option"
  ph_message :: string
  ph_since :: instant

definition phase_ok :: "('k, 'r) vocab \<Rightarrow> ('k, 'r) phase \<Rightarrow> bool" where
  "phase_ok V p \<longleftrightarrow> (ph_reason p \<noteq> None) = vc_has_reason V (ph_kind p)"

definition kind_parse :: "('k, 'r) vocab \<Rightarrow> string \<Rightarrow> 'k option" where
  "kind_parse V = parse_in (vc_kinds V) (vc_kind_str V)"

definition phase_new ::
  "('k, 'r) vocab \<Rightarrow> 'k \<Rightarrow> 'r \<Rightarrow> string option \<Rightarrow> instant \<Rightarrow> ('k, 'r) phase" where
  "phase_new V kind reason message since =
     \<lparr>ph_kind = kind,
      ph_reason = (if vc_has_reason V kind then Some reason else None),
      ph_message = unwrap_or [] message,
      ph_since = since\<rparr>"

definition phase_of :: "('k, 'r) vocab \<Rightarrow> 'k \<Rightarrow> instant \<Rightarrow> ('k, 'r) phase" where
  "phase_of V kind since = phase_new V kind (vc_unrecorded V) None since"

definition phase_said :: "('k, 'r) vocab \<Rightarrow> 'k \<Rightarrow> string option \<Rightarrow> instant \<Rightarrow> ('k, 'r) phase" where
  "phase_said V kind message since = phase_new V kind (vc_unrecorded V) message since"

definition phase_default :: "('k, 'r) vocab \<Rightarrow> ('k, 'r) phase" where
  "phase_default V = phase_of V (hd (vc_kinds V)) UNSTAMPED"

definition reason_word :: "('k, 'r) vocab \<Rightarrow> ('k, 'r) phase \<Rightarrow> string" where
  "reason_word V p =
     (case ph_reason p of
        Some reason \<Rightarrow> if reason \<noteq> vc_unrecorded V then vc_reason_str V reason else []
      | None \<Rightarrow> [])"

definition phase_message :: "('k, 'r) phase \<Rightarrow> string option" where
  "phase_message p = (if ph_message p \<noteq> [] then Some (ph_message p) else None)"

section \<open>Reasons\<close>

definition reason_parse :: "('k, 'r) vocab \<Rightarrow> string \<Rightarrow> 'r option" where
  "reason_parse V = parse_in (vc_reasons V) (vc_reason_str V)"

text \<open>\<open>read\<close>: an unknown word is not dropped, it goes to the front of the sentence.\<close>

definition reason_read ::
  "('k, 'r) vocab \<Rightarrow> string \<Rightarrow> string option \<Rightarrow> 'r \<times> string option" where
  "reason_read V word message =
     (if word = [] then (vc_unrecorded V, message)
      else case reason_parse V word of
        Some reason \<Rightarrow> (reason, message)
      | None \<Rightarrow> (vc_unrecorded V,
                 Some (case message of
                         Some said \<Rightarrow> if said \<noteq> [] then word @ '': '' @ said else word
                       | None \<Rightarrow> word)))"

section \<open>The flat wire form\<close>

record 'k phase_wire =
  pw_phase :: 'k
  pw_reason :: "string option"
  pw_message :: "string option"
  pw_since :: "instant option"

definition wire_of :: "('k, 'r) vocab \<Rightarrow> ('k, 'r) phase \<Rightarrow> 'k phase_wire" where
  "wire_of V p =
     \<lparr>pw_phase = ph_kind p,
      pw_reason = (if reason_word V p \<noteq> [] then Some (reason_word V p) else None),
      pw_message = phase_message p,
      pw_since = (if ph_since p \<noteq> UNSTAMPED then Some (ph_since p) else None)\<rparr>"

text \<open>Reading takes the current time, for a document without a \<open>since\<close>.\<close>

definition phase_of_wire ::
  "('k, 'r) vocab \<Rightarrow> instant \<Rightarrow> 'k phase_wire \<Rightarrow> ('k, 'r) phase" where
  "phase_of_wire V now w =
     (let (reason, message) = reason_read V (unwrap_or [] (pw_reason w)) (pw_message w)
      in phase_new V (pw_phase w) reason message (unwrap_or now (pw_since w)))"

section \<open>What a party said\<close>

record ('k, 'r) said =
  sa_phase :: 'k
  sa_reason :: 'r
  sa_message :: "string option"
  sa_at :: instant
  sa_node :: string

definition said_by ::
  "string \<Rightarrow> 'k \<Rightarrow> 'r \<Rightarrow> string option \<Rightarrow> instant \<Rightarrow> ('k, 'r) said" where
  "said_by node phase reason message at =
     \<lparr>sa_phase = phase, sa_reason = reason, sa_message = message, sa_at = at, sa_node = node\<rparr>"

definition said_here :: "'k \<Rightarrow> 'r \<Rightarrow> string option \<Rightarrow> instant \<Rightarrow> ('k, 'r) said" where
  "said_here phase reason message at =
     \<lparr>sa_phase = phase, sa_reason = reason, sa_message = message, sa_at = at, sa_node = []\<rparr>"

definition same_word :: "('k, 'r) said \<Rightarrow> ('k, 'r) said \<Rightarrow> bool" where
  "same_word a b \<longleftrightarrow> sa_phase a = sa_phase b \<and> sa_reason a = sa_reason b
     \<and> sa_message a = sa_message b \<and> sa_node a = sa_node b"

definition said_phase :: "('k, 'r) vocab \<Rightarrow> ('k, 'r) said \<Rightarrow> ('k, 'r) phase option" where
  "said_phase V s =
     (let resting = ph_reason (phase_new V (sa_phase s) (sa_reason s) None UNSTAMPED) = None in
      if \<not> resting \<or> sa_node s \<noteq> []
      then Some (phase_new V (sa_phase s) (sa_reason s) (sa_message s) UNSTAMPED)
      else None)"

section \<open>Stamping a status\<close>

definition stamp ::
  "('k, 'r) vocab \<Rightarrow> ('k, 'r) phase \<Rightarrow> ('k, 'r) phase \<Rightarrow> instant \<Rightarrow> ('k, 'r) phase" where
  "stamp V old phase now =
     (let since = (if ph_kind phase = ph_kind old \<and> ph_since old \<noteq> UNSTAMPED
                   then ph_since old else now)
      in phase_new V (ph_kind phase) (unwrap_or (vc_unrecorded V) (ph_reason phase))
           (phase_message phase) since)"

record standing =
  st_word :: string
  st_terminal :: bool
  st_reason :: string
  st_since :: instant

definition standing_of ::
  "('k, 'r) vocab \<Rightarrow> ('k \<Rightarrow> bool) \<Rightarrow> ('k, 'r) phase \<Rightarrow> standing" where
  "standing_of V is_terminal p =
     \<lparr>st_word = vc_kind_str V (ph_kind p), st_terminal = is_terminal (ph_kind p),
      st_reason = reason_word V p, st_since = ph_since p\<rparr>"

section \<open>Facts for every vocabulary\<close>

lemma phase_new_simps [simp]:
  "ph_kind (phase_new V k r m s) = k"
  "ph_reason (phase_new V k r m s) = (if vc_has_reason V k then Some r else None)"
  "ph_message (phase_new V k r m s) = unwrap_or [] m"
  "ph_since (phase_new V k r m s) = s"
  by (simp_all add: phase_new_def)

lemma phase_new_ok: "phase_ok V (phase_new V k r m s)"
  by (simp add: phase_ok_def)

lemma unwrap_phase_message [simp]: "unwrap_or [] (phase_message p) = ph_message p"
  by (simp add: phase_message_def)

lemma stamp_simps [simp]:
  "ph_kind (stamp V old p now) = ph_kind p"
  "ph_message (stamp V old p now) = ph_message p"
  by (simp_all add: stamp_def Let_def)

lemma stamp_reason: "phase_ok V p \<Longrightarrow> ph_reason (stamp V old p now) = ph_reason p"
  by (auto simp: stamp_def Let_def phase_ok_def)

lemma stamp_ok: "phase_ok V (stamp V old p now)"
  by (simp add: stamp_def phase_new_ok)

lemma stamp_since:
  "ph_since (stamp V old p now) =
     (if ph_kind p = ph_kind old \<and> ph_since old \<noteq> UNSTAMPED then ph_since old else now)"
  by (simp add: stamp_def Let_def)

text \<open>Deriving the same kind again moves nothing: a second pass over the same evidence leaves the
  phase as the first one wrote it.\<close>

lemma stamp_again:
  assumes "ph_kind q = ph_kind p" and "ph_reason q = ph_reason p" and "ph_message q = ph_message p"
    and "now \<noteq> UNSTAMPED"
  shows "stamp V (stamp V old p now) q later = stamp V old p now"
  using assms by (auto simp: stamp_def phase_message_def Let_def phase_new_def)

text \<open>A resting phase only comes from a party that named itself.\<close>

lemma said_phase_resting:
  "said_phase V s = Some p \<Longrightarrow> \<not> vc_has_reason V (ph_kind p) \<Longrightarrow> sa_node s \<noteq> []"
  by (auto simp: said_phase_def Let_def split: if_splits)

lemma said_phase_kind: "said_phase V s = Some p \<Longrightarrow> ph_kind p = sa_phase s \<and> phase_ok V p"
  by (auto simp: said_phase_def Let_def phase_new_ok split: if_splits)

lemma said_phase_None: "said_phase V s = None \<longleftrightarrow> \<not> vc_has_reason V (sa_phase s) \<and> sa_node s = []"
  by (auto simp: said_phase_def)

lemma same_word_phase: "same_word a b \<Longrightarrow> said_phase V a = said_phase V b"
  by (simp add: same_word_def said_phase_def)

locale phase_vocab =
  fixes V :: "('k, 'r) vocab"
  assumes kind_words: "closed_words (vc_kinds V) (vc_kind_str V)"
    and reason_words: "closed_words (vc_reasons V) (vc_reason_str V)"
    and reason_not_empty: "\<And>r. vc_reason_str V r \<noteq> []"
begin

lemma kind_roundtrip: "kind_parse V (vc_kind_str V k) = Some k"
  using closed_words.parse_as_str [OF kind_words] by (simp add: kind_parse_def)

lemma reason_roundtrip: "reason_parse V (vc_reason_str V r) = Some r"
  using closed_words.parse_as_str [OF reason_words] by (simp add: reason_parse_def)

lemma reason_read_word: "reason_read V (vc_reason_str V r) m = (r, m)"
  using reason_not_empty by (simp add: reason_read_def reason_roundtrip)

text \<open>What a tier writes it reads back: kind, reason and message always, the instant when it was
  stamped at all.\<close>

lemma wire_roundtrip:
  assumes "phase_ok V p"
  shows "phase_of_wire V now (wire_of V p) =
           p\<lparr>ph_since := if ph_since p = UNSTAMPED then now else ph_since p\<rparr>"
proof -
  have "reason_read V (unwrap_or [] (pw_reason (wire_of V p))) (phase_message p)
      = (unwrap_or (vc_unrecorded V) (ph_reason p), phase_message p)"
    by (cases "ph_reason p")
      (auto simp: wire_of_def reason_word_def reason_read_def reason_roundtrip reason_not_empty)
  moreover have "pw_message (wire_of V p) = phase_message p"
    "pw_phase (wire_of V p) = ph_kind p"
    "unwrap_or now (pw_since (wire_of V p)) = (if ph_since p = UNSTAMPED then now else ph_since p)"
    by (simp_all add: wire_of_def)
  ultimately show ?thesis
    using assms by (cases p) (auto simp: phase_of_wire_def phase_new_def phase_ok_def)
qed

end

text \<open>An unknown word never turns into a known reason, and it stays readable.\<close>

lemma reason_read_unknown:
  "reason_parse V w = None \<Longrightarrow> w \<noteq> [] \<Longrightarrow>
   \<exists>m'. reason_read V w m = (vc_unrecorded V, Some m') \<and> strip_pre w m' \<noteq> None"
  by (cases m) (auto simp: reason_read_def strip_pre_Some)

end
