(* ===== verification/Object_Model.thy ===== *)
theory Object_Model
  imports Phase_Model
begin

text \<open>
  \<open>shared/controller-api/src/object.rs\<close> and the object marks of \<open>resources/mod.rs\<close>: the envelope
  every stored resource wears. A fresh uid and the creation time come from the environment and
  are arguments of the constructors.
\<close>

type_synonym labels = "(string, string) bmap"

record metadata =
  md_name :: string
  md_uid :: string
  md_resource_version :: string
  md_generation :: u64
  md_labels :: labels
  md_annotations :: labels
  md_creation_timestamp :: "instant option"
  md_deletion_timestamp :: "instant option"
  md_finalizers :: "string list"

definition metadata_default :: metadata where
  "metadata_default =
     \<lparr>md_name = [], md_uid = [], md_resource_version = [], md_generation = 0, md_labels = [],
      md_annotations = [], md_creation_timestamp = None, md_deletion_timestamp = None,
      md_finalizers = []\<rparr>"

record ('s, 't) object =
  api_version :: string
  obj_kind :: string
  metadata :: metadata
  spec :: 's
  status :: 't

definition API_VERSION :: string where "API_VERSION = ''meister.io/v1''"

definition object_new ::
  "string \<Rightarrow> string \<Rightarrow> string \<Rightarrow> 's \<Rightarrow> 't \<Rightarrow> string \<Rightarrow> instant \<Rightarrow> ('s, 't) object" where
  "object_new version kind name spc st0 uid now =
     \<lparr>api_version = version, obj_kind = kind,
      metadata = metadata_default\<lparr>md_name := name, md_uid := uid,
                                  md_creation_timestamp := Some now\<rparr>,
      spec = spc, status = st0\<rparr>"

definition declare_object ::
  "string \<Rightarrow> string \<Rightarrow> 's \<Rightarrow> 't \<Rightarrow> string \<Rightarrow> instant \<Rightarrow> ('s, 't) object" where
  "declare_object kind name spc st0 uid now =
     object_new API_VERSION kind name spc st0 uid now"

definition is_deleting :: "('s, 't) object \<Rightarrow> bool" where
  "is_deleting o1 \<longleftrightarrow> md_deletion_timestamp (metadata o1) \<noteq> None"

section \<open>Annotations and marks\<close>

definition ANNOTATION_TRACEPARENT :: string where
  "ANNOTATION_TRACEPARENT = ''meister.io/traceparent''"

definition traceparent :: "metadata \<Rightarrow> string option" where
  "traceparent m = map_of (md_annotations m) ANNOTATION_TRACEPARENT"

definition set_traceparent :: "string \<Rightarrow> metadata \<Rightarrow> metadata" where
  "set_traceparent t m =
     m\<lparr>md_annotations := bm_insert ANNOTATION_TRACEPARENT t (md_annotations m)\<rparr>"

definition LABEL_MANAGED_BY :: string where "LABEL_MANAGED_BY = ''meister.io/managed-by''"
definition MANAGED_BY_CLOUD :: string where "MANAGED_BY_CLOUD = ''cloud''"
definition LABEL_CLOUD_UID :: string where "LABEL_CLOUD_UID = ''meister.io/cloud-uid''"

definition managed_by_cloud :: "metadata \<Rightarrow> bool" where
  "managed_by_cloud m \<longleftrightarrow> map_of (md_labels m) LABEL_MANAGED_BY = Some MANAGED_BY_CLOUD"

definition cloud_uid :: "metadata \<Rightarrow> string option" where
  "cloud_uid m = map_of (md_labels m) LABEL_CLOUD_UID"

definition mark_managed_by_cloud :: "string \<Rightarrow> metadata \<Rightarrow> metadata" where
  "mark_managed_by_cloud uid m =
     m\<lparr>md_labels := bm_insert LABEL_CLOUD_UID uid
                     (bm_insert LABEL_MANAGED_BY MANAGED_BY_CLOUD (md_labels m))\<rparr>"

definition same_tenancy :: "string \<Rightarrow> string option \<Rightarrow> bool" where
  "same_tenancy theirs mine =
     (case mine of
        Some t \<Rightarrow> if t \<noteq> [] then theirs = t else theirs = []
      | None \<Rightarrow> theirs = [])"

lemma set_traceparent_read: "traceparent (set_traceparent t m) = Some t"
  by (simp add: traceparent_def set_traceparent_def)

lemma mark_managed_by_cloud_read:
  "managed_by_cloud (mark_managed_by_cloud uid m)" "cloud_uid (mark_managed_by_cloud uid m) = Some uid"
  by (simp_all add: managed_by_cloud_def cloud_uid_def mark_managed_by_cloud_def
      LABEL_MANAGED_BY_def LABEL_CLOUD_UID_def)

text \<open>Tenancy is equality of names in which nobody and the empty name are the same; in particular it
  never joins two named tenants.\<close>

lemma same_tenancy_iff: "same_tenancy theirs mine \<longleftrightarrow> theirs = unwrap_or [] mine"
  by (cases mine) (auto simp: same_tenancy_def)

section \<open>Heartbeats\<close>

text \<open>\<open>shared/controller-api/src/heartbeat.rs\<close>.\<close>

definition HEARTBEAT_TIMEOUT_SECS :: nat where "HEARTBEAT_TIMEOUT_SECS = 30"

definition heartbeat_expired :: "instant option \<Rightarrow> instant \<Rightarrow> bool" where
  "heartbeat_expired heard now =
     (case heard of
        Some hb \<Rightarrow> num_seconds (now - hb) > int HEARTBEAT_TIMEOUT_SECS
      | None \<Rightarrow> True)"

text \<open>A peer is late exactly from the 31st full second on; a clock that went backwards expires
  nobody.\<close>

lemma heartbeat_expired_iff:
  "heartbeat_expired (Some hb) now \<longleftrightarrow> hb + 31 * 10 ^ 9 \<le> now"
  by (auto simp: heartbeat_expired_def num_seconds_def HEARTBEAT_TIMEOUT_SECS_def)

end
