(* ===== verification/Json_Api.thy ===== *)
theory Json_Api
  imports Rust_Str
begin

text \<open>
  The document part of a VM spec is a \<open>serde_json::Value\<close>, a type of a third-party crate. The
  sources only look fields up, read strings, numbers and arrays, and put fields into objects, so
  the development takes these operations as a parameter: a record of functions over an arbitrary
  type \<open>'j\<close> of documents. What the theorems need of the operations is the locale
  \<open>json_value\<close>, the documented behaviour of \<open>Value::get\<close>, \<open>Map::insert\<close>, \<open>Map::remove\<close> and the
  \<open>From\<close> conversions. The tree type at the end satisfies it and is what the witnesses compute
  with.
\<close>

record 'j json_ops =
  j_get :: "'j \<Rightarrow> string \<Rightarrow> 'j option"
  j_as_u64 :: "'j \<Rightarrow> u64 option"
  j_as_str :: "'j \<Rightarrow> string option"
  j_as_array :: "'j \<Rightarrow> 'j list option"
  j_is_null :: "'j \<Rightarrow> bool"
  j_is_object :: "'j \<Rightarrow> bool"
  j_insert :: "'j \<Rightarrow> string \<Rightarrow> 'j \<Rightarrow> 'j"
  j_remove :: "'j \<Rightarrow> string \<Rightarrow> 'j"
  j_of_array :: "'j list \<Rightarrow> 'j"
  j_of_u64 :: "u64 \<Rightarrow> 'j"
  j_of_str :: "string \<Rightarrow> 'j"

text \<open>\<open>v.get(field).and_then(|d| d.as_array()).map(Vec::as_slice).unwrap_or(&[])\<close>.\<close>

definition j_array_field :: "'j json_ops \<Rightarrow> 'j \<Rightarrow> string \<Rightarrow> 'j list" where
  "j_array_field J v field =
     (case Option.bind (j_get J v field) (j_as_array J) of None \<Rightarrow> [] | Some xs \<Rightarrow> xs)"

definition j_str_field :: "'j json_ops \<Rightarrow> 'j \<Rightarrow> string \<Rightarrow> string option" where
  "j_str_field J v field = Option.bind (j_get J v field) (j_as_str J)"

locale json_value =
  fixes J :: "'j json_ops"
  assumes get_object: "j_get J v k = Some x \<Longrightarrow> j_is_object J v"
    and insert_object: "j_is_object J v \<Longrightarrow> j_is_object J (j_insert J v k x)"
    and get_insert: "j_is_object J v \<Longrightarrow>
          j_get J (j_insert J v k x) k' = (if k' = k then Some x else j_get J v k')"
    and remove_object: "j_is_object J v \<Longrightarrow> j_is_object J (j_remove J v k)"
    and get_remove: "j_is_object J v \<Longrightarrow>
          j_get J (j_remove J v k) k' = (if k' = k then None else j_get J v k')"
    and as_array_of: "j_as_array J (j_of_array J xs) = Some xs"
    and as_u64_of: "j_as_u64 J (j_of_u64 J n) = Some n"
    and as_str_of: "j_as_str J (j_of_str J s) = Some s"
    and u64_not_null: "\<not> j_is_null J (j_of_u64 J n)"
    and array_not_null: "\<not> j_is_null J (j_of_array J xs)"
begin

lemma array_field_insert:
  "j_is_object J v \<Longrightarrow>
   j_array_field J (j_insert J v k (j_of_array J xs)) k' =
     (if k' = k then xs else j_array_field J v k')"
  by (simp add: j_array_field_def get_insert as_array_of)

lemma str_field_insert:
  "j_is_object J v \<Longrightarrow> k' \<noteq> k \<Longrightarrow> j_str_field J (j_insert J v k x) k' = j_str_field J v k'"
  by (simp add: j_str_field_def get_insert)

lemma str_field_remove:
  "j_is_object J v \<Longrightarrow> k' \<noteq> k \<Longrightarrow> j_str_field J (j_remove J v k) k' = j_str_field J v k'"
  by (simp add: j_str_field_def get_remove)

end

section \<open>Documents as trees\<close>

datatype json =
    JNull
  | JBool bool
  | JNum u64
  | JOtherNum string
  | JStr string
  | JArr "json list"
  | JObj "(string \<times> json) list"

definition tree_ops :: "json json_ops" where
  "tree_ops = \<lparr>
     j_get = (\<lambda>v k. case v of JObj m \<Rightarrow> map_of m k | _ \<Rightarrow> None),
     j_as_u64 = (\<lambda>v. case v of JNum n \<Rightarrow> Some n | _ \<Rightarrow> None),
     j_as_str = (\<lambda>v. case v of JStr s \<Rightarrow> Some s | _ \<Rightarrow> None),
     j_as_array = (\<lambda>v. case v of JArr xs \<Rightarrow> Some xs | _ \<Rightarrow> None),
     j_is_null = (\<lambda>v. v = JNull),
     j_is_object = (\<lambda>v. case v of JObj m \<Rightarrow> True | _ \<Rightarrow> False),
     j_insert = (\<lambda>v k x. case v of JObj m \<Rightarrow> JObj (bm_insert k x m) | _ \<Rightarrow> v),
     j_remove = (\<lambda>v k. case v of JObj m \<Rightarrow> JObj (filter (\<lambda>e. fst e \<noteq> k) m) | _ \<Rightarrow> v),
     j_of_array = JArr,
     j_of_u64 = JNum,
     j_of_str = JStr\<rparr>"

lemma map_of_filter_key:
  "map_of (filter (\<lambda>e. fst e \<noteq> k) m) k' = (if k' = k then None else map_of m k')"
  by (induction m) auto

interpretation tree: json_value tree_ops
  by unfold_locales (auto simp: tree_ops_def map_of_filter_key split: json.splits)

end
