(* ===== verification/Vm_Resource.thy ===== *)
theory Vm_Resource
  imports Object_Model Json_Api
begin

text \<open>
  \<open>shared/controller-api/src/resources/vm.rs\<close>: intent and observed state of a VM. The inner
  document \<open>spec.vm\<close> is a parameter type \<open>'j\<close> with the operations of \<open>json_ops\<close>; the rendering of
  an instant by the time library is the parameter \<open>to_rfc3339\<close> of \<open>settle_vm\<close>.
\<close>

section \<open>Closed sets\<close>

datatype run_strategy = RunRunning | RunStopped | RunPaused

definition run_strategy_all :: "run_strategy list" where
  "run_strategy_all = [RunRunning, RunStopped, RunPaused]"

fun run_strategy_str :: "run_strategy \<Rightarrow> string" where
  "run_strategy_str RunRunning = ''Running''"
| "run_strategy_str RunStopped = ''Stopped''"
| "run_strategy_str RunPaused = ''Paused''"

datatype evacuation = EvacNever | EvacRestart

definition evacuation_all :: "evacuation list" where
  "evacuation_all = [EvacNever, EvacRestart]"

fun evacuation_str :: "evacuation \<Rightarrow> string" where
  "evacuation_str EvacNever = ''never''"
| "evacuation_str EvacRestart = ''restart''"

definition evacuation_parse :: "string \<Rightarrow> evacuation option" where
  "evacuation_parse = parse_in evacuation_all evacuation_str"

datatype evacuation_step = StepStopping | StepMoving

definition evacuation_step_all :: "evacuation_step list" where
  "evacuation_step_all = [StepStopping, StepMoving]"

fun evacuation_step_str :: "evacuation_step \<Rightarrow> string" where
  "evacuation_step_str StepStopping = ''Stopping''"
| "evacuation_step_str StepMoving = ''Moving''"

definition evacuation_step_parse :: "string \<Rightarrow> evacuation_step option" where
  "evacuation_step_parse = parse_in evacuation_step_all evacuation_step_str"

datatype vm_reason =
    VR_Unrecorded | VR_AwaitingNode | VR_Unplaced | VR_NotReady | VR_VolumeHeld | VR_Unbound
  | VR_Dispatched | VR_Refused | VR_Silent | VR_Working | VR_Backoff | VR_AwaitingGuest
  | VR_GuestLeft | VR_ReceiveFailed | VR_VmmGone | VR_BackendGone | VR_ResumeIneffective
  | VR_Stopping

definition vm_reason_all :: "vm_reason list" where
  "vm_reason_all =
     [VR_Unrecorded, VR_AwaitingNode, VR_Unplaced, VR_NotReady, VR_VolumeHeld, VR_Unbound,
      VR_Dispatched, VR_Refused, VR_Silent, VR_Working, VR_Backoff, VR_AwaitingGuest,
      VR_GuestLeft, VR_ReceiveFailed, VR_VmmGone, VR_BackendGone, VR_ResumeIneffective,
      VR_Stopping]"

fun vm_reason_str :: "vm_reason \<Rightarrow> string" where
  "vm_reason_str VR_Unrecorded = ''Unrecorded''"
| "vm_reason_str VR_AwaitingNode = ''AwaitingNode''"
| "vm_reason_str VR_Unplaced = ''Unplaced''"
| "vm_reason_str VR_NotReady = ''NotReady''"
| "vm_reason_str VR_VolumeHeld = ''VolumeHeld''"
| "vm_reason_str VR_Unbound = ''Unbound''"
| "vm_reason_str VR_Dispatched = ''Dispatched''"
| "vm_reason_str VR_Refused = ''Refused''"
| "vm_reason_str VR_Silent = ''Silent''"
| "vm_reason_str VR_Working = ''Working''"
| "vm_reason_str VR_Backoff = ''Backoff''"
| "vm_reason_str VR_AwaitingGuest = ''AwaitingGuest''"
| "vm_reason_str VR_GuestLeft = ''GuestLeft''"
| "vm_reason_str VR_ReceiveFailed = ''ReceiveFailed''"
| "vm_reason_str VR_VmmGone = ''VmmGone''"
| "vm_reason_str VR_BackendGone = ''BackendGone''"
| "vm_reason_str VR_ResumeIneffective = ''ResumeIneffective''"
| "vm_reason_str VR_Stopping = ''Stopping''"

datatype vm_phase_kind =
    VP_Pending | VP_Provisioning | VP_Running | VP_Stopped | VP_Paused | VP_Failed
  | VP_Quarantined | VP_Unknown

definition vm_phase_kind_all :: "vm_phase_kind list" where
  "vm_phase_kind_all =
     [VP_Pending, VP_Provisioning, VP_Running, VP_Stopped, VP_Paused, VP_Failed, VP_Quarantined,
      VP_Unknown]"

fun vm_phase_kind_str :: "vm_phase_kind \<Rightarrow> string" where
  "vm_phase_kind_str VP_Pending = ''Pending''"
| "vm_phase_kind_str VP_Provisioning = ''Provisioning''"
| "vm_phase_kind_str VP_Running = ''Running''"
| "vm_phase_kind_str VP_Stopped = ''Stopped''"
| "vm_phase_kind_str VP_Paused = ''Paused''"
| "vm_phase_kind_str VP_Failed = ''Failed''"
| "vm_phase_kind_str VP_Quarantined = ''Quarantined''"
| "vm_phase_kind_str VP_Unknown = ''Unknown''"

definition vm_vocab :: "(vm_phase_kind, vm_reason) vocab" where
  "vm_vocab =
     \<lparr>vc_kinds = vm_phase_kind_all, vc_kind_str = vm_phase_kind_str,
      vc_has_reason = (\<lambda>k. k \<notin> {VP_Running, VP_Stopped, VP_Paused}),
      vc_reasons = vm_reason_all, vc_reason_str = vm_reason_str,
      vc_unrecorded = VR_Unrecorded\<rparr>"

definition vm_is_stable :: "vm_phase_kind \<Rightarrow> bool" where
  "vm_is_stable k \<longleftrightarrow> k \<in> {VP_Running, VP_Stopped, VP_Paused}"

definition vm_is_terminal :: "vm_phase_kind \<Rightarrow> bool" where
  "vm_is_terminal k \<longleftrightarrow> vm_is_stable k \<or> k = VP_Quarantined"

interpretation run_strategy_words: closed_words run_strategy_all run_strategy_str
  by unfold_locales (use run_strategy.exhaust in \<open>auto simp: run_strategy_all_def\<close>)

interpretation evacuation_words: closed_words evacuation_all evacuation_str
  by unfold_locales (use evacuation.exhaust in \<open>auto simp: evacuation_all_def\<close>)

interpretation evacuation_step_words: closed_words evacuation_step_all evacuation_step_str
  by unfold_locales (use evacuation_step.exhaust in \<open>auto simp: evacuation_step_all_def\<close>)

interpretation vm_reason_words: closed_words vm_reason_all vm_reason_str
proof
  show "x \<in> set vm_reason_all" for x
    by (cases x) (simp_all add: vm_reason_all_def)
  show "distinct (map vm_reason_str vm_reason_all)"
    by (simp add: vm_reason_all_def)
qed

interpretation vm_kind_words: closed_words vm_phase_kind_all vm_phase_kind_str
proof
  show "x \<in> set vm_phase_kind_all" for x
    by (cases x) (simp_all add: vm_phase_kind_all_def)
  show "distinct (map vm_phase_kind_str vm_phase_kind_all)"
    by (simp add: vm_phase_kind_all_def)
qed

interpretation vm_phases: phase_vocab vm_vocab
proof
  show "vc_reason_str vm_vocab r \<noteq> []" for r
    by (cases r) (simp_all add: vm_vocab_def)
qed (simp_all add: vm_vocab_def vm_kind_words.all_UNIV vm_kind_words.distinct_words
      vm_reason_words.all_UNIV vm_reason_words.distinct_words)

section \<open>The objects\<close>

record anti_affinity =
  aa_selector :: labels
  aa_required :: bool

record 'j vm_spec =
  vs_node_name :: "string option"
  vs_cluster_name :: "string option"
  vs_run_strategy :: run_strategy
  vs_evacuation :: evacuation
  vs_tenant :: "string option"
  vs_class_field :: string
  vs_cluster_selector :: labels
  vs_node_selector :: labels
  vs_anti_affinity :: "anti_affinity list"
  vs_vm :: 'j

datatype vm_address_kind = AddrMac | AddrFloatingIp

record vm_address =
  va_kind :: vm_address_kind
  va_nic :: string
  va_mac :: "string option"
  va_address :: "string option"

record vm_silence =
  vl_holder :: string
  vl_last_heard :: "instant option"
  vl_since :: instant

record vm_placement =
  vp_reason :: vm_reason
  vp_message :: string
  vp_at :: instant

record evacuating =
  ev_from :: string
  ev_step :: string
  ev_since :: instant

record refusal =
  rf_node :: string
  rf_message :: string
  rf_until :: instant

record volume_attachment_status =
  vat_name :: string
  vat_attached :: bool

record handed_down =
  hd_at :: instant
  hd_labels :: labels

record hand_down_refused =
  hr_at :: instant
  hr_generation :: u64
  hr_labels :: labels
  hr_message :: string
  hr_cluster :: string

record vm_status =
  vt_phase :: "(vm_phase_kind, vm_reason) phase"
  vt_reported :: "(vm_phase_kind, vm_reason) said option"
  vt_silence :: "vm_silence option"
  vt_placement :: "vm_placement option"
  vt_observed_generation :: u64
  vt_node_name :: "string option"
  vt_cluster_name :: "string option"
  vt_observed_at :: "instant option"
  vt_addresses :: "vm_address list"
  vt_volumes :: "volume_attachment_status list"
  vt_reschedules :: u32
  vt_refused_by :: "refusal list"
  vt_requeue_attempts :: u32
  vt_last_requeue :: "instant option"
  vt_evacuating :: "evacuating option"
  vt_handed_down :: "handed_down option"
  vt_hand_down_refused :: "hand_down_refused option"
  vt_bound_at :: "instant option"

definition vm_status_default :: vm_status where
  "vm_status_default =
     \<lparr>vt_phase = phase_default vm_vocab, vt_reported = None, vt_silence = None,
      vt_placement = None, vt_observed_generation = 0, vt_node_name = None,
      vt_cluster_name = None, vt_observed_at = None, vt_addresses = [], vt_volumes = [],
      vt_reschedules = 0, vt_refused_by = [], vt_requeue_attempts = 0, vt_last_requeue = None,
      vt_evacuating = None, vt_handed_down = None, vt_hand_down_refused = None,
      vt_bound_at = None\<rparr>"

type_synonym 'j vm = "('j vm_spec, vm_status) object"

definition new_vm :: "string \<Rightarrow> 'j vm_spec \<Rightarrow> string \<Rightarrow> instant \<Rightarrow> 'j vm" where
  "new_vm name spc uid now =
     (let v = declare_object ''Vm'' name spc vm_status_default uid now
      in v\<lparr>metadata := (metadata v)
             \<lparr>md_finalizers := md_finalizers (metadata v) @ [''meister.io/teardown'']\<rparr>\<rparr>)"

section \<open>Reading the spec\<close>

definition CLASS_VM :: string where "CLASS_VM = ''vm''"

definition vs_class :: "'j vm_spec \<Rightarrow> string" where
  "vs_class s = (if vs_class_field s = [] then CLASS_VM else vs_class_field s)"

definition refers_to_a_volume :: "'j json_ops \<Rightarrow> 'j \<Rightarrow> bool" where
  "refers_to_a_volume J e =
     (case j_str_field J e ''volume'' of Some name \<Rightarrow> name \<noteq> [] | None \<Rightarrow> False)"

definition describing_fields :: "string list" where
  "describing_fields =
     [''size_bytes'', ''base_image'', ''base_image_url'', ''base_image_sha256'', ''base_image_uid'',
      ''driver'']"

definition malformed_volume_reference :: "'j json_ops \<Rightarrow> 'j vm_spec \<Rightarrow> string option" where
  "malformed_volume_reference J s =
     (case Option.bind (j_get J (vs_vm s) ''volumes'') (j_as_array J) of
        None \<Rightarrow> None
      | Some entries \<Rightarrow>
          find_map (\<lambda>e. find (\<lambda>field. case j_get J e field of Some v \<Rightarrow> \<not> j_is_null J v | None \<Rightarrow> False)
                          describing_fields)
            (filter (refers_to_a_volume J) entries))"

definition user_data_from :: "'j json_ops \<Rightarrow> 'j vm_spec \<Rightarrow> (string \<times> string) option" where
  "user_data_from J s =
     (case Option.bind (j_get J (vs_vm s) ''cloud_init'') (\<lambda>c. j_get J c ''user_data_from'') of
        None \<Rightarrow> None
      | Some from \<Rightarrow>
     (case j_str_field J from ''secret'' of None \<Rightarrow> None | Some secret \<Rightarrow>
     (case j_str_field J from ''key'' of None \<Rightarrow> None | Some key \<Rightarrow>
        if secret \<noteq> [] \<and> key \<noteq> [] then Some (secret, key) else None)))"

definition user_data_said_twice :: "'j json_ops \<Rightarrow> 'j vm_spec \<Rightarrow> bool" where
  "user_data_said_twice J s =
     (case j_get J (vs_vm s) ''cloud_init'' of
        None \<Rightarrow> False
      | Some config \<Rightarrow>
          (case j_str_field J config ''user_data'' of Some u \<Rightarrow> u \<noteq> [] | None \<Rightarrow> False)
          \<and> user_data_from J s \<noteq> None)"

definition referenced_volumes :: "'j json_ops \<Rightarrow> 'j vm_spec \<Rightarrow> string list" where
  "referenced_volumes J s =
     filter (\<lambda>name. name \<noteq> [])
       (List.map_filter (\<lambda>e. j_str_field J e ''volume'') (j_array_field J (vs_vm s) ''volumes''))"

definition frozen_volumes :: "'j json_ops \<Rightarrow> 'j list \<Rightarrow> 'j list" where
  "frozen_volumes J entries =
     map snd (filter (\<lambda>(i, e). i = 0 \<or> \<not> refers_to_a_volume J e) (enumerate 0 entries))"

definition frozen_vm_shape :: "'j json_ops \<Rightarrow> 'j \<Rightarrow> 'j" where
  "frozen_vm_shape J doc =
     (case Option.bind (j_get J doc ''volumes'') (j_as_array J) of
        None \<Rightarrow> doc
      | Some entries \<Rightarrow> j_insert J doc ''volumes'' (j_of_array J (frozen_volumes J entries)))"

definition vm_shape_unchanged :: "'j json_ops \<Rightarrow> 'j \<Rightarrow> 'j \<Rightarrow> bool" where
  "vm_shape_unchanged J current upd \<longleftrightarrow> frozen_vm_shape J current = frozen_vm_shape J upd"

definition unbind_only :: "'j json_ops \<Rightarrow> 'j \<Rightarrow> 'j \<Rightarrow> bool" where
  "unbind_only J current upd \<longleftrightarrow> current = upd \<or> j_is_null J upd"

definition grows_only :: "'j json_ops \<Rightarrow> 'j \<Rightarrow> 'j \<Rightarrow> bool" where
  "grows_only J current upd =
     (case (j_as_u64 J current, j_as_u64 J upd) of
        (Some was, Some now) \<Rightarrow> was \<le> now
      | _ \<Rightarrow> current = upd)"

section \<open>Deriving the phase\<close>

definition silence_sentence :: "(instant \<Rightarrow> string) \<Rightarrow> vm_silence \<Rightarrow> string" where
  "silence_sentence to_rfc3339 s =
     (case vl_last_heard s of
        Some heard \<Rightarrow> vl_holder s @ '' last reported '' @ to_rfc3339 heard @ '', more than ''
          @ dec HEARTBEAT_TIMEOUT_SECS @ ''s ago; what the guest is doing is not known here''
      | None \<Rightarrow> vl_holder s @ '' has never reported, more than ''
          @ dec HEARTBEAT_TIMEOUT_SECS @ ''s ago; what the guest is doing is not known here'')"

definition vm_claimed :: "'j vm_spec \<Rightarrow> vm_status \<Rightarrow> bool" where
  "vm_claimed s t \<longleftrightarrow> vs_node_name s \<noteq> None \<or> vs_cluster_name s \<noteq> None
     \<or> vt_node_name t \<noteq> None \<or> vt_cluster_name t \<noteq> None"

definition stale_holder :: "'j vm_spec \<Rightarrow> vm_status \<Rightarrow> bool" where
  "stale_holder s t =
     (case vt_reported t of None \<Rightarrow> False | Some r \<Rightarrow>
        sa_node r \<noteq> []
        \<and> ((case vs_node_name s of Some bound \<Rightarrow> bound \<noteq> sa_node r | None \<Rightarrow> False)
            \<or> (case vs_cluster_name s of Some bound \<Rightarrow> bound \<noteq> sa_node r | None \<Rightarrow> False)))"

definition settle_vm ::
  "(instant \<Rightarrow> string) \<Rightarrow> 'j vm_spec \<Rightarrow> vm_status \<Rightarrow> (vm_phase_kind, vm_reason) phase" where
  "settle_vm to_rfc3339 s t =
     (case vt_silence t of
        Some silence \<Rightarrow>
          phase_new vm_vocab VP_Unknown VR_Silent (Some (silence_sentence to_rfc3339 silence)) UNSTAMPED
      | None \<Rightarrow>
        (let said = vt_reported t;
             waiting = (\<lambda>(reason, message). phase_new vm_vocab VP_Pending reason message UNSTAMPED);
             scheduler = map_option (\<lambda>p. (vp_reason p, Some (vp_message p))) (vt_placement t)
         in
         if \<not> vm_claimed s t then
           waiting (unwrap_or (VR_AwaitingNode, Some ''not placed yet'')
                      (or_else scheduler (map_option (\<lambda>r. (sa_reason r, sa_message r)) said)))
         else case (if stale_holder s t then None else Option.bind said (said_phase vm_vocab)) of
           Some phase \<Rightarrow> phase
         | None \<Rightarrow>
             waiting (unwrap_or
               (let holder = unwrap_or ''nobody''
                      (or_else (or_else (or_else (vt_node_name t) (vt_cluster_name t))
                                        (vs_node_name s)) (vs_cluster_name s))
                in (VR_AwaitingNode, Some (holder @ '' has not reported yet'')))
               scheduler)))"

definition vm_settle :: "(instant \<Rightarrow> string) \<Rightarrow> instant \<Rightarrow> 'j vm \<Rightarrow> 'j vm" where
  "vm_settle to_rfc3339 now v =
     v\<lparr>status := (status v)
        \<lparr>vt_phase := stamp vm_vocab (vt_phase (status v)) (settle_vm to_rfc3339 (spec v) (status v)) now\<rparr>\<rparr>"

section \<open>What the derivation guarantees\<close>

lemma vm_vocab_simps [simp]:
  "vc_has_reason vm_vocab k \<longleftrightarrow> \<not> vm_is_stable k"
  "vc_unrecorded vm_vocab = VR_Unrecorded"
  "vc_kind_str vm_vocab = vm_phase_kind_str"
  "vc_reason_str vm_vocab = vm_reason_str"
  by (simp_all add: vm_vocab_def vm_is_stable_def)

lemma settle_vm_silent:
  "vt_silence t = Some l \<Longrightarrow> ph_kind (settle_vm f s t) = VP_Unknown \<and> ph_reason (settle_vm f s t) = Some VR_Silent"
  by (simp add: settle_vm_def vm_is_stable_def)

lemma settle_vm_ok: "phase_ok vm_vocab (settle_vm f s t)"
  by (auto simp: settle_vm_def Let_def phase_new_ok bind_eq_Some_conv dest: said_phase_kind
      split: option.splits prod.splits if_splits)

lemma settle_vm_stable:
  assumes "vm_is_stable (ph_kind (settle_vm f s t))"
  shows "vt_silence t = None" and "vm_claimed s t" and "\<not> stale_holder s t"
    and "\<exists>r. vt_reported t = Some r \<and> sa_node r \<noteq> [] \<and> sa_phase r = ph_kind (settle_vm f s t)"
proof -
  have "vt_silence t = None \<and> vm_claimed s t \<and> \<not> stale_holder s t
      \<and> Option.bind (vt_reported t) (said_phase vm_vocab) = Some (settle_vm f s t)"
    using assms
    by (auto simp: settle_vm_def Let_def vm_is_stable_def split: option.splits prod.splits if_splits)
  moreover from this obtain r where "vt_reported t = Some r" "said_phase vm_vocab r = Some (settle_vm f s t)"
    by (auto simp: bind_eq_Some_conv)
  ultimately show "vt_silence t = None" and "vm_claimed s t" and "\<not> stale_holder s t"
    and "\<exists>r. vt_reported t = Some r \<and> sa_node r \<noteq> [] \<and> sa_phase r = ph_kind (settle_vm f s t)"
    using assms said_phase_resting [of vm_vocab r] said_phase_kind [of vm_vocab r] by auto
qed

lemma not_stale_holder:
  "\<not> stale_holder s t \<Longrightarrow> vt_reported t = Some r \<Longrightarrow> sa_node r \<noteq> [] \<Longrightarrow>
   vs_node_name s \<in> {None, Some (sa_node r)} \<and> vs_cluster_name s \<in> {None, Some (sa_node r)}"
  by (auto simp: stale_holder_def split: option.splits)

lemma settle_vm_phase_irrelevant [simp]: "settle_vm f s (t\<lparr>vt_phase := p\<rparr>) = settle_vm f s t"
  by (simp add: settle_vm_def vm_claimed_def stale_holder_def Let_def cong: option.case_cong)

lemma vm_settle_twice:
  assumes "now \<noteq> UNSTAMPED"
  shows "vm_settle f later (vm_settle f now v) = vm_settle f now v"
  using assms by (simp add: vm_settle_def stamp_again)

section \<open>What hot-plug leaves alone\<close>

lemma frozen_volumes_Cons:
  "frozen_volumes J (e # es) = e # filter (\<lambda>e. \<not> refers_to_a_volume J e) es"
proof -
  have "map snd (filter (\<lambda>(i, e). i = 0 \<or> \<not> refers_to_a_volume J e) (enumerate (Suc n) es))
      = filter (\<lambda>e. \<not> refers_to_a_volume J e) es" for n
    by (induction es arbitrary: n) auto
  then show ?thesis by (simp add: frozen_volumes_def)
qed

lemma frozen_volumes_idem: "frozen_volumes J (frozen_volumes J es) = frozen_volumes J es"
  by (cases es) (simp_all add: frozen_volumes_Cons, simp add: frozen_volumes_def)

context json_value
begin

lemma frozen_shape_get:
  "k \<noteq> ''volumes'' \<Longrightarrow> j_get J (frozen_vm_shape J doc) k = j_get J doc k"
  using get_object by (auto simp: frozen_vm_shape_def get_insert bind_eq_Some_conv split: option.splits)

lemma frozen_shape_twice: "j_get J (frozen_vm_shape J (frozen_vm_shape J doc)) k = j_get J (frozen_vm_shape J doc) k"
proof (cases "Option.bind (j_get J doc ''volumes'') (j_as_array J)")
  case None
  then show ?thesis by (simp add: frozen_vm_shape_def)
next
  case (Some es)
  then have "j_is_object J doc" using get_object by (auto simp: bind_eq_Some_conv)
  with Some show ?thesis
    by (simp add: frozen_vm_shape_def get_insert insert_object as_array_of frozen_volumes_idem)
qed

lemma shape_unchanged_fields:
  "vm_shape_unchanged J doc doc' \<Longrightarrow> k \<noteq> ''volumes'' \<Longrightarrow> j_get J doc' k = j_get J doc k"
  unfolding vm_shape_unchanged_def using frozen_shape_get by metis

lemma frozen_shape_array:
  "Option.bind (j_get J (frozen_vm_shape J doc) ''volumes'') (j_as_array J)
     = map_option (frozen_volumes J) (Option.bind (j_get J doc ''volumes'') (j_as_array J))"
  using get_object [of doc "''volumes''"]
  by (cases "j_get J doc ''volumes''") (auto simp: frozen_vm_shape_def get_insert as_array_of split: option.splits)

lemma shape_unchanged_volumes:
  "vm_shape_unchanged J doc doc' \<Longrightarrow>
   map_option (frozen_volumes J) (Option.bind (j_get J doc ''volumes'') (j_as_array J))
     = map_option (frozen_volumes J) (Option.bind (j_get J doc' ''volumes'') (j_as_array J))"
  unfolding vm_shape_unchanged_def using frozen_shape_array by metis

end

section \<open>What the derivation promises\<close>

text \<open>C15: A guest is shown as resting, running or stopped or paused, only on the word of a machine: nobody
  has declared its holder silent, a report that names its reporter says exactly that, and the
  reporter is the node or cluster the guest is bound to, if it is bound. A silent holder always
  means that the state is unknown.\<close>

theorem resting_needs_a_reporter:
  assumes "vm_is_stable (ph_kind (settle_vm f s t))"
  shows "vt_silence t = None
    \<and> (\<exists>r. vt_reported t = Some r \<and> sa_node r \<noteq> [] \<and> sa_phase r = ph_kind (settle_vm f s t)
         \<and> vs_node_name s \<in> {None, Some (sa_node r)} \<and> vs_cluster_name s \<in> {None, Some (sa_node r)})"
  using settle_vm_stable [OF assms] not_stale_holder [of s t] by blast

definition running_status :: vm_status where
  "running_status = vm_status_default
     \<lparr>vt_reported := Some \<lparr>sa_phase = VP_Running, sa_reason = VR_Unrecorded, sa_message = None, sa_at = 7, sa_node = ''n1''\<rparr>\<rparr>"

definition bound_spec :: "json vm_spec" where
  "bound_spec =
     \<lparr>vs_node_name = Some ''n1'', vs_cluster_name = None, vs_run_strategy = RunRunning,
      vs_evacuation = EvacNever, vs_tenant = None, vs_class_field = [], vs_cluster_selector = [],
      vs_node_selector = [], vs_anti_affinity = [], vs_vm = JNull\<rparr>"

theorem resting_needs_a_reporter_witness:
  "\<exists>r. vt_reported running_status = Some r \<and> sa_node r \<noteq> [] \<and> vs_node_name bound_spec = Some (sa_node r)"
proof -
  have "vm_is_stable (ph_kind (settle_vm (\<lambda>_. []) bound_spec running_status))"
    by (simp add: settle_vm_def running_status_def vm_status_default_def bound_spec_def vm_claimed_def
        stale_holder_def said_phase_def vm_is_stable_def phase_said_def)
  from resting_needs_a_reporter [OF this] show ?thesis by (auto simp: bound_spec_def)
qed

text \<open>C31: An update that the hot-plug check admits changes nothing of the guest but which volumes it refers
  to. Every other field of the document reads the same. The list of volumes neither appears nor
  disappears nor is emptied: without a list the document is the same, an empty list stays empty, and
  of a list that is not empty the first entry, the boot volume, is kept as it is, and of the others
  all that are described in place, in their order; only entries that refer to a volume by name may
  come and go behind the first.\<close>

theorem hot_plug_changes_references_only:
  assumes "json_value J" and "vm_shape_unchanged J doc doc'"
  shows "(\<forall>k. k \<noteq> ''volumes'' \<longrightarrow> j_get J doc' k = j_get J doc k)
    \<and> (case (Option.bind (j_get J doc ''volumes'') (j_as_array J), Option.bind (j_get J doc' ''volumes'') (j_as_array J)) of
         (None, None) \<Rightarrow> doc' = doc
       | (Some [], Some []) \<Rightarrow> True
       | (Some (e # es), Some (e' # es')) \<Rightarrow>
           e' = e \<and> filter (\<lambda>x. \<not> refers_to_a_volume J x) es' = filter (\<lambda>x. \<not> refers_to_a_volume J x) es
       | _ \<Rightarrow> False)"
proof -
  have nil: "frozen_volumes J [] = []" by (simp add: frozen_volumes_def)
  have "doc' = doc" if "Option.bind (j_get J doc ''volumes'') (j_as_array J) = None"
    "Option.bind (j_get J doc' ''volumes'') (j_as_array J) = None"
    using assms(2) that by (simp add: vm_shape_unchanged_def frozen_vm_shape_def)
  then show ?thesis
    using json_value.shape_unchanged_fields [OF assms] json_value.shape_unchanged_volumes [OF assms]
    by (auto simp: frozen_volumes_Cons nil split: option.splits list.splits)
qed

theorem hot_plug_changes_references_only_witness:
  "let doc = JObj [(''vcpus'', JNum 2), (''volumes'', JArr [JObj [(''size_bytes'', JNum 1)]])];
       doc' = JObj [(''vcpus'', JNum 2), (''volumes'', JArr [JObj [(''size_bytes'', JNum 1)], JObj [(''volume'', JStr ''data'')]])]
   in vm_shape_unchanged tree_ops doc doc' \<and> j_get tree_ops doc' ''vcpus'' = j_get tree_ops doc ''vcpus''"
proof -
  let ?doc = "JObj [(''vcpus'', JNum 2), (''volumes'', JArr [JObj [(''size_bytes'', JNum 1)]])]"
  let ?doc' = "JObj [(''vcpus'', JNum 2), (''volumes'', JArr [JObj [(''size_bytes'', JNum 1)], JObj [(''volume'', JStr ''data'')]])]"
  have u: "vm_shape_unchanged tree_ops ?doc ?doc'"
    by (simp add: vm_shape_unchanged_def frozen_vm_shape_def frozen_volumes_def refers_to_a_volume_def
        j_str_field_def tree_ops_def)
  from hot_plug_changes_references_only [OF tree.json_value_axioms this] u show ?thesis by simp
qed

end
