(* ===== verification/Rust_Float.thy ===== *)
theory Rust_Float
  imports Meister_Prelude
begin

text \<open>
  The part of Rust's \<open>f64\<close> the sources use: casts from unsigned integers, multiplication,
  comparison with small constants, and the saturating cast back. IEEE 754 binary64 with rounding
  to nearest, ties to even, subnormals and overflow to infinity included. A finite number is a
  sign, a mantissa and an exponent, its value is \<open>m * 2 ^ e\<close>; representations are not
  normalised, so equal values may be written in more than one way.
\<close>

datatype f64 = F_NaN | F_Inf bool | F_Fin bool nat int

fun bit_len :: "nat \<Rightarrow> nat" where
  "bit_len n = (if n = 0 then 0 else Suc (bit_len (n div 2)))"

declare bit_len.simps [simp del]

text \<open>Division by \<open>2 ^ k\<close>, rounded to the nearest integer and to the even one of two equally near.\<close>

definition rne_shift :: "nat \<Rightarrow> nat \<Rightarrow> nat" where
  "rne_shift m k =
     (let q = m div 2 ^ k; r = m mod 2 ^ k in
      if 2 ^ k < 2 * r \<or> (2 * r = 2 ^ k \<and> odd q) then q + 1 else q)"

text \<open>How many bits of \<open>m * 2 ^ e\<close> do not fit: the mantissa has 53 and the last place is never below
  \<open>2 ^ -1074\<close>.\<close>

definition excess_bits :: "nat \<Rightarrow> int \<Rightarrow> nat" where
  "excess_bits m e = nat (max (int (bit_len m) - 53) (- 1074 - e))"

definition f64_round :: "bool \<Rightarrow> nat \<Rightarrow> int \<Rightarrow> f64" where
  "f64_round neg m e =
     (let k = excess_bits m e; m' = rne_shift m k; e' = e + int k in
      if m' \<noteq> 0 \<and> int (bit_len m') + e' > 1024 then F_Inf neg else F_Fin neg m' e')"

definition f64_of_nat :: "nat \<Rightarrow> f64" where
  "f64_of_nat n = f64_round False n 0"

fun f64_mul :: "f64 \<Rightarrow> f64 \<Rightarrow> f64" where
  "f64_mul F_NaN y = F_NaN"
| "f64_mul (F_Inf s) F_NaN = F_NaN"
| "f64_mul (F_Inf s) (F_Inf t) = F_Inf (s \<noteq> t)"
| "f64_mul (F_Inf s) (F_Fin t m e) = (if m = 0 then F_NaN else F_Inf (s \<noteq> t))"
| "f64_mul (F_Fin s m e) F_NaN = F_NaN"
| "f64_mul (F_Fin s m e) (F_Inf t) = (if m = 0 then F_NaN else F_Inf (s \<noteq> t))"
| "f64_mul (F_Fin s m e) (F_Fin t m' e') = f64_round (s \<noteq> t) (m * m') (e + e')"

fun f64_is_finite :: "f64 \<Rightarrow> bool" where
  "f64_is_finite (F_Fin s m e) = True"
| "f64_is_finite x = False"

text \<open>\<open>x > n\<close> for a natural number \<open>n\<close> that is exact in \<open>f64\<close> (the sources compare with 0.0 and 1.0).\<close>

fun f64_gt_nat :: "f64 \<Rightarrow> nat \<Rightarrow> bool" where
  "f64_gt_nat F_NaN n = False"
| "f64_gt_nat (F_Inf s) n = (\<not> s)"
| "f64_gt_nat (F_Fin s m e) n =
     (\<not> s \<and> (if 0 \<le> e then n < m * 2 ^ nat e else n * 2 ^ nat (- e) < m))"

text \<open>\<open>x as u32\<close> and \<open>x as u64\<close>: truncation towards zero, saturating at both ends, NaN to zero.\<close>

definition f64_trunc :: "nat \<Rightarrow> int \<Rightarrow> nat" where
  "f64_trunc m e = (if 0 \<le> e then m * 2 ^ nat e else m div 2 ^ nat (- e))"

fun f64_as_word :: "f64 \<Rightarrow> 'a::len word" where
  "f64_as_word F_NaN = 0"
| "f64_as_word (F_Inf s) = (if s then 0 else - 1)"
| "f64_as_word (F_Fin s m e) =
     (if s then 0 else of_nat (min (2 ^ LENGTH('a) - 1) (f64_trunc m e)))"

section \<open>Facts about rounding\<close>

lemma bit_len_0 [simp]: "bit_len 0 = 0"
  by (simp add: bit_len.simps)

lemma bit_len_pos: "n \<noteq> 0 \<Longrightarrow> bit_len n = Suc (bit_len (n div 2))"
  by (subst bit_len.simps) simp

lemma bit_len_bounds: "n < 2 ^ bit_len n \<and> (n \<noteq> 0 \<longrightarrow> 2 ^ (bit_len n - 1) \<le> n)"
proof (induction n rule: less_induct)
  case (less n)
  show ?case
  proof (cases "n = 0")
    case False
    then have "n div 2 < n" by simp
    note IH = less [OF this]
    have len: "bit_len n = Suc (bit_len (n div 2))"
      using False by (rule bit_len_pos)
    have "n div 2 < 2 ^ bit_len (n div 2)" using IH by blast
    then have "n < 2 * 2 ^ bit_len (n div 2)" by linarith
    then have "n < 2 ^ bit_len n" using len by simp
    moreover have "2 ^ (bit_len n - 1) \<le> n"
    proof (cases "n div 2 = 0")
      case True
      then show ?thesis using False len by simp
    next
      case half: False
      have half_len: "bit_len (n div 2) = Suc (bit_len (n div 2 div 2))"
        using half by (rule bit_len_pos)
      have "2 ^ bit_len (n div 2 div 2) \<le> n div 2"
        using IH half half_len by simp
      then have "2 * 2 ^ bit_len (n div 2 div 2) \<le> n"
        by linarith
      then show ?thesis
        using len half_len by simp
    qed
    ultimately show ?thesis by blast
  qed simp
qed

lemma bit_len_le: "n < 2 ^ k \<Longrightarrow> bit_len n \<le> k"
proof (cases "n = 0")
  case False
  assume "n < 2 ^ k"
  moreover have "2 ^ (bit_len n - 1) \<le> n"
    using bit_len_bounds False by blast
  ultimately have "(2::nat) ^ (bit_len n - 1) < 2 ^ k" by linarith
  then have "bit_len n - 1 < k" by simp
  then show ?thesis by simp
qed simp

lemma rne_shift_0 [simp]: "rne_shift m 0 = m"
  by (simp add: rne_shift_def)

lemma rne_shift_zero [simp]: "rne_shift 0 k = 0"
  by (simp add: rne_shift_def)

lemma rne_shift_exact: "2 ^ k dvd m \<Longrightarrow> rne_shift m k = m div 2 ^ k"
  by (simp add: rne_shift_def)

text \<open>Rounding never crosses an integer: what is at most \<open>n\<close> rounds to at most \<open>n\<close>.\<close>

lemma rne_shift_le:
  assumes "m \<le> n * 2 ^ k"
  shows "rne_shift m k \<le> n"
proof (cases "m div 2 ^ k = n")
  case True
  then have "m = n * 2 ^ k"
    using assms by (metis div_times_less_eq_dividend le_antisym)
  then show ?thesis by (simp add: rne_shift_def)
next
  case False
  have "m div 2 ^ k \<le> n"
    using div_le_mono [OF assms, of "2 ^ k"] by simp
  with False have "m div 2 ^ k + 1 \<le> n" by simp
  then show ?thesis
    by (simp add: rne_shift_def Let_def)
qed

lemma excess_bits_0: "m < 2 ^ 53 \<Longrightarrow> - 1074 \<le> e \<Longrightarrow> excess_bits m e = 0"
  using bit_len_le [of m 53] by (simp add: excess_bits_def)

lemma f64_round_exact:
  assumes "m < 2 ^ 53" and "- 1074 \<le> e" and "e \<le> 971"
  shows "f64_round neg m e = F_Fin neg m e"
proof -
  have "bit_len m \<le> 53" using bit_len_le assms(1) .
  then show ?thesis
    using assms excess_bits_0 [OF assms(1,2)] by (simp add: f64_round_def)
qed

end
