(* ===== verification/Capacity_Model.thy ===== *)
theory Capacity_Model
  imports Vm_Resource Rust_Float
begin

text \<open>
  Supply and demand of \<open>shared/controller-api/src/scheduler.rs\<close>: \<open>Capacity\<close> with its saturating
  arithmetic, and the multipliers \<open>Overcommit\<close> turns a machine's capacity into what it may be
  asked to carry with.
\<close>

record capacity =
  vcpus :: u32
  mem_mib :: u64

definition capacity_default :: capacity where
  "capacity_default = \<lparr>vcpus = 0, mem_mib = 0\<rparr>"

definition json_number :: "'j json_ops \<Rightarrow> 'j \<Rightarrow> string \<Rightarrow> u64 option" where
  "json_number J doc field = Option.bind (j_get J doc field) (j_as_u64 J)"

definition wanted_by_spec :: "'j json_ops \<Rightarrow> 'j \<Rightarrow> capacity" where
  "wanted_by_spec J doc =
     \<lparr>vcpus = ucast (min (unwrap_or 0 (json_number J doc ''vcpus'')) (ucast (- 1 :: u32))),
      mem_mib = unwrap_or 0 (json_number J doc ''memory_mib'')\<rparr>"

definition wanted_by :: "'j json_ops \<Rightarrow> 'j vm \<Rightarrow> capacity" where
  "wanted_by J v = wanted_by_spec J (vs_vm (spec v))"

definition minus_cap :: "capacity \<Rightarrow> capacity \<Rightarrow> capacity" where
  "minus_cap a b =
     \<lparr>vcpus = sat_sub (vcpus a) (vcpus b), mem_mib = sat_sub (mem_mib a) (mem_mib b)\<rparr>"

definition plus_cap :: "capacity \<Rightarrow> capacity \<Rightarrow> capacity" where
  "plus_cap a b =
     \<lparr>vcpus = sat_add (vcpus a) (vcpus b), mem_mib = sat_add (mem_mib a) (mem_mib b)\<rparr>"

definition fits_in :: "capacity \<Rightarrow> capacity \<Rightarrow> bool" where
  "fits_in a room \<longleftrightarrow> vcpus a \<le> vcpus room \<and> mem_mib a \<le> mem_mib room"

definition sum_caps :: "capacity list \<Rightarrow> capacity" where
  "sum_caps sizes = foldl plus_cap capacity_default sizes"

section \<open>Overcommit\<close>

record overcommit =
  oc_vcpu :: f64
  oc_memory :: f64

definition VCPU_DEFAULT :: f64 where "VCPU_DEFAULT = F_Fin False 4 0"
definition MEMORY_DEFAULT :: f64 where "MEMORY_DEFAULT = F_Fin False 1 0"

definition overcommit_default :: overcommit where
  "overcommit_default = \<lparr>oc_vcpu = VCPU_DEFAULT, oc_memory = MEMORY_DEFAULT\<rparr>"

datatype overcommit_error = MemoryNotPositive | MemoryOvercommitted f64 | VcpuNotPositive

definition overcommit_check :: "overcommit \<Rightarrow> overcommit_error + unit" where
  "overcommit_check oc =
     (if \<not> (f64_is_finite (oc_memory oc) \<and> f64_gt_nat (oc_memory oc) 0) then Inl MemoryNotPositive
      else if f64_gt_nat (oc_memory oc) 1 then Inl (MemoryOvercommitted (oc_memory oc))
      else if \<not> (f64_is_finite (oc_vcpu oc) \<and> f64_gt_nat (oc_vcpu oc) 0) then Inl VcpuNotPositive
      else Inr ())"

definition allowance :: "overcommit \<Rightarrow> capacity \<Rightarrow> capacity" where
  "allowance oc c =
     \<lparr>vcpus = f64_as_word (f64_mul (f64_of_nat (unat (vcpus c))) (oc_vcpu oc)),
      mem_mib = f64_as_word (f64_mul (f64_of_nat (unat (mem_mib c))) (oc_memory oc))\<rparr>"

section \<open>Saturating sums\<close>

lemma capacity_default_simps [simp]: "vcpus capacity_default = 0" "mem_mib capacity_default = 0"
  by (simp_all add: capacity_default_def)

lemma minus_cap_simps [simp]:
  "vcpus (minus_cap a b) = sat_sub (vcpus a) (vcpus b)"
  "mem_mib (minus_cap a b) = sat_sub (mem_mib a) (mem_mib b)"
  by (simp_all add: minus_cap_def)

lemma plus_cap_simps [simp]:
  "vcpus (plus_cap a b) = sat_add (vcpus a) (vcpus b)"
  "mem_mib (plus_cap a b) = sat_add (mem_mib a) (mem_mib b)"
  by (simp_all add: plus_cap_def)

lemma fits_in_refl [simp]: "fits_in a a"
  by (simp add: fits_in_def)

lemma fits_in_trans: "fits_in a b \<Longrightarrow> fits_in b c \<Longrightarrow> fits_in a c"
  by (auto simp: fits_in_def intro: order_trans)

lemma minus_cap_fits: "fits_in (minus_cap a b) a"
  by (simp add: fits_in_def sat_sub_le)

lemma minus_cap_antimono: "fits_in b c \<Longrightarrow> fits_in (minus_cap a c) (minus_cap a b)"
  by (simp add: fits_in_def sat_sub_antimono)

lemma plus_cap_ge: "fits_in a (plus_cap a b)" "fits_in b (plus_cap a b)"
  by (simp_all add: fits_in_def sat_add_ge)

lemma unat_foldl_plus:
  "unat (vcpus (foldl plus_cap c sizes)) =
     min (2 ^ 32 - 1) (unat (vcpus c) + (\<Sum>s\<leftarrow>sizes. unat (vcpus s)))"
  "unat (mem_mib (foldl plus_cap c sizes)) =
     min (2 ^ 64 - 1) (unat (mem_mib c) + (\<Sum>s\<leftarrow>sizes. unat (mem_mib s)))"
proof (induction sizes arbitrary: c)
  case Nil
  { case 1 show ?case using unat_le_max [of "vcpus c"] by simp }
  { case 2 show ?case using unat_le_max [of "mem_mib c"] by simp }
next
  case (Cons s sizes)
  { case 1 show ?case by (simp add: Cons(1) unat_sat_add) }
  { case 2 show ?case by (simp add: Cons(2) unat_sat_add) }
qed

lemma unat_sum_caps:
  "unat (vcpus (sum_caps sizes)) = min (2 ^ 32 - 1) (\<Sum>s\<leftarrow>sizes. unat (vcpus s))"
  "unat (mem_mib (sum_caps sizes)) = min (2 ^ 64 - 1) (\<Sum>s\<leftarrow>sizes. unat (mem_mib s))"
  by (simp_all add: sum_caps_def unat_foldl_plus)

text \<open>Adding one demand to a sum is adding it at either end.\<close>

lemma plus_cap_commute: "plus_cap a b = plus_cap b a"
  by (simp add: plus_cap_def sat_add_commute)

lemma plus_cap_default [simp]:
  "plus_cap capacity_default a = a" "plus_cap a capacity_default = a"
  by (simp_all add: plus_cap_def)

lemma plus_cap_assoc: "plus_cap (plus_cap a b) c = plus_cap a (plus_cap b c)"
  by (simp add: plus_cap_def sat_add_assoc)

lemma foldl_plus_cap: "foldl plus_cap a sizes = plus_cap a (sum_caps sizes)"
proof (induction sizes arbitrary: a)
  case (Cons s sizes)
  have "foldl plus_cap capacity_default (s # sizes) = plus_cap s (sum_caps sizes)"
    using Cons [of s] by simp
  then show ?case using Cons [of "plus_cap a s"] by (simp add: sum_caps_def plus_cap_assoc)
qed (simp add: sum_caps_def)

lemma sum_caps_Cons: "sum_caps (s # sizes) = plus_cap s (sum_caps sizes)"
  using foldl_plus_cap [of s sizes] by (simp add: sum_caps_def)

section \<open>Memory is never overcommitted\<close>

text \<open>The multiplication happens in \<open>f64\<close>; up to \<open>2 ^ 53\<close> MiB every count is exact there and no rounding
  can carry the product above the count.\<close>

lemma f64_of_nat_exact: "n < 2 ^ 53 \<Longrightarrow> f64_of_nat n = F_Fin False n 0"
  by (simp add: f64_of_nat_def f64_round_exact)

lemma product_rounding:
  assumes le: "m \<le> 2 ^ d" and M: "M < 2 ^ 53"
  defines "k \<equiv> excess_bits (M * m) (- int d)"
  shows "k \<le> d" and "rne_shift (M * m) k \<le> M * 2 ^ (d - k)"
proof -
  have P: "M * m \<le> M * 2 ^ d" using le by simp
  have "M * m < 2 ^ (53 + d)"
  proof (cases "M = 0")
    case False
    note P
    also have "M * 2 ^ d < 2 ^ 53 * 2 ^ d" using M by simp
    finally show ?thesis by (simp add: power_add)
  qed simp
  then have "bit_len (M * m) \<le> 53 + d" by (rule bit_len_le)
  then show "k \<le> d" by (simp add: k_def excess_bits_def)
  then have "2 ^ d = (2 :: nat) ^ (d - k) * 2 ^ k"
    by (metis le_add_diff_inverse2 power_add)
  then have "M * m \<le> M * 2 ^ (d - k) * 2 ^ k"
    using P by (simp only: mult.assoc)
  then show "rne_shift (M * m) k \<le> M * 2 ^ (d - k)"
    by (rule rne_shift_le)
qed

lemma round_trunc_le:
  assumes le: "m \<le> 2 ^ d" and M: "M < 2 ^ 53"
    and r: "f64_round False (M * m) (- int d) = F_Fin False m' e'"
  shows "f64_trunc m' e' \<le> M"
proof -
  let ?k = "excess_bits (M * m) (- int d)"
  from r have m': "m' = rne_shift (M * m) ?k" and e': "e' = - int d + int ?k"
    by (auto simp: f64_round_def Let_def split: if_splits)
  note k = product_rounding(1) [OF le M] and m'_le = product_rounding(2) [OF le M, folded m']
  show ?thesis
  proof (cases "?k = d")
    case True
    then show ?thesis using m'_le e' by (simp add: f64_trunc_def)
  next
    case False
    then have neg: "\<not> 0 \<le> e'" and nat: "nat (- e') = d - ?k"
      using k e' by simp_all
    have "m' div 2 ^ (d - ?k) \<le> M * 2 ^ (d - ?k) div 2 ^ (d - ?k)"
      using m'_le by (rule div_le_mono)
    then show ?thesis using neg nat by (simp add: f64_trunc_def)
  qed
qed

lemma f64_round_not_inf_le:
  assumes le: "m \<le> 2 ^ d" and M: "M < 2 ^ 53"
  shows "f64_round False (M * m) (- int d) \<noteq> F_Inf False"
proof -
  let ?k = "excess_bits (M * m) (- int d)"
  note k = product_rounding(1) [OF le M] and r = product_rounding(2) [OF le M]
  have "M * 2 ^ (d - ?k) < 2 ^ 53 * 2 ^ (d - ?k)" using M by simp
  with r have "rne_shift (M * m) ?k < 2 ^ 53 * 2 ^ (d - ?k)"
    by (rule le_less_trans)
  then have "rne_shift (M * m) ?k < 2 ^ (53 + (d - ?k))"
    by (simp only: power_add)
  then have "bit_len (rne_shift (M * m) ?k) \<le> 53 + (d - ?k)"
    by (rule bit_len_le)
  then have "\<not> int (bit_len (rne_shift (M * m) ?k)) + (- int d + int ?k) > 1024"
    using k by linarith
  then show ?thesis by (simp add: f64_round_def Let_def)
qed

lemma f64_round_cases:
  "f64_round neg m e = F_Inf neg \<or> (\<exists>m' e'. f64_round neg m e = F_Fin neg m' e')"
  by (simp add: f64_round_def Let_def)

lemma unat_f64_as_word:
  "unat (f64_as_word (F_Fin False m e) :: 'a::len word) = min (2 ^ LENGTH('a) - 1) (f64_trunc m e)"
proof -
  have "min (2 ^ LENGTH('a) - 1) (f64_trunc m e) < 2 ^ LENGTH('a)"
    by (simp add: min_less_iff_disj)
  then show ?thesis
    by (simp add: unsigned_of_nat take_bit_eq_mod)
qed

lemma checked_memory:
  assumes "overcommit_check oc = Inr ()"
  obtains m d where "oc_memory oc = F_Fin False m (- int d)" and "m \<le> 2 ^ d"
proof -
  from assms obtain m e where mem: "oc_memory oc = F_Fin False m e"
    and pos: "f64_gt_nat (F_Fin False m e) 0" and le: "\<not> f64_gt_nat (F_Fin False m e) 1"
    by (cases "oc_memory oc") (auto simp: overcommit_check_def split: if_splits)
  show thesis
  proof (cases "0 \<le> e")
    case True
    with pos have "0 < m * 2 ^ nat e" by simp
    moreover from True le have "\<not> 1 < m * 2 ^ nat e" by simp
    ultimately have "m * 2 ^ nat e = 1" by linarith
    then have "m = 1" and "nat e = 0" by simp_all
    with True mem that [of 1 0] show thesis by simp
  next
    case False
    with le have "m \<le> 2 ^ nat (- e)" by simp
    with False mem that [of m "nat (- e)"] show thesis by simp
  qed
qed

lemma allowance_memory:
  assumes "overcommit_check oc = Inr ()" and "unat (mem_mib c) < 2 ^ 53"
  shows "mem_mib (allowance oc c) \<le> mem_mib c"
proof -
  obtain m d where mem: "oc_memory oc = F_Fin False m (- int d)" and le: "m \<le> 2 ^ d"
    using checked_memory [OF assms(1)] .
  let ?n = "unat (mem_mib c)"
  have mul: "f64_mul (f64_of_nat ?n) (oc_memory oc) = f64_round False (?n * m) (- int d)"
    using assms(2) by (simp add: mem f64_of_nat_exact)
  obtain m' e' where r: "f64_round False (?n * m) (- int d) = F_Fin False m' e'"
    using f64_round_not_inf_le [OF le assms(2)] f64_round_cases by metis
  have "f64_trunc m' e' \<le> ?n"
    using round_trunc_le [OF le assms(2) r] .
  then have "unat (mem_mib (allowance oc c)) \<le> ?n"
    using unat_f64_as_word [where 'a = 64, of m' e'] by (simp add: allowance_def mul r)
  then show ?thesis by (simp add: word_le_nat_alt)
qed

text \<open>With the default multipliers a machine carries four times its processors, as far as \<open>u32\<close> counts,
  and its own memory.\<close>

lemma f64_trunc_0 [simp]: "f64_trunc m 0 = m"
  by (simp add: f64_trunc_def)

lemma allowance_default:
  assumes "unat (mem_mib c) < 2 ^ 53"
  shows "unat (vcpus (allowance overcommit_default c)) = min (2 ^ 32 - 1) (4 * unat (vcpus c))"
    and "mem_mib (allowance overcommit_default c) = mem_mib c"
proof -
  have v: "unat (vcpus c) < 2 ^ 32"
    using unsigned_less [of "vcpus c"] by simp
  then have "unat (vcpus c) < 2 ^ 53" by simp
  moreover have "unat (vcpus c) * 4 < 2 ^ 53" using v by simp
  ultimately have "f64_mul (f64_of_nat (unat (vcpus c))) VCPU_DEFAULT
      = F_Fin False (unat (vcpus c) * 4) 0"
    by (simp add: VCPU_DEFAULT_def f64_of_nat_exact f64_round_exact del: One_nat_def)
  then show "unat (vcpus (allowance overcommit_default c)) = min (2 ^ 32 - 1) (4 * unat (vcpus c))"
    using unat_f64_as_word [where 'a = 32, of "unat (vcpus c) * 4" 0]
    by (simp add: allowance_def overcommit_default_def mult.commute)
  have "f64_mul (f64_of_nat (unat (mem_mib c))) MEMORY_DEFAULT = F_Fin False (unat (mem_mib c)) 0"
    using assms by (simp add: MEMORY_DEFAULT_def f64_of_nat_exact f64_round_exact)
  then have "unat (mem_mib (allowance overcommit_default c)) = unat (mem_mib c)"
    using unat_f64_as_word [where 'a = 64, of "unat (mem_mib c)" 0] assms
    by (simp add: allowance_def overcommit_default_def)
  then show "mem_mib (allowance overcommit_default c) = mem_mib c"
    by (simp only: word_unat_eq_iff)
qed

lemma allowance_default_eq:
  assumes "unat (mem_mib c) < 2 ^ 53" and "4 * unat (vcpus c) < 2 ^ 32"
  shows "allowance overcommit_default c = \<lparr>vcpus = 4 * vcpus c, mem_mib = mem_mib c\<rparr>"
proof -
  have "unat (4 * vcpus c) = 4 * unat (vcpus c)"
    using assms(2) by (simp add: unat_word_ariths)
  then have "vcpus (allowance overcommit_default c) = 4 * vcpus c"
    using allowance_default(1) [OF assms(1)] assms(2) by (simp add: word_unat_eq_iff min_def)
  then show ?thesis
    using allowance_default(2) [OF assms(1)] by (cases "allowance overcommit_default c") simp
qed

section \<open>What overcommit promises\<close>

text \<open>C32: On a machine with less than 2 to the 53 mebibytes a checked overcommit hands out no more memory than
  the machine has: whatever multipliers pass the check, and with the rounding of binary floating
  point taken into account, the allowance is at most the memory. From 2 to the 53 mebibytes on this
  is not so, as memory_rounds_up_beyond below shows.\<close>

theorem memory_is_never_overcommitted:
  assumes "overcommit_check oc = Inr ()" and "unat (mem_mib c) < 2 ^ 53"
  shows "mem_mib (allowance oc c) \<le> mem_mib c"
  using assms by (rule allowance_memory)

theorem memory_is_never_overcommitted_witness:
  "mem_mib (allowance \<lparr>oc_vcpu = F_Fin False 4 0, oc_memory = F_Fin False 1 (- 1)\<rparr> \<lparr>vcpus = 8, mem_mib = 4097\<rparr>) \<le> 4097"
proof -
  have "overcommit_check \<lparr>oc_vcpu = F_Fin False 4 0, oc_memory = F_Fin False 1 (- 1)\<rparr> = Inr ()"
    by (simp add: overcommit_check_def)
  from memory_is_never_overcommitted [OF this, of "\<lparr>vcpus = 8, mem_mib = 4097\<rparr>"] show ?thesis by simp
qed

text \<open>The bound in that theorem is sharp in kind: three mebibytes above 2 to the 53, the factor 1 hands out
  one mebibyte more than there is, because the cast to floating point rounds up.\<close>

lemma memory_rounds_up_beyond:
  "mem_mib (allowance overcommit_default \<lparr>vcpus = 1, mem_mib = 9007199254740995\<rparr>) = 9007199254740996"
proof -
  have "bit_len 9007199254740995 = 54" "bit_len 4503599627370498 = 53"
    by (simp_all add: bit_len.simps)
  then have "f64_mul (f64_of_nat 9007199254740995) MEMORY_DEFAULT = F_Fin False 4503599627370498 1"
    by (simp add: f64_of_nat_def f64_round_def excess_bits_def rne_shift_def Let_def MEMORY_DEFAULT_def)
  then show ?thesis
    by (simp add: allowance_def overcommit_default_def f64_trunc_def)
qed

end
