(* ===== verification/Node_Resource.thy ===== *)
theory Node_Resource
  imports Object_Model Capability
begin

text \<open>
  \<open>resources/node.rs\<close>, \<open>resources/cluster.rs\<close> and the workload classes of
  \<open>resources/network.rs\<close>: what machines are, say about themselves and accept, and which pairs of
  them a running guest may cross between.
\<close>

section \<open>Conditions\<close>

record node_condition =
  nc_type :: string
  nc_message :: string

datatype node_condition_type = DiskPressure | StoreUnhealthy | CgroupUnusable | DriverUnavailable

definition node_condition_type_all :: "node_condition_type list" where
  "node_condition_type_all = [DiskPressure, StoreUnhealthy, CgroupUnusable, DriverUnavailable]"

fun node_condition_type_str :: "node_condition_type \<Rightarrow> string" where
  "node_condition_type_str DiskPressure = ''DiskPressure''"
| "node_condition_type_str StoreUnhealthy = ''StoreUnhealthy''"
| "node_condition_type_str CgroupUnusable = ''CgroupUnusable''"
| "node_condition_type_str DriverUnavailable = ''DriverUnavailable''"

definition node_condition_type_parse :: "string \<Rightarrow> node_condition_type option" where
  "node_condition_type_parse = parse_in node_condition_type_all node_condition_type_str"

definition type_vetoes_placement :: "node_condition_type \<Rightarrow> bool" where
  "type_vetoes_placement t \<longleftrightarrow> t \<noteq> DriverUnavailable"

definition vetoes_placement :: "node_condition \<Rightarrow> bool" where
  "vetoes_placement c =
     (case node_condition_type_parse (nc_type c) of
        None \<Rightarrow> True
      | Some t \<Rightarrow> type_vetoes_placement t)"

definition vetoing :: "node_condition list \<Rightarrow> string list" where
  "vetoing conditions = map nc_type (filter vetoes_placement conditions)"

interpretation condition_words: closed_words node_condition_type_all node_condition_type_str
  by unfold_locales (use node_condition_type.exhaust in \<open>auto simp: node_condition_type_all_def\<close>)

lemma vetoes_placement_iff: "vetoes_placement c \<longleftrightarrow> nc_type c \<noteq> ''DriverUnavailable''"
proof (cases "node_condition_type_parse (nc_type c)")
  case None
  then have "nc_type c \<noteq> node_condition_type_str DriverUnavailable"
    using condition_words.parse_as_str [of DriverUnavailable]
    by (auto simp: node_condition_type_parse_def)
  then show ?thesis using None by (simp add: vetoes_placement_def)
next
  case (Some t)
  then have "nc_type c = node_condition_type_str t"
    by (simp add: node_condition_type_parse_def condition_words.parse_Some)
  then show ?thesis using Some
    by (cases t) (simp_all add: vetoes_placement_def type_vetoes_placement_def)
qed

section \<open>Draining\<close>

datatype stay_reason = EvacuationNever | NodeLocalDisk | NoTarget

definition stay_reason_all :: "stay_reason list" where
  "stay_reason_all = [EvacuationNever, NodeLocalDisk, NoTarget]"

fun stay_reason_str :: "stay_reason \<Rightarrow> string" where
  "stay_reason_str EvacuationNever = ''evacuation-never''"
| "stay_reason_str NodeLocalDisk = ''node-local-disk''"
| "stay_reason_str NoTarget = ''no-target''"

definition stay_reason_parse :: "string \<Rightarrow> stay_reason option" where
  "stay_reason_parse = parse_in stay_reason_all stay_reason_str"

definition settles_a_drain :: "stay_reason \<Rightarrow> bool" where
  "settles_a_drain r \<longleftrightarrow> r \<in> {EvacuationNever, NodeLocalDisk}"

interpretation stay_reason_words: closed_words stay_reason_all stay_reason_str
  by unfold_locales (use stay_reason.exhaust in \<open>auto simp: stay_reason_all_def\<close>)

record staying_vm =
  sv_vm :: string
  sv_reason :: string
  sv_message :: string

record draining =
  dr_leaving :: u32
  dr_leaving_vms :: "string list"
  dr_moved_total :: u32
  dr_staying :: u32
  dr_reasons :: "staying_vm list"
  dr_complete :: bool

section \<open>Nodes\<close>

record node_spec =
  ns_schedulable :: bool
  ns_drain :: bool
  ns_labels :: labels
  ns_accepts :: "string list"

record node_capacity =
  ncap_vcpus :: u32
  ncap_mem_mib :: u64
  ncap_capabilities :: "string list"
  ncap_volume_localities :: "(string, locality) bmap"

record machine_profile =
  mp_cpu_vendor :: string
  mp_cpu_model :: string
  mp_cpu_flags :: string
  mp_nested :: bool
  mp_hypervisor :: string
  mp_cpu_profile :: string
  mp_hypervisor_version :: string
  mp_kernel :: string
  mp_host :: string

record node_status =
  nst_ready :: bool
  nst_last_heartbeat :: "instant option"
  nst_agent_version :: "string option"
  nst_capacity :: node_capacity
  nst_vms :: u32
  nst_session_endpoint :: "string option"
  nst_draining :: "draining option"
  nst_conditions :: "node_condition list"
  nst_machine :: "machine_profile option"

type_synonym node = "(node_spec, node_status) object"

definition machine_profile_default :: machine_profile where
  "machine_profile_default =
     \<lparr>mp_cpu_vendor = [], mp_cpu_model = [], mp_cpu_flags = [], mp_nested = False,
      mp_hypervisor = [], mp_cpu_profile = [], mp_hypervisor_version = [], mp_kernel = [],
      mp_host = []\<rparr>"

definition said_anything :: "machine_profile \<Rightarrow> bool" where
  "said_anything p \<longleftrightarrow> p \<noteq> machine_profile_default"

definition describe :: "machine_profile \<Rightarrow> string" where
  "describe p =
     (if mp_cpu_model p = [] then
        (if mp_cpu_vendor p = [] then ''an unnamed cpu'' else mp_cpu_vendor p)
      else mp_cpu_model p)
     @ (if mp_nested p then
          '' on nested '' @ (if mp_hypervisor p = [] then ''virtualisation'' else mp_hypervisor p)
        else [])
     @ (if mp_host p \<noteq> [] then '' (host '' @ mp_host p @ '')'' else [])"

definition same_physical_host :: "machine_profile \<Rightarrow> machine_profile \<Rightarrow> bool" where
  "same_physical_host a b \<longleftrightarrow> mp_host a \<noteq> [] \<and> mp_host a = mp_host b"

definition differs :: "string \<Rightarrow> string \<Rightarrow> bool" where
  "differs a b \<longleftrightarrow> a \<noteq> [] \<and> b \<noteq> [] \<and> a \<noteq> b"

definition em_dash :: string where "em_dash = [CHR 0xE2, CHR 0x80, CHR 0x94]"

definition refuse_migration ::
  "string \<Rightarrow> machine_profile \<Rightarrow> string \<Rightarrow> machine_profile \<Rightarrow> string \<Rightarrow> string \<Rightarrow> string option" where
  "refuse_migration source_node source target_node target what fix =
     Some (''live migration refused: '' @ what @ ''. '' @ source_node @ '' is '' @ describe source
           @ '', '' @ target_node @ '' is '' @ describe target @ '' '' @ em_dash @ '' '' @ fix)"

definition live_migration_refusal ::
  "string \<Rightarrow> machine_profile \<Rightarrow> string \<Rightarrow> machine_profile \<Rightarrow> string option" where
  "live_migration_refusal source_node source target_node target =
     (if \<not> said_anything source \<or> \<not> said_anything target then None
      else if differs (mp_cpu_vendor source) (mp_cpu_vendor target) then
        refuse_migration source_node source target_node target
          ''the two machines are not the same make of cpu''
          ''a saved vcpu state does not cross vendors; move it with `vm reschedule`, or set spec.evacuation = restart so a drain reboots it''
      else if differs (mp_cpu_model source) (mp_cpu_model target) then
        refuse_migration source_node source target_node target
          ''the two machines are different cpu models''
          ''cloud-hypervisor gives a guest this machine's own cpuid (profile Host), so the saved state names registers the destination does not have; move it with `vm reschedule`, or set spec.evacuation = restart''
      else if differs (mp_cpu_profile source) (mp_cpu_profile target) then
        refuse_migration source_node source target_node target
          ''the two nodes give their guests different cpu profiles''
          ''live migration needs the same profile at both ends; set the same one in [hypervisor.cloud-hypervisor] on both nodes, or move it with `vm reschedule`''
      else if mp_nested source \<and> mp_nested target \<and> \<not> same_physical_host source target then
        refuse_migration source_node source target_node target
          ''both machines are themselves guests, and this cannot be shown to be one physical host''
          (''nested state does not cross a physical host '' @ em_dash @ '' measured, twice, on this lab's own hardware (D-X1). Put the two nodes on one host and set `physical_host` on both so this can be seen, or move the guest with `vm reschedule`'')
      else None)"

section \<open>Clusters and the summaries they send up\<close>

record cluster_spec =
  cs_schedulable :: bool
  cs_drain :: bool
  cs_labels :: labels

record node_summary =
  sm_name :: string
  sm_ready :: bool
  sm_schedulable :: bool
  sm_drain :: bool
  sm_labels :: labels
  sm_vcpus :: u32
  sm_mem_mib :: u64
  sm_bound_vcpus :: u32
  sm_bound_mem_mib :: u64
  sm_capabilities :: "string list"
  sm_vms :: u32
  sm_conditions :: "node_condition list"
  sm_draining :: "draining option"
  sm_accepts :: "string list"

definition sm_usable :: "node_summary \<Rightarrow> bool" where
  "sm_usable n \<longleftrightarrow> sm_ready n \<and> sm_schedulable n \<and> \<not> list_ex vetoes_placement (sm_conditions n)"

definition accepts_class :: "string list \<Rightarrow> string \<Rightarrow> bool" where
  "accepts_class accepts cl \<longleftrightarrow> accepts = [] \<or> cl \<in> set accepts"

definition cluster_accepts :: "node_summary list \<Rightarrow> string list" where
  "cluster_accepts nodes =
     (let usable = filter sm_usable nodes in
      if usable = [] \<or> list_ex (\<lambda>n. sm_accepts n = []) usable then []
      else remdups_adj (sort (concat (map sm_accepts usable))))"

section \<open>Facts\<close>

lemma refuse_not_None: "(refuse_migration a s b t what fix = None) = False"
  by (simp add: refuse_migration_def)

lemma live_migration_allowed_iff:
  "live_migration_refusal a s b t = None \<longleftrightarrow>
     \<not> said_anything s \<or> \<not> said_anything t
     \<or> (\<not> differs (mp_cpu_vendor s) (mp_cpu_vendor t)
         \<and> \<not> differs (mp_cpu_model s) (mp_cpu_model t)
         \<and> \<not> differs (mp_cpu_profile s) (mp_cpu_profile t)
         \<and> (mp_nested s \<longrightarrow> mp_nested t \<longrightarrow> same_physical_host s t))"
  unfolding live_migration_refusal_def
  by (simp only: if_split [where P = "\<lambda>x. x = None"] refuse_not_None) blast

lemma live_migration_symmetric:
  "live_migration_refusal a s b t = None \<longleftrightarrow> live_migration_refusal b t a s = None"
  unfolding live_migration_allowed_iff differs_def same_physical_host_def by metis

text \<open>The list a cluster shows for its nodes answers the class question exactly as its usable nodes
  do, and an empty fleet is no restriction.\<close>

lemma cluster_accepts_iff:
  "accepts_class (cluster_accepts nodes) cl \<longleftrightarrow>
     filter sm_usable nodes = [] \<or> (\<exists>n\<in>set nodes. sm_usable n \<and> accepts_class (sm_accepts n) cl)"
proof (cases "filter sm_usable nodes = [] \<or> list_ex (\<lambda>n. sm_accepts n = []) (filter sm_usable nodes)")
  case True
  then show ?thesis
    by (auto simp: cluster_accepts_def accepts_class_def list_ex_iff Let_def)
next
  case False
  then have "set (cluster_accepts nodes) = (\<Union>n\<in>set (filter sm_usable nodes). set (sm_accepts n))"
    by (simp add: cluster_accepts_def Let_def)
  moreover have "cluster_accepts nodes \<noteq> []"
    using calculation False by (auto simp: list_ex_iff filter_empty_conv)
  ultimately show ?thesis
    using False by (auto simp: accepts_class_def list_ex_iff)
qed

section \<open>What the tiers may rely on\<close>

text \<open>C34: A live migration is refused exactly when both machines have described themselves and differ in cpu
  vendor, cpu model or cpu profile as far as both name one, or are both nested without being shown
  to share a physical host. The rule is symmetric: where a guest may go, it may come back from.\<close>

theorem live_migration_rule:
  "(live_migration_refusal a s b t \<noteq> None \<longleftrightarrow>
      said_anything s \<and> said_anything t
      \<and> (differs (mp_cpu_vendor s) (mp_cpu_vendor t) \<or> differs (mp_cpu_model s) (mp_cpu_model t)
          \<or> differs (mp_cpu_profile s) (mp_cpu_profile t)
          \<or> (mp_nested s \<and> mp_nested t \<and> \<not> same_physical_host s t)))
   \<and> (live_migration_refusal a s b t = None \<longleftrightarrow> live_migration_refusal b t a s = None)"
proof
  show "live_migration_refusal a s b t \<noteq> None \<longleftrightarrow>
      said_anything s \<and> said_anything t
      \<and> (differs (mp_cpu_vendor s) (mp_cpu_vendor t) \<or> differs (mp_cpu_model s) (mp_cpu_model t)
          \<or> differs (mp_cpu_profile s) (mp_cpu_profile t)
          \<or> (mp_nested s \<and> mp_nested t \<and> \<not> same_physical_host s t))"
    unfolding live_migration_allowed_iff by blast
qed (rule live_migration_symmetric)

text \<open>C35: The class list a cluster shows to the cloud answers as its counted nodes do. Counted is a node that
  is ready, schedulable and without a condition that vetoes placement, whether or not it is being
  drained. The list admits a class exactly when one of the counted nodes admits it, or when there is
  no counted node; in that case it admits everything. Draining nodes does not change the list, so a
  drained node does broaden what the cluster accepts, against the documentation of
  cluster_accepts.\<close>

theorem cluster_speaks_for_its_nodes:
  fixes nodes :: "node_summary list"
  defines "counted \<equiv> filter (\<lambda>n. sm_ready n \<and> sm_schedulable n
      \<and> (\<forall>c\<in>set (sm_conditions n). nc_type c = ''DriverUnavailable'')) nodes"
  shows "(accepts_class (cluster_accepts nodes) cl \<longleftrightarrow>
      counted = [] \<or> (\<exists>n\<in>set counted. sm_accepts n = [] \<or> cl \<in> set (sm_accepts n)))
    \<and> cluster_accepts (map (\<lambda>n. n\<lparr>sm_drain := drain n\<rparr>) nodes) = cluster_accepts nodes"
proof
  have "counted = filter sm_usable nodes"
    unfolding counted_def sm_usable_def list_ex_iff vetoes_placement_iff by (rule filter_cong) auto
  then show "accepts_class (cluster_accepts nodes) cl \<longleftrightarrow>
      counted = [] \<or> (\<exists>n\<in>set counted. sm_accepts n = [] \<or> cl \<in> set (sm_accepts n))"
    using cluster_accepts_iff [of nodes cl] by (auto simp: accepts_class_def)
  have "filter sm_usable (map (\<lambda>n. n\<lparr>sm_drain := drain n\<rparr>) nodes)
      = map (\<lambda>n. n\<lparr>sm_drain := drain n\<rparr>) (filter sm_usable nodes)"
    unfolding filter_map comp_def by (intro arg_cong2 [where f = map] filter_cong refl) (simp add: sm_usable_def)
  then show "cluster_accepts (map (\<lambda>n. n\<lparr>sm_drain := drain n\<rparr>) nodes) = cluster_accepts nodes"
    by (auto simp: cluster_accepts_def Let_def comp_def list_ex_iff)
qed

theorem cluster_speaks_for_its_nodes_witness:
  "\<not> accepts_class (cluster_accepts
      [\<lparr>sm_name = ''n1'', sm_ready = True, sm_schedulable = True, sm_drain = False, sm_labels = [],
        sm_vcpus = 1, sm_mem_mib = 1, sm_bound_vcpus = 0, sm_bound_mem_mib = 0, sm_capabilities = [],
        sm_vms = 0, sm_conditions = [], sm_draining = None, sm_accepts = [''gateway'']\<rparr>]) ''vm''"
  by (subst conjunct1 [OF cluster_speaks_for_its_nodes]) simp

end
