(* ===== verification/Samples.thy ===== *)
theory Samples
  imports Vm_Resource Node_Resource
begin

text \<open>
  Small concrete objects at which the theorems of the development are evaluated: a guest that asks
  for processors and memory, and a node that is up and has some. Documents are \<open>json\<close> trees, read
  with \<open>tree_ops\<close>.
\<close>

definition sample_spec :: "u64 \<Rightarrow> u64 \<Rightarrow> json vm_spec" where
  "sample_spec cpus mem =
     \<lparr>vs_node_name = None, vs_cluster_name = None, vs_run_strategy = RunRunning,
      vs_evacuation = EvacNever, vs_tenant = None, vs_class_field = [], vs_cluster_selector = [],
      vs_node_selector = [], vs_anti_affinity = [],
      vs_vm = JObj [(''memory_mib'', JNum mem), (''vcpus'', JNum cpus)]\<rparr>"

definition sample_vm :: "string \<Rightarrow> u64 \<Rightarrow> u64 \<Rightarrow> json vm" where
  "sample_vm name cpus mem = new_vm name (sample_spec cpus mem) (''uid-'' @ name) 1000"

definition sample_capacity :: "u32 \<Rightarrow> u64 \<Rightarrow> node_capacity" where
  "sample_capacity cpus mem =
     \<lparr>ncap_vcpus = cpus, ncap_mem_mib = mem, ncap_capabilities = [], ncap_volume_localities = []\<rparr>"

definition sample_node :: "string \<Rightarrow> u32 \<Rightarrow> u64 \<Rightarrow> node" where
  "sample_node name cpus mem =
     declare_object ''Node'' name
       \<lparr>ns_schedulable = True, ns_drain = False, ns_labels = [], ns_accepts = []\<rparr>
       \<lparr>nst_ready = True, nst_last_heartbeat = Some 1000, nst_agent_version = None,
        nst_capacity = sample_capacity cpus mem, nst_vms = 0, nst_session_endpoint = Some ''10.0.0.1:443'',
        nst_draining = None, nst_conditions = [], nst_machine = None\<rparr> (''uid-'' @ name) 1000"

definition sample_summary :: "string \<Rightarrow> u32 \<Rightarrow> u64 \<Rightarrow> node_summary" where
  "sample_summary name cpus mem =
     \<lparr>sm_name = name, sm_ready = True, sm_schedulable = True, sm_drain = False, sm_labels = [],
      sm_vcpus = cpus, sm_mem_mib = mem, sm_bound_vcpus = 0, sm_bound_mem_mib = 0, sm_capabilities = [],
      sm_vms = 0, sm_conditions = [], sm_draining = None, sm_accepts = []\<rparr>"

lemmas sample_defs = sample_spec_def sample_vm_def sample_capacity_def sample_node_def new_vm_def
  declare_object_def object_new_def metadata_default_def

end
