(* ===== verification/Vni.thy ===== *)
theory Vni
  imports Object_Model Json_Api
begin

text \<open>
  The part of \<open>shared/controller-api/src/vni.rs\<close> that touches no store: the choice of the next
  identifier, what is written into the NICs of a VM, and which wires a tenant's VM picks for
  itself. The allocation against the store is in \<open>Vni_Alloc\<close>.
\<close>

definition DEFAULT_VNI_BASE :: u32 where "DEFAULT_VNI_BASE = 10000"
definition VNI_MAX :: u32 where "VNI_MAX = 0x00FFFFFF"

text \<open>\<open>Err\<close> carries the sentence of \<open>StoreError::Invalid\<close>.\<close>

definition next_vni :: "u32 option \<Rightarrow> u32 \<Rightarrow> string + (u32 \<times> u32)" where
  "next_vni current base0 =
     (let base = max base0 1;
          issued = max (unwrap_or base current) base
      in if VNI_MAX < issued then
           Inl (''cannot allocate a vni: '' @ dec (unat issued) @ '' is past the 24-bit range a vxlan identifier has (''
                @ dec (unat VNI_MAX) @ ''); the tenant counter is exhausted'')
         else Inr (issued, issued + 1))"

section \<open>Network interfaces\<close>

definition physnet_of :: "'j json_ops \<Rightarrow> 'j \<Rightarrow> string option" where
  "physnet_of J nic =
     (case j_str_field J nic ''physnet'' of
        Some p \<Rightarrow> if p \<noteq> [] then Some p else None
      | None \<Rightarrow> None)"

definition on_a_provider_network :: "'j json_ops \<Rightarrow> 'j \<Rightarrow> bool" where
  "on_a_provider_network J nic \<longleftrightarrow> physnet_of J nic \<noteq> None"

definition names_vxlan :: "'j json_ops \<Rightarrow> 'j \<Rightarrow> bool" where
  "names_vxlan J nic =
     (case j_get J nic ''vxlan_id'' of Some v \<Rightarrow> \<not> j_is_null J v | None \<Rightarrow> False)"

definition wants_vni :: "'j json_ops \<Rightarrow> 'j \<Rightarrow> bool" where
  "wants_vni J nic \<longleftrightarrow>
     j_is_object J nic \<and> \<not> (names_vxlan J nic \<or> on_a_provider_network J nic)"

definition inject_nic :: "'j json_ops \<Rightarrow> u32 \<Rightarrow> 'j \<Rightarrow> 'j" where
  "inject_nic J vni nic =
     (if wants_vni J nic then j_insert J nic ''vxlan_id'' (j_of_u64 J (ucast vni)) else nic)"

definition inject_vxlan_id :: "'j json_ops \<Rightarrow> 'j \<Rightarrow> u32 \<Rightarrow> 'j \<times> nat" where
  "inject_vxlan_id J doc vni =
     (case Option.bind (j_get J doc ''nics'') (j_as_array J) of
        None \<Rightarrow> (doc, 0)
      | Some nics \<Rightarrow>
          (j_insert J doc ''nics'' (j_of_array J (map (inject_nic J vni) nics)),
           length (filter (wants_vni J) nics)))"

definition WIRE_FIELDS :: "string list" where "WIRE_FIELDS = [''physnet'', ''bridge'']"

record own_wire =
  ow_nic :: nat
  ow_field :: string
  ow_name :: string

definition wires_of_nic :: "'j json_ops \<Rightarrow> nat \<times> 'j \<Rightarrow> own_wire list" where
  "wires_of_nic J = (\<lambda>(i, nic).
     List.map_filter (\<lambda>field.
       (case j_str_field J nic field of
          Some name \<Rightarrow> if name \<noteq> [] then Some \<lparr>ow_nic = i, ow_field = field, ow_name = name\<rparr> else None
        | None \<Rightarrow> None)) WIRE_FIELDS)"

definition own_wires :: "'j json_ops \<Rightarrow> 'j \<Rightarrow> own_wire list" where
  "own_wires J doc = concat (map (wires_of_nic J) (enumerate 0 (j_array_field J doc ''nics'')))"

text \<open>The refusal names the field and says why; \<open>None\<close> admits the VM.\<close>

definition check_tenant_nics :: "'j json_ops \<Rightarrow> 'j \<Rightarrow> (string \<times> string) option" where
  "check_tenant_nics J doc =
     (case own_wires J doc of
        [] \<Rightarrow> None
      | wire # _ \<Rightarrow>
          (let field = ''spec.vm.nics['' @ dec (ow_nic wire) @ ''].'' @ ow_field wire in
           Some (field, field @ '' is not a tenant's to set: a tenant's vm hangs on its own overlay, and a provider network or a host bridge is shared with everybody on it'')))"

section \<open>Facts\<close>

lemma unat_vni_max: "unat VNI_MAX = 16777215"
  by (simp add: VNI_MAX_def)

lemma next_vni_bounds:
  assumes "next_vni current base = Inr (issued, nxt)"
  shows "1 \<le> issued" and "base \<le> issued" and "issued \<le> VNI_MAX"
    and "unat nxt = Suc (unat issued)" and "current = Some c \<Longrightarrow> c \<le> issued"
proof -
  from assms have iss: "issued = max (unwrap_or (max base 1) current) (max base 1)"
    and nxt: "nxt = issued + 1" and le: "issued \<le> VNI_MAX"
    by (auto simp: next_vni_def Let_def not_less split: if_splits)
  show "1 \<le> issued" "base \<le> issued" "issued \<le> VNI_MAX"
    using iss le by (auto simp: le_max_iff_disj)
  show "current = Some c \<Longrightarrow> c \<le> issued"
    using iss by (auto simp: le_max_iff_disj)
  have "unat issued \<le> 16777215"
    using le unat_vni_max by (simp add: word_le_nat_alt)
  then have "unat issued + unat (1 :: u32) < 2 ^ LENGTH(32)" by simp
  then have "unat (issued + 1) = unat issued + unat (1 :: u32)"
    by (simp only: unat_add_lem)
  then show "unat nxt = Suc (unat issued)"
    unfolding nxt by simp
qed

lemma next_vni_total:
  "max base 1 \<le> VNI_MAX \<Longrightarrow> (\<forall>c. current = Some c \<longrightarrow> c \<le> VNI_MAX) \<Longrightarrow>
   \<exists>issued nxt. next_vni current base = Inr (issued, nxt)"
  by (cases current) (auto simp: next_vni_def Let_def max_def)

context json_value
begin

lemma names_vxlan_inject: "names_vxlan J (inject_nic J vni nic) \<longleftrightarrow> names_vxlan J nic \<or> wants_vni J nic"
  by (auto simp: inject_nic_def names_vxlan_def wants_vni_def get_insert u64_not_null)

lemma physnet_inject: "physnet_of J (inject_nic J vni nic) = physnet_of J nic"
  by (auto simp: inject_nic_def physnet_of_def wants_vni_def str_field_insert)

lemma wants_vni_inject: "\<not> wants_vni J (inject_nic J vni nic)"
  unfolding wants_vni_def on_a_provider_network_def physnet_inject names_vxlan_inject
  by (auto simp: inject_nic_def wants_vni_def on_a_provider_network_def)

lemma inject_nic_twice: "inject_nic J vni' (inject_nic J vni nic) = inject_nic J vni nic"
  using wants_vni_inject by (simp add: inject_nic_def [of J vni'])

text \<open>After injection every object NIC names its wire, none that named one was touched, and a second
  injection finds nothing to do.\<close>

lemma inject_vxlan_id_nics:
  assumes "j_get J doc ''nics'' = Some a" and "j_as_array J a = Some nics"
  shows "j_array_field J (fst (inject_vxlan_id J doc vni)) ''nics'' = map (inject_nic J vni) nics"
  using assms get_object [OF assms(1)]
  by (simp add: inject_vxlan_id_def array_field_insert)

lemma inject_vxlan_id_again: "snd (inject_vxlan_id J (fst (inject_vxlan_id J doc vni)) vni') = 0"
proof (cases "Option.bind (j_get J doc ''nics'') (j_as_array J)")
  case None
  then show ?thesis by (simp add: inject_vxlan_id_def)
next
  case (Some nics)
  then have "j_is_object J doc" using get_object by (auto simp: bind_eq_Some_conv)
  with Some show ?thesis
    using wants_vni_inject by (simp add: inject_vxlan_id_def get_insert as_array_of)
qed

lemma inject_vxlan_id_elsewhere:
  "k \<noteq> ''nics'' \<Longrightarrow> j_get J (fst (inject_vxlan_id J doc vni)) k = j_get J doc k"
  using get_object by (auto simp: inject_vxlan_id_def get_insert bind_eq_Some_conv split: option.splits)

end

lemma wires_of_nic_Nil:
  "wires_of_nic J (i, nic) = [] \<longleftrightarrow>
     (\<forall>field\<in>set WIRE_FIELDS. j_str_field J nic field \<in> {None, Some []})"
  by (auto simp: wires_of_nic_def WIRE_FIELDS_def map_filter_def split: option.splits if_splits)

lemma check_tenant_nics_None:
  "check_tenant_nics J doc = None \<longleftrightarrow>
     (\<forall>nic\<in>set (j_array_field J doc ''nics''). \<forall>field\<in>{''physnet'', ''bridge''}.
        j_str_field J nic field \<in> {None, Some []})"
proof -
  let ?quiet = "\<lambda>nic. \<forall>field\<in>set WIRE_FIELDS. j_str_field J nic field \<in> {None, Some []}"
  let ?nics = "j_array_field J doc ''nics''"
  have "own_wires J doc = [] \<longleftrightarrow> (\<forall>p\<in>set (enumerate 0 ?nics). ?quiet (snd p))"
    unfolding own_wires_def concat_eq_Nil_conv set_map
    by (simp only: ball_simps) (metis prod.collapse wires_of_nic_Nil)
  also have "\<dots> \<longleftrightarrow> (\<forall>nic\<in>set (map snd (enumerate 0 ?nics)). ?quiet nic)"
    by (simp only: set_map ball_simps)
  finally have "own_wires J doc = [] \<longleftrightarrow> (\<forall>nic\<in>set ?nics. ?quiet nic)"
    by (simp only: map_snd_enumerate)
  then show ?thesis
    by (auto simp: check_tenant_nics_def Let_def WIRE_FIELDS_def split: list.splits)
qed

section \<open>What the overlay promises\<close>

text \<open>C29: Writing a tenant's identifier into a guest's interfaces is exact and happens once: every interface
  that is an object then names its overlay or its provider network, an interface that named one is
  left as it was, an interface that is touched gets exactly that identifier and keeps its other
  fields, no other field of the document changes, and a second writing, with whatever identifier,
  has nothing to do.\<close>

theorem injection_is_exact_and_final:
  assumes "json_value J" and "j_get J doc ''nics'' = Some a" and "j_as_array J a = Some nics"
  shows "let doc' = fst (inject_vxlan_id J doc vni) in
      j_array_field J doc' ''nics'' = map (inject_nic J vni) nics
      \<and> (\<forall>nic\<in>set nics. \<not> wants_vni J (inject_nic J vni nic)
           \<and> (names_vxlan J nic \<or> on_a_provider_network J nic \<longrightarrow> inject_nic J vni nic = nic)
           \<and> (wants_vni J nic \<longrightarrow> j_get J (inject_nic J vni nic) ''vxlan_id'' = Some (j_of_u64 J (ucast vni)))
           \<and> (\<forall>k. k \<noteq> ''vxlan_id'' \<longrightarrow> j_get J (inject_nic J vni nic) k = j_get J nic k))
      \<and> (\<forall>k. k \<noteq> ''nics'' \<longrightarrow> j_get J doc' k = j_get J doc k)
      \<and> snd (inject_vxlan_id J doc' vni') = 0"
  using json_value.inject_vxlan_id_nics [OF assms] json_value.wants_vni_inject [OF assms(1)]
    json_value.inject_vxlan_id_elsewhere [OF assms(1)] json_value.inject_vxlan_id_again [OF assms(1)]
    json_value.get_insert [OF assms(1)]
  by (simp add: Let_def inject_nic_def wants_vni_def)

theorem injection_is_exact_and_final_witness:
  "j_array_field tree_ops
     (fst (inject_vxlan_id tree_ops (JObj [(''nics'', JArr [JObj [], JObj [(''physnet'', JStr ''dmz'')]])]) 10000)) ''nics''
   = [JObj [(''vxlan_id'', JNum 10000)], JObj [(''physnet'', JStr ''dmz'')]]"
  using injection_is_exact_and_final [OF tree.json_value_axioms, of
      "JObj [(''nics'', JArr [JObj [], JObj [(''physnet'', JStr ''dmz'')]])]"
      "JArr [JObj [], JObj [(''physnet'', JStr ''dmz'')]]" "[JObj [], JObj [(''physnet'', JStr ''dmz'')]]" 10000 0]
  by (simp add: tree_ops_def Let_def inject_nic_def wants_vni_def names_vxlan_def on_a_provider_network_def
      physnet_of_def j_str_field_def)

text \<open>C30: A tenant's guest is admitted exactly when none of its interfaces picks a wire of its own, a provider
  network or a host bridge; an empty name is no pick.\<close>

theorem tenant_nics_admitted_iff:
  "check_tenant_nics J doc = None \<longleftrightarrow>
     \<not> (\<exists>nic\<in>set (j_array_field J doc ''nics''). \<exists>field\<in>{''physnet'', ''bridge''}. \<exists>name.
          name \<noteq> [] \<and> j_str_field J nic field = Some name)"
  unfolding check_tenant_nics_None by (metis empty_iff insert_iff not_Some_eq option.inject)

end
