(* ===== verification/Scheduler.thy ===== *)
theory Scheduler
  imports Capacity_Model Samples Vni
begin

text \<open>
  \<open>shared/controller-api/src/scheduler.rs\<close>: candidates, the hard constraints \<open>feasible\<close> applies,
  the strategies that choose within them, the per-pass booking \<open>spend\<close>, and the ordered
  diagnostic cuts that explain a VM nothing takes.
\<close>

section \<open>Candidates\<close>

datatype candidate_kind = CandNode | CandCluster

record hosted =
  ho_tenant :: "string option"
  ho_labels :: labels

record candidate =
  c_name :: string
  c_connected :: bool
  c_alive :: bool
  c_schedulable :: bool
  c_unhealthy :: "string list"
  c_free :: capacity
  c_catalogue :: "string list"
  c_kind :: candidate_kind
  c_labels :: labels
  c_accepts :: "string list"
  c_hosted :: "hosted list"
  c_machine :: "machine_profile option"

definition hosted_of :: "'j vm \<Rightarrow> hosted" where
  "hosted_of v = \<lparr>ho_tenant = vs_tenant (spec v), ho_labels = md_labels (metadata v)\<rparr>"

definition hosted_on :: "string \<Rightarrow> 'j vm list \<Rightarrow> ('j vm \<Rightarrow> string option) \<Rightarrow> hosted list" where
  "hosted_on on vms bound = map hosted_of (filter (\<lambda>v. bound v = Some on) vms)"

definition selects :: "labels \<Rightarrow> labels \<Rightarrow> bool" where
  "selects selector labels \<longleftrightarrow> list_all (\<lambda>(k, v). map_of labels k = Some v) selector"

fun selector_for :: "'j vm \<Rightarrow> candidate_kind \<Rightarrow> labels" where
  "selector_for v CandNode = vs_node_selector (spec v)"
| "selector_for v CandCluster = vs_cluster_selector (spec v)"

definition collides :: "anti_affinity \<Rightarrow> 'j vm \<Rightarrow> candidate \<Rightarrow> bool" where
  "collides t v c =
     list_ex (\<lambda>h. selects (aa_selector t) (ho_labels h))
       (filter (\<lambda>h. ho_tenant h = vs_tenant (spec v)) (c_hosted c))"

definition is_usable :: "candidate \<Rightarrow> bool" where
  "is_usable c \<longleftrightarrow> c_connected c \<and> c_schedulable c \<and> c_unhealthy c = []"

definition is_alive :: "candidate \<Rightarrow> bool" where
  "is_alive c \<longleftrightarrow> c_alive c \<and> c_schedulable c \<and> c_unhealthy c = []"

section \<open>Capability requests\<close>

type_synonym request = "string \<times> string option"

definition device_requests :: "'j json_ops \<Rightarrow> 'j \<Rightarrow> request list" where
  "device_requests J doc =
     List.map_filter (\<lambda>d. case j_str_field J d ''driver'' of
         None \<Rightarrow> None
       | Some driver \<Rightarrow> Some (driver, j_str_field J d ''profile''))
       (j_array_field J doc ''devices'')"

definition volume_requests :: "'j json_ops \<Rightarrow> 'j \<Rightarrow> request list" where
  "volume_requests J doc =
     List.map_filter (\<lambda>v. case j_str_field J v ''driver'' of
         None \<Rightarrow> None
       | Some driver \<Rightarrow> if driver \<noteq> DEFAULT_VOLUME_DRIVER then Some (VOLUME, Some driver) else None)
       (j_array_field J doc ''volumes'')"

definition overlay_requests :: "'j json_ops \<Rightarrow> 'j \<Rightarrow> request list" where
  "overlay_requests J doc =
     (if list_ex (names_vxlan J) (j_array_field J doc ''nics'') then [(NETWORK, Some VXLAN)] else [])"

definition physnet_requests :: "'j json_ops \<Rightarrow> 'j \<Rightarrow> request list" where
  "physnet_requests J doc =
     map (\<lambda>physnet. (NETWORK, Some (gateway_claim physnet)))
       (remdups_adj
         (List.map_filter (\<lambda>n. if j_is_object J n then physnet_of J n else None)
           (j_array_field J doc ''nics'')))"

definition resource_requests :: "'j json_ops \<Rightarrow> 'j vm \<Rightarrow> request list" where
  "resource_requests J v =
     (let doc = vs_vm (spec v) in
      device_requests J doc @ volume_requests J doc @ overlay_requests J doc
      @ physnet_requests J doc @ [(HYPERVISOR, None)])"

text \<open>\<open>DevicePolicy\<close> is the list of requests.\<close>

definition met_by :: "request list \<Rightarrow> string list \<Rightarrow> bool" where
  "met_by wanted catalogue \<longleftrightarrow> list_all (\<lambda>(driver, profile). offers catalogue driver profile) wanted"

definition unmet :: "request list \<Rightarrow> candidate list \<Rightarrow> string list" where
  "unmet wanted candidates =
     (let usable = filter (\<lambda>c. c_connected c \<and> c_schedulable c) candidates in
      map (\<lambda>(driver, profile). entry driver profile)
        (filter (\<lambda>(driver, profile). \<not> list_ex (\<lambda>c. offers (c_catalogue c) driver profile) usable)
          wanted))"

section \<open>Feasibility and preference\<close>

definition keeps_apart :: "'j vm \<Rightarrow> candidate \<Rightarrow> bool" where
  "keeps_apart v c \<longleftrightarrow>
     \<not> list_ex (\<lambda>t. collides t v c) (filter aa_required (vs_anti_affinity (spec v)))"

definition feasible :: "'j json_ops \<Rightarrow> 'j vm \<Rightarrow> candidate list \<Rightarrow> candidate list" where
  "feasible J v candidates =
     (let wanted = resource_requests J v; sz = wanted_by J v in
      filter (keeps_apart v)
       (filter (\<lambda>c. met_by wanted (c_catalogue c))
        (filter (\<lambda>c. selects (selector_for v (c_kind c)) (c_labels c))
         (filter (\<lambda>c. fits_in sz (c_free c))
          (filter (\<lambda>c. accepts_class (c_accepts c) (vs_class (spec v)))
           (filter is_usable candidates))))))"

definition preferred :: "'j vm \<Rightarrow> candidate list \<Rightarrow> candidate list" where
  "preferred v feas =
     (let soft = filter (\<lambda>t. \<not> aa_required t) (vs_anti_affinity (spec v)) in
      if soft = [] then feas
      else let clean = filter (\<lambda>c. \<not> list_ex (\<lambda>t. collides t v c) soft) feas in
           if clean = [] then feas else clean)"

section \<open>Strategies\<close>

definition first_fit_assign :: "'j json_ops \<Rightarrow> 'j vm \<Rightarrow> candidate list \<Rightarrow> string option" where
  "first_fit_assign J v candidates =
     (case preferred v (feasible J v candidates) of [] \<Rightarrow> None | c # _ \<Rightarrow> Some (c_name c))"

definition busier :: "candidate \<Rightarrow> candidate \<Rightarrow> bool" where
  "busier a b \<longleftrightarrow>
     length (c_hosted b) < length (c_hosted a)
     \<or> (length (c_hosted a) = length (c_hosted b) \<and> c_name b < c_name a)"

definition spread_assign :: "'j json_ops \<Rightarrow> 'j vm \<Rightarrow> candidate list \<Rightarrow> string option" where
  "spread_assign J v candidates =
     map_option c_name (min_by busier (preferred v (feasible J v candidates)))"

type_synonym 'j strategy = "'j vm \<Rightarrow> candidate list \<Rightarrow> string option"

definition into_scheduler :: "'j json_ops \<Rightarrow> string option \<Rightarrow> string + 'j strategy" where
  "into_scheduler J this =
     (case this of
        None \<Rightarrow> Inr (first_fit_assign J)
      | Some s \<Rightarrow>
          if s = ''first-fit'' then Inr (first_fit_assign J)
          else if s = ''spread'' then Inr (spread_assign J)
          else Inl (''scheduler = '' @ str_debug s @ '', expected \"first-fit\" or \"spread\"''))"

section \<open>Booking within a pass\<close>

definition book :: "'j json_ops \<Rightarrow> 'j vm \<Rightarrow> candidate \<Rightarrow> candidate" where
  "book J v c = c\<lparr>c_free := minus_cap (c_free c) (wanted_by J v),
                  c_hosted := c_hosted c @ [hosted_of v]\<rparr>"

text \<open>Only the first candidate of the name is booked.\<close>

fun spend :: "'j json_ops \<Rightarrow> candidate list \<Rightarrow> string \<Rightarrow> 'j vm \<Rightarrow> candidate list" where
  "spend J [] name v = []"
| "spend J (c # cs) name v = (if c_name c = name then book J v c # cs else c # spend J cs name v)"

section \<open>Pending reasons\<close>

datatype pending_reason =
    NoCandidates | NoneUsable | NodeUnhealthy | NoCapacity | ClassRefused | SelectorUnmatched
  | Unserved | Split | AntiAffinityBlocked | VolumeNotReady | NoNodeForVolume | SecretNotReady
  | RoomUnknown

definition pending_reason_all :: "pending_reason list" where
  "pending_reason_all =
     [NoCandidates, NoneUsable, NodeUnhealthy, ClassRefused, NoCapacity, SelectorUnmatched,
      Unserved, Split, AntiAffinityBlocked, VolumeNotReady, NoNodeForVolume, SecretNotReady,
      RoomUnknown]"

fun pending_reason_str :: "pending_reason \<Rightarrow> string" where
  "pending_reason_str NoCandidates = ''no-candidates''"
| "pending_reason_str NoneUsable = ''none-usable''"
| "pending_reason_str NodeUnhealthy = ''node-unhealthy''"
| "pending_reason_str ClassRefused = ''class-refused''"
| "pending_reason_str NoCapacity = ''no-capacity''"
| "pending_reason_str SelectorUnmatched = ''selector-unmatched''"
| "pending_reason_str Unserved = ''unserved-request''"
| "pending_reason_str Split = ''split-request''"
| "pending_reason_str AntiAffinityBlocked = ''anti-affinity''"
| "pending_reason_str VolumeNotReady = ''volume-not-ready''"
| "pending_reason_str SecretNotReady = ''secret-not-ready''"
| "pending_reason_str NoNodeForVolume = ''no-node-for-volume''"
| "pending_reason_str RoomUnknown = ''room-unknown''"

fun index_of :: "'a \<Rightarrow> 'a list \<Rightarrow> nat option" where
  "index_of x [] = None"
| "index_of x (y # ys) = (if x = y then Some 0 else map_option Suc (index_of x ys))"

text \<open>\<open>position(..).expect(..)\<close>: \<open>None\<close> is the panic.\<close>

definition pending_index :: "pending_reason \<Rightarrow> nat option" where
  "pending_index r = index_of r pending_reason_all"

definition category :: "pending_reason \<Rightarrow> vm_reason" where
  "category r = (if r \<in> {VolumeNotReady, SecretNotReady} then VR_NotReady else VR_Unplaced)"

text \<open>\<open>PendingTally\<close>: one 64-bit counter per reason; \<open>fetch_add\<close> wraps.\<close>

type_synonym tally = "64 word list"

definition tally_new :: tally where
  "tally_new = replicate (length pending_reason_all) 0"

definition tally_note :: "tally \<Rightarrow> pending_reason \<Rightarrow> tally option" where
  "tally_note t r = map_option (\<lambda>i. t[i := t ! i + 1]) (pending_index r)"

definition tally_publish :: "tally \<Rightarrow> (string \<times> 64 word) list" where
  "tally_publish t =
     map (\<lambda>r. (pending_reason_str r, case pending_index r of Some i \<Rightarrow> t ! i | None \<Rightarrow> 0))
       pending_reason_all"

section \<open>The diagnostic cuts\<close>

definition wedged :: "candidate list \<Rightarrow> candidate list" where
  "wedged candidates =
     filter (\<lambda>c. c_connected c \<and> c_schedulable c \<and> c_unhealthy c \<noteq> []) candidates"

definition wedged_sentence :: "candidate list \<Rightarrow> string" where
  "wedged_sentence field =
     join '', '' (map (\<lambda>c. c_name c @ '' ('' @ join '', '' (c_unhealthy c) @ '')'') (wedged field))"

type_synonym verdict = "pending_reason \<times> string"

record 'j cut =
  cut_keep :: "'j vm \<Rightarrow> capacity \<Rightarrow> request list \<Rightarrow> candidate \<Rightarrow> bool"
  cut_verdict :: "'j vm \<Rightarrow> capacity \<Rightarrow> request list \<Rightarrow> candidate list \<Rightarrow> verdict"

definition usable_verdict :: "candidate list \<Rightarrow> verdict" where
  "usable_verdict field =
     (if field = [] then (NoCandidates, ''no candidates are known here yet'')
      else let w = wedged_sentence field in
        if w \<noteq> [] then
          (NodeUnhealthy,
           ''every candidate that is up and willing says something is wrong with itself: '' @ w)
        else
          (NoneUsable, ''none of the '' @ dec (length field)
                       @ '' known candidates is both connected and schedulable''))"

definition class_verdict :: "'j vm \<Rightarrow> candidate list \<Rightarrow> verdict" where
  "class_verdict v field =
     (let takers = map (\<lambda>c. c_name c @ '' ('' @ join '', '' (c_accepts c) @ '')'') (filter is_usable field)
      in (ClassRefused, ''no candidate accepts the class '' @ str_debug (vs_class (spec v)) @ '': ''
                        @ join '', '' takers))"

definition roomier :: "capacity \<Rightarrow> capacity \<Rightarrow> bool" where
  "roomier a b \<longleftrightarrow> (mem_mib b, vcpus b) < (mem_mib a, vcpus a)"

definition room_verdict :: "capacity \<Rightarrow> candidate list \<Rightarrow> verdict" where
  "room_verdict sz field =
     (let biggest = unwrap_or capacity_default (max_by roomier (map c_free (filter is_usable field)))
      in (NoCapacity, ''no candidate has room for '' @ dec (unat (vcpus sz)) @ '' vcpu and ''
            @ dec (unat (mem_mib sz)) @ '' MiB; the roomiest has '' @ dec (unat (vcpus biggest))
            @ '' vcpu and '' @ dec (unat (mem_mib biggest)) @ '' MiB free''))"

definition selector_verdict :: "'j vm \<Rightarrow> candidate list \<Rightarrow> verdict" where
  "selector_verdict v field =
     (let kind = (case find is_usable field of Some c \<Rightarrow> c_kind c | None \<Rightarrow> CandNode);
          asked = join '', '' (map (\<lambda>(k, x). k @ ''='' @ x) (selector_for v kind))
      in (SelectorUnmatched, ''no candidate carries the labels this vm selects ['' @ asked @ '']''))"

definition split_verdict :: "request list \<Rightarrow> verdict" where
  "split_verdict wanted =
     (Split, ''no single candidate offers all of [''
        @ join '', '' (map (\<lambda>(d, p). entry d p) wanted)
        @ ''] at once, though each part is served somewhere'')"

definition catalogue_verdict :: "request list \<Rightarrow> candidate list \<Rightarrow> verdict" where
  "catalogue_verdict wanted field =
     (let missing = unmet wanted field in
      if missing = [] then split_verdict wanted
      else (Unserved, ''no connected candidate offers ['' @ join '', '' missing @ '']''))"

definition anti_affinity_verdict :: verdict where
  "anti_affinity_verdict =
     (AntiAffinityBlocked, ''every candidate that would otherwise do already holds a vm this one must stay away from'')"

definition CUTS :: "'j cut list" where
  "CUTS =
     [\<lparr>cut_keep = (\<lambda>_ _ _ _. True), cut_verdict = (\<lambda>_ _ _. usable_verdict)\<rparr>,
      \<lparr>cut_keep = (\<lambda>v _ _ c. accepts_class (c_accepts c) (vs_class (spec v))),
       cut_verdict = (\<lambda>v _ _. class_verdict v)\<rparr>,
      \<lparr>cut_keep = (\<lambda>_ sz _ c. fits_in sz (c_free c)),
       cut_verdict = (\<lambda>_ sz _. room_verdict sz)\<rparr>,
      \<lparr>cut_keep = (\<lambda>v _ _ c. selects (selector_for v (c_kind c)) (c_labels c)),
       cut_verdict = (\<lambda>v _ _. selector_verdict v)\<rparr>,
      \<lparr>cut_keep = (\<lambda>_ _ wanted c. met_by wanted (c_catalogue c)),
       cut_verdict = (\<lambda>_ _ wanted. catalogue_verdict wanted)\<rparr>,
      \<lparr>cut_keep = (\<lambda>v _ _. keeps_apart v), cut_verdict = (\<lambda>_ _ _ _. anti_affinity_verdict)\<rparr>]"

fun walk_cuts ::
  "'j cut list \<Rightarrow> 'j vm \<Rightarrow> capacity \<Rightarrow> request list \<Rightarrow> candidate list \<Rightarrow> verdict" where
  "walk_cuts [] v sz wanted field = split_verdict wanted"
| "walk_cuts (ct # cuts) v sz wanted field =
     (let nxt = filter (\<lambda>c. \<not> is_usable c \<or> cut_keep ct v sz wanted c) field in
      if \<not> list_ex is_usable nxt then cut_verdict ct v sz wanted field
      else walk_cuts cuts v sz wanted nxt)"

definition pending_reason_of :: "'j json_ops \<Rightarrow> 'j vm \<Rightarrow> candidate list \<Rightarrow> verdict" where
  "pending_reason_of J v candidates =
     walk_cuts CUTS v (wanted_by J v) (resource_requests J v) candidates"

definition pending_reason_sentence :: "'j json_ops \<Rightarrow> 'j vm \<Rightarrow> candidate list \<Rightarrow> string" where
  "pending_reason_sentence J v candidates = snd (pending_reason_of J v candidates)"

section \<open>Room on a node\<close>

definition bound_on :: "'j json_ops \<Rightarrow> string \<Rightarrow> 'j vm list \<Rightarrow> capacity" where
  "bound_on J node vms =
     sum_caps (map (wanted_by J) (filter (\<lambda>v. vs_node_name (spec v) = Some node) vms))"

definition free_on ::
  "'j json_ops \<Rightarrow> string \<Rightarrow> node_capacity \<Rightarrow> 'j vm list \<Rightarrow> overcommit \<Rightarrow> capacity" where
  "free_on J node cap vms oc =
     minus_cap (allowance oc \<lparr>vcpus = ncap_vcpus cap, mem_mib = ncap_mem_mib cap\<rparr>)
       (bound_on J node vms)"

definition unplaced_demand :: "'j json_ops \<Rightarrow> 'j vm list \<Rightarrow> capacity list" where
  "unplaced_demand J vms =
     map (wanted_by J) (filter (\<lambda>v. vs_node_name (spec v) = None \<and> \<not> is_deleting v) vms)"

section \<open>Selectors and requests\<close>

text \<open>A selector is a sub-map of the labels.\<close>

lemma selects_iff: "selects sel labels \<longleftrightarrow> (\<forall>(k, v)\<in>set sel. map_of labels k = Some v)"
  by (simp add: selects_def list_all_iff)

lemma selects_map_le: "bm_wf sel \<Longrightarrow> selects sel labels \<longleftrightarrow> map_of sel \<subseteq>\<^sub>m map_of labels"
proof -
  assume "bm_wf sel"
  then have "distinct (map fst sel)" by (rule bm_wf_distinct)
  then have "(k, v) \<in> set sel \<longleftrightarrow> map_of sel k = Some v" for k v
    by (simp add: map_of_eq_Some_iff)
  moreover have "selects sel labels \<longleftrightarrow> (\<forall>k v. (k, v) \<in> set sel \<longrightarrow> map_of labels k = Some v)"
    by (auto simp: selects_iff)
  ultimately have "selects sel labels \<longleftrightarrow> (\<forall>k v. map_of sel k = Some v \<longrightarrow> map_of labels k = Some v)"
    by simp
  also have "\<dots> \<longleftrightarrow> map_of sel \<subseteq>\<^sub>m map_of labels"
    by (auto simp: map_le_def dom_def)
  finally show ?thesis .
qed

lemma selects_empty [simp]: "selects [] labels"
  by (simp add: selects_def)

lemma hypervisor_requested: "(HYPERVISOR, None) \<in> set (resource_requests J v)"
  by (simp add: resource_requests_def Let_def)

lemma met_by_iff: "met_by wanted cat \<longleftrightarrow> (\<forall>(d, p)\<in>set wanted. offers cat d p)"
  by (simp add: met_by_def list_all_iff)

lemma collides_iff:
  "collides t v c \<longleftrightarrow> (\<exists>h\<in>set (c_hosted c). ho_tenant h = vs_tenant (spec v) \<and> selects (aa_selector t) (ho_labels h))"
  by (auto simp: collides_def list_ex_iff)

lemma keeps_apart_iff:
  "keeps_apart v c \<longleftrightarrow> (\<forall>t\<in>set (vs_anti_affinity (spec v)). aa_required t \<longrightarrow> \<not> collides t v c)"
  by (auto simp: keeps_apart_def list_ex_iff)

section \<open>Feasible candidates\<close>

definition demand_met :: "'j json_ops \<Rightarrow> 'j vm \<Rightarrow> candidate \<Rightarrow> bool" where
  "demand_met J v c \<longleftrightarrow>
     accepts_class (c_accepts c) (vs_class (spec v))
     \<and> fits_in (wanted_by J v) (c_free c)
     \<and> selects (selector_for v (c_kind c)) (c_labels c)
     \<and> met_by (resource_requests J v) (c_catalogue c)
     \<and> keeps_apart v c"

lemma feasible_eq: "feasible J v cs = filter (\<lambda>c. is_usable c \<and> demand_met J v c) cs"
  by (auto simp: feasible_def demand_met_def Let_def intro: filter_cong)

lemma in_feasible: "c \<in> set (feasible J v cs) \<longleftrightarrow> c \<in> set cs \<and> is_usable c \<and> demand_met J v c"
  by (auto simp: feasible_eq)

lemma preferred_subset: "set (preferred v feas) \<subseteq> set feas"
  by (auto simp: preferred_def Let_def)

lemma preferred_Nil [simp]: "preferred v feas = [] \<longleftrightarrow> feas = []"
  by (auto simp: preferred_def Let_def)

lemma preferred_of_Nil [simp]: "preferred v [] = []"
  by (simp add: preferred_def Let_def)

text \<open>A soft term is honoured whenever some feasible candidate honours all of them.\<close>

lemma preferred_soft:
  assumes "c \<in> set (preferred v feas)" and "t \<in> set (vs_anti_affinity (spec v))" and "\<not> aa_required t"
    and "c' \<in> set feas"
    and "\<And>t. t \<in> set (vs_anti_affinity (spec v)) \<Longrightarrow> \<not> aa_required t \<Longrightarrow> \<not> collides t v c'"
  shows "\<not> collides t v c"
proof -
  let ?soft = "filter (\<lambda>t. \<not> aa_required t) (vs_anti_affinity (spec v))"
  let ?clean = "filter (\<lambda>c. \<not> list_ex (\<lambda>t. collides t v c) ?soft) feas"
  have "c' \<in> set ?clean" using assms(4,5) by (auto simp: list_ex_iff)
  then have "?clean \<noteq> []" by (metis empty_iff empty_set)
  moreover have "?soft \<noteq> []" using assms(2,3) by (auto simp: filter_empty_conv)
  ultimately have "c \<in> set ?clean"
    using assms(1) by (simp add: preferred_def Let_def)
  then show ?thesis using assms(2,3) by (auto simp: list_ex_iff)
qed

section \<open>The contract of a strategy\<close>

text \<open>
  What both tiers rely on: a strategy chooses among the feasible candidates, and chooses one
  whenever there is one. Placement, below, is proved once against this contract.
\<close>

locale scheduler =
  fixes J :: "'j json_ops" and assign :: "'j strategy"
  assumes assign_feasible: "assign v cs = Some n \<Longrightarrow> \<exists>c\<in>set (feasible J v cs). c_name c = n"
    and assign_total: "assign v cs = None \<longleftrightarrow> feasible J v cs = []"
begin

lemma assign_usable:
  "assign v cs = Some n \<Longrightarrow> \<exists>c\<in>set cs. c_name c = n \<and> is_usable c \<and> demand_met J v c"
  using assign_feasible [of v cs n] by (auto simp: in_feasible)

lemma assign_unique:
  assumes "assign v cs = Some n" and "distinct (map c_name cs)" and "c \<in> set cs" and "c_name c = n"
  shows "is_usable c \<and> demand_met J v c"
proof -
  obtain c' where "c' \<in> set cs" "c_name c' = n" "is_usable c'" "demand_met J v c'"
    using assign_usable [OF assms(1)] by blast
  moreover from this assms have "c' = c"
    by (metis distinct_map inj_on_eq_iff)
  ultimately show ?thesis by simp
qed

end

lemma first_fit_Some:
  assumes "first_fit_assign J v cs = Some n"
  shows "\<exists>c\<in>set (preferred v (feasible J v cs)). c_name c = n"
  using assms by (auto simp: first_fit_assign_def split: list.splits)

interpretation first_fit: scheduler J "first_fit_assign J"
proof
  show "\<exists>c\<in>set (feasible J v cs). c_name c = n" if "first_fit_assign J v cs = Some n" for v cs n
    using first_fit_Some [OF that] preferred_subset by blast
  show "first_fit_assign J v cs = None \<longleftrightarrow> feasible J v cs = []" for v cs
  proof (cases "preferred v (feasible J v cs)")
    case Nil
    then show ?thesis by (simp add: first_fit_assign_def)
  next
    case (Cons c rest)
    then have "feasible J v cs \<noteq> []" using preferred_Nil [of v "feasible J v cs"] by simp
    with Cons show ?thesis by (simp add: first_fit_assign_def)
  qed
qed

interpretation busier: comparator busier
  by unfold_locales (auto simp: busier_def)

interpretation spread: scheduler J "spread_assign J"
proof
  show "\<exists>c\<in>set (feasible J v cs). c_name c = n" if "spread_assign J v cs = Some n" for v cs n
    using that busier.min_by_min preferred_subset by (fastforce simp: spread_assign_def)
  show "spread_assign J v cs = None \<longleftrightarrow> feasible J v cs = []" for v cs
    by (simp add: spread_assign_def)
qed

lemma spread_minimal:
  assumes "spread_assign J v cs = Some n" and "c' \<in> set (preferred v (feasible J v cs))"
  shows "\<exists>c\<in>set (preferred v (feasible J v cs)). c_name c = n \<and> length (c_hosted c) \<le> length (c_hosted c')"
proof -
  obtain c where c: "min_by busier (preferred v (feasible J v cs)) = Some c" "c_name c = n"
    using assms(1) by (auto simp: spread_assign_def)
  from busier.min_by_min [OF c(1)] assms(2) have "c \<in> set (preferred v (feasible J v cs))" "\<not> busier c c'"
    by auto
  then show ?thesis using c(2) by (auto simp: busier_def)
qed

section \<open>Booking\<close>

lemma book_simps [simp]:
  "c_name (book J v c) = c_name c"
  "c_free (book J v c) = minus_cap (c_free c) (wanted_by J v)"
  "c_hosted (book J v c) = c_hosted c @ [hosted_of v]"
  by (simp_all add: book_def)

lemma spend_names [simp]: "map c_name (spend J cs n v) = map c_name cs"
  by (induction cs) auto

lemma spend_distinct:
  "distinct (map c_name cs) \<Longrightarrow>
   spend J cs n v = map (\<lambda>c. if c_name c = n then book J v c else c) cs"
proof (induction cs)
  case (Cons c cs)
  have "map (\<lambda>c. if c_name c = n then book J v c else c) cs = cs" if "n \<notin> c_name ` set cs"
    using that by (intro map_idI) auto
  with Cons show ?case by auto
qed simp

text \<open>Booking never opens room: what fits after it fitted before, and nothing else about a candidate
  changes.\<close>

lemma spend_fits:
  "c' \<in> set (spend J cs n v) \<Longrightarrow>
   \<exists>c\<in>set cs. c_name c' = c_name c \<and> fits_in (c_free c') (c_free c)
     \<and> set (c_hosted c) \<subseteq> set (c_hosted c')"
proof (induction cs)
  case (Cons c cs)
  then show ?case
    using minus_cap_fits [of "c_free c" "wanted_by J v"] by (auto split: if_splits)
qed simp

text \<open>The VM that was just booked is one the next VM's anti-affinity sees.\<close>

lemma spend_hosted:
  assumes "distinct (map c_name cs)" and "c \<in> set (spend J cs n v)" and "c_name c = n"
  shows "hosted_of v \<in> set (c_hosted c)"
proof -
  have "c \<in> (\<lambda>c. if c_name c = n then book J v c else c) ` set cs"
    using assms(2) by (simp add: spend_distinct [OF assms(1)])
  then obtain c0 where c0: "c = (if c_name c0 = n then book J v c0 else c0)"
    by (rule imageE)
  show ?thesis
  proof (cases "c_name c0 = n")
    case True
    then show ?thesis using c0 by simp
  next
    case False
    then show ?thesis using c0 assms(3) by simp
  qed
qed

section \<open>What a pending reason means\<close>

definition cut_field :: "(candidate \<Rightarrow> bool) \<Rightarrow> candidate list \<Rightarrow> candidate list" where
  "cut_field keep field = filter (\<lambda>c. \<not> is_usable c \<or> keep c) field"

lemma cut_field_ex: "list_ex is_usable (cut_field keep field) \<longleftrightarrow> (\<exists>c\<in>set field. is_usable c \<and> keep c)"
  by (auto simp: cut_field_def list_ex_iff)

lemma cut_field_bex:
  "(\<exists>c\<in>set (cut_field keep field). is_usable c \<and> P c) \<longleftrightarrow> (\<exists>c\<in>set field. is_usable c \<and> keep c \<and> P c)"
  by (auto simp: cut_field_def)

lemma walk_cuts_Cons:
  "walk_cuts (ct # cuts) v sz wanted field =
     (if \<exists>c\<in>set field. is_usable c \<and> cut_keep ct v sz wanted c
      then walk_cuts cuts v sz wanted (cut_field (cut_keep ct v sz wanted) field)
      else cut_verdict ct v sz wanted field)"
proof -
  have "walk_cuts (ct # cuts) v sz wanted field =
      (if \<not> list_ex is_usable (cut_field (cut_keep ct v sz wanted) field)
       then cut_verdict ct v sz wanted field
       else walk_cuts cuts v sz wanted (cut_field (cut_keep ct v sz wanted) field))"
    by (simp only: walk_cuts.simps Let_def cut_field_def)
  then show ?thesis unfolding cut_field_ex by (auto split: if_splits)
qed

text \<open>The candidates that get past the questions, one after the other: usable, accepting the class,
  with room, carrying the labels, offering the capabilities; \<open>demand_met\<close> adds the last one,
  holding nobody to stay away from.\<close>

definition past_class :: "'j vm \<Rightarrow> candidate \<Rightarrow> bool" where
  "past_class v c \<longleftrightarrow> is_usable c \<and> accepts_class (c_accepts c) (vs_class (spec v))"

definition past_room :: "'j json_ops \<Rightarrow> 'j vm \<Rightarrow> candidate \<Rightarrow> bool" where
  "past_room J v c \<longleftrightarrow> past_class v c \<and> fits_in (wanted_by J v) (c_free c)"

definition past_labels :: "'j json_ops \<Rightarrow> 'j vm \<Rightarrow> candidate \<Rightarrow> bool" where
  "past_labels J v c \<longleftrightarrow> past_room J v c \<and> selects (selector_for v (c_kind c)) (c_labels c)"

definition past_catalogue :: "'j json_ops \<Rightarrow> 'j vm \<Rightarrow> candidate \<Rightarrow> bool" where
  "past_catalogue J v c \<longleftrightarrow> past_labels J v c \<and> met_by (resource_requests J v) (c_catalogue c)"

lemmas past_defs = past_class_def past_room_def past_labels_def past_catalogue_def

lemma feasible_past: "feasible J v cs = [] \<longleftrightarrow> (\<forall>c\<in>set cs. \<not> (past_catalogue J v c \<and> keeps_apart v c))"
  by (auto simp: feasible_eq filter_empty_conv demand_met_def past_defs)

lemma reason_fst:
  "fst (class_verdict v f) = ClassRefused" "fst (room_verdict sz f) = NoCapacity"
  "fst (selector_verdict v f) = SelectorUnmatched" "fst (split_verdict w) = Split"
  "fst anti_affinity_verdict = AntiAffinityBlocked"
  "fst (catalogue_verdict w f) = (if unmet w f = [] then Split else Unserved)"
  by (simp_all add: class_verdict_def room_verdict_def selector_verdict_def split_verdict_def
      anti_affinity_verdict_def catalogue_verdict_def Let_def)

lemma join_Nil: "join sep xs = [] \<longleftrightarrow> xs = [] \<or> xs = [[]] \<or> (sep = [] \<and> (\<forall>x\<in>set xs. x = []))"
  by (induction sep xs rule: join.induct) auto

lemma wedged_sentence_Nil: "wedged_sentence field = [] \<longleftrightarrow> wedged field = []"
  by (auto simp: wedged_sentence_def join_Nil)

lemma cut_fields:
  "cut_field (\<lambda>c. selects (selector_for v (c_kind c)) (c_labels c))
     (cut_field (\<lambda>c. fits_in (wanted_by J v) (c_free c))
       (cut_field (\<lambda>c. accepts_class (c_accepts c) (vs_class (spec v)))
         (cut_field (\<lambda>_. True) cs))) = filter (\<lambda>c. is_usable c \<longrightarrow> past_labels J v c) cs"
  by (auto simp: cut_field_def past_defs intro!: filter_cong)

lemma pending_reason_walk:
  "fst (pending_reason_of J v cs) =
     (if \<not> (\<exists>c\<in>set cs. is_usable c) then fst (usable_verdict cs)
      else if \<not> (\<exists>c\<in>set cs. past_class v c) then ClassRefused
      else if \<not> (\<exists>c\<in>set cs. past_room J v c) then NoCapacity
      else if \<not> (\<exists>c\<in>set cs. past_labels J v c) then SelectorUnmatched
      else if \<not> (\<exists>c\<in>set cs. past_catalogue J v c) then
        (if unmet (resource_requests J v) (filter (\<lambda>c. is_usable c \<longrightarrow> past_labels J v c) cs) = []
         then Split else Unserved)
      else if feasible J v cs = [] then AntiAffinityBlocked
      else Split)"
proof -
  have past:
    "(\<exists>c\<in>set cs. past_class v c) = (\<exists>c\<in>set cs. is_usable c \<and> accepts_class (c_accepts c) (vs_class (spec v)))"
    "(\<exists>c\<in>set cs. past_room J v c) = (\<exists>c\<in>set cs. is_usable c \<and> accepts_class (c_accepts c) (vs_class (spec v))
       \<and> fits_in (wanted_by J v) (c_free c))"
    "(\<exists>c\<in>set cs. past_labels J v c) = (\<exists>c\<in>set cs. is_usable c \<and> accepts_class (c_accepts c) (vs_class (spec v))
       \<and> fits_in (wanted_by J v) (c_free c) \<and> selects (selector_for v (c_kind c)) (c_labels c))"
    "(\<exists>c\<in>set cs. past_catalogue J v c) = (\<exists>c\<in>set cs. is_usable c \<and> accepts_class (c_accepts c) (vs_class (spec v))
       \<and> fits_in (wanted_by J v) (c_free c) \<and> selects (selector_for v (c_kind c)) (c_labels c)
       \<and> met_by (resource_requests J v) (c_catalogue c))"
    "(feasible J v cs = []) = (\<not> (\<exists>c\<in>set cs. is_usable c \<and> accepts_class (c_accepts c) (vs_class (spec v))
       \<and> fits_in (wanted_by J v) (c_free c) \<and> selects (selector_for v (c_kind c)) (c_labels c)
       \<and> met_by (resource_requests J v) (c_catalogue c) \<and> keeps_apart v c))"
    by (simp_all only: past_defs feasible_past conj_assoc) blast
  have swap: "(if \<not> P then x else y) = (if P then y else x)" for P and x y :: pending_reason
    by simp
  show ?thesis
    unfolding pending_reason_of_def CUTS_def walk_cuts_Cons cut.simps cut_field_bex
      walk_cuts.simps(1) if_distrib [where f = fst] reason_fst simp_thms past swap
    unfolding cut_fields by (rule refl)
qed

lemma usable_verdict_fst:
  "fst (usable_verdict cs) =
     (if cs = [] then NoCandidates else if wedged cs \<noteq> [] then NodeUnhealthy else NoneUsable)"
  by (simp add: usable_verdict_def Let_def wedged_sentence_Nil)

lemma past_chain:
  "past_catalogue J v c \<Longrightarrow> past_labels J v c" "past_labels J v c \<Longrightarrow> past_room J v c"
  "past_room J v c \<Longrightarrow> past_class v c" "past_class v c \<Longrightarrow> is_usable c"
  by (simp_all add: past_defs)

lemma unmet_Nil:
  "unmet wanted cs = [] \<longleftrightarrow>
     (\<forall>(d, p)\<in>set wanted. \<exists>c\<in>set cs. c_connected c \<and> c_schedulable c \<and> offers (c_catalogue c) d p)"
  by (fastforce simp: unmet_def Let_def filter_empty_conv list_ex_iff)

lemma pending_index_total: "\<exists>i<length pending_reason_all. pending_index r = Some i \<and> pending_reason_all ! i = r"
  by (cases r) (simp_all add: pending_index_def pending_reason_all_def)

interpretation pending_words: closed_words pending_reason_all pending_reason_str
proof
  show "x \<in> set pending_reason_all" for x
    by (cases x) (simp_all add: pending_reason_all_def)
  show "distinct (map pending_reason_str pending_reason_all)"
    by (simp add: pending_reason_all_def)
qed

text \<open>Counting a reason moves that reason's number by one and no other.\<close>

lemma tally_note_publish:
  assumes "length t = length pending_reason_all"
  shows "\<exists>t'. tally_note t r = Some t' \<and> length t' = length t
    \<and> (\<forall>r'. map_of (tally_publish t') (pending_reason_str r') =
          Some (the (map_of (tally_publish t) (pending_reason_str r')) + (if r' = r then 1 else 0)))"
proof -
  obtain i where i: "i < length pending_reason_all" "pending_index r = Some i" "pending_reason_all ! i = r"
    using pending_index_total by blast
  have look: "map_of (tally_publish u) (pending_reason_str r') = Some (u ! the (pending_index r'))" for u r'
  proof -
    obtain k where "pending_index r' = Some k" using pending_index_total by blast
    have "(pending_reason_str r', u ! k) \<in> set (tally_publish u)"
      unfolding tally_publish_def set_map
      by (rule image_eqI [of _ _ r']) (simp_all add: \<open>pending_index r' = Some k\<close> pending_words.all_UNIV)
    moreover have "distinct (map fst (tally_publish u))"
      using pending_words.distinct_words by (simp add: tally_publish_def o_def)
    ultimately show ?thesis
      using \<open>pending_index r' = Some k\<close> by simp
  qed
  have other: "the (pending_index r') \<noteq> i" if "r' \<noteq> r" for r'
    using pending_index_total [of r'] i that by auto
  show ?thesis
    using i assms other by (auto simp: tally_note_def look nth_list_update)
qed

section \<open>What the scheduler promises\<close>

lemma into_scheduler_cases:
  assumes "into_scheduler J this = Inr assign"
  obtains "assign = first_fit_assign J" | "assign = spread_assign J"
  using assms by (auto simp: into_scheduler_def split: option.splits if_splits)

lemma into_scheduler_contract: "into_scheduler J this = Inr assign \<Longrightarrow> scheduler J assign"
  by (erule into_scheduler_cases) (simp_all add: first_fit.scheduler_axioms spread.scheduler_axioms)

definition sample_candidate :: "string \<Rightarrow> u32 \<Rightarrow> u64 \<Rightarrow> candidate" where
  "sample_candidate name cpus mem =
     \<lparr>c_name = name, c_connected = True, c_alive = True, c_schedulable = True, c_unhealthy = [],
      c_free = \<lparr>vcpus = cpus, mem_mib = mem\<rparr>, c_catalogue = [HYPERVISOR], c_kind = CandNode, c_labels = [],
      c_accepts = [], c_hosted = [], c_machine = None\<rparr>"

lemma sample_wanted:
  "cpus \<le> 4294967295 \<Longrightarrow>
     wanted_by tree_ops (sample_vm name cpus mem) = \<lparr>vcpus = ucast cpus, mem_mib = mem\<rparr>"
  by (simp add: wanted_by_def wanted_by_spec_def json_number_def tree_ops_def sample_defs
      unsigned_minus_1_eq_mask mask_eq_exp_minus_1)

lemma sample_scheduler: "into_scheduler J None = Inr (first_fit_assign J)"
  by (simp add: into_scheduler_def)

text \<open>C14: Whatever strategy a configuration names, it places a guest exactly when some candidate satisfies
  all hard constraints, and the candidate it names is usable and satisfies them: it accepts the
  class, has the room, carries the selected labels, offers every requested capability, and holds
  nobody the guest must stay away from.\<close>

theorem strategies_respect_constraints:
  assumes "into_scheduler J this = Inr assign"
  shows "(assign v cs = None \<longleftrightarrow> (\<forall>c\<in>set cs. \<not> (is_usable c \<and> demand_met J v c)))
    \<and> (\<forall>n. assign v cs = Some n \<longrightarrow> (\<exists>c\<in>set cs. c_name c = n \<and> is_usable c \<and> demand_met J v c))"
  using scheduler.assign_usable [OF into_scheduler_contract [OF assms]]
    scheduler.assign_total [OF into_scheduler_contract [OF assms], of v cs]
  by (auto simp: feasible_eq filter_empty_conv)

lemma sample_takes:
  "cpus \<le> 4294967295 \<Longrightarrow> ucast cpus \<le> cpus' \<Longrightarrow> mem \<le> mem' \<Longrightarrow>
   is_usable (sample_candidate n cpus' mem')
   \<and> demand_met tree_ops (sample_vm name cpus mem) (sample_candidate n cpus' mem')"
  by (simp add: demand_met_def is_usable_def sample_candidate_def sample_wanted fits_in_def)
    (simp add: sample_defs accepts_class_def vs_class_def keeps_apart_def met_by_def resource_requests_def
      device_requests_def volume_requests_def overlay_requests_def physnet_requests_def j_array_field_def
      tree_ops_def)

theorem strategies_respect_constraints_witness:
  "\<exists>n. first_fit_assign tree_ops (sample_vm ''a'' 2 512) [sample_candidate ''n1'' 4 1024] = Some n"
  using strategies_respect_constraints [OF sample_scheduler [of tree_ops], of "sample_vm ''a'' 2 512"
      "[sample_candidate ''n1'' 4 1024]"] sample_takes [of 2 4 512 1024 "''n1''" "''a''"]
  by auto

text \<open>C12: When nothing takes a guest, the verdict that is published names the first question that nobody got
  past: some candidate got past all the earlier questions and none of those got past this one. Of
  the two verdicts on capabilities, Split says that each request is offered by a candidate that is
  up and willing, but no candidate that is left offers all. Unserved says less than its
  documentation, which reads "offered by nobody at all": there is a request such that whoever is up,
  willing and offers it was set aside by an earlier question, the class, the room or the labels. A
  candidate that was set aside has no say in it: adding one, whatever it offers, leaves the verdict
  Unserved.\<close>

theorem verdict_names_the_failing_question:
  assumes "feasible J v cs = []"
  shows "case fst (pending_reason_of J v cs) of
      NoCandidates \<Rightarrow> cs = []
    | NodeUnhealthy \<Rightarrow> (\<forall>c\<in>set cs. \<not> is_usable c) \<and> (\<exists>c\<in>set cs. c_connected c \<and> c_schedulable c)
    | NoneUsable \<Rightarrow> cs \<noteq> [] \<and> (\<forall>c\<in>set cs. \<not> (c_connected c \<and> c_schedulable c))
    | ClassRefused \<Rightarrow> (\<exists>c\<in>set cs. is_usable c)
        \<and> (\<forall>c\<in>set cs. is_usable c \<longrightarrow> \<not> accepts_class (c_accepts c) (vs_class (spec v)))
    | NoCapacity \<Rightarrow> (\<exists>c\<in>set cs. past_class v c)
        \<and> (\<forall>c\<in>set cs. past_class v c \<longrightarrow> \<not> fits_in (wanted_by J v) (c_free c))
    | SelectorUnmatched \<Rightarrow> (\<exists>c\<in>set cs. past_room J v c)
        \<and> (\<forall>c\<in>set cs. past_room J v c \<longrightarrow> \<not> selects (selector_for v (c_kind c)) (c_labels c))
    | Unserved \<Rightarrow> (\<exists>c\<in>set cs. past_labels J v c)
        \<and> (\<exists>(d, p)\<in>set (resource_requests J v). \<forall>c\<in>set cs.
             c_connected c \<and> c_schedulable c \<and> offers (c_catalogue c) d p \<longrightarrow> is_usable c \<and> \<not> past_labels J v c)
        \<and> (\<forall>f. is_usable f \<and> \<not> past_labels J v f \<longrightarrow> fst (pending_reason_of J v (f # cs)) = Unserved)
    | Split \<Rightarrow> (\<exists>c\<in>set cs. past_labels J v c)
        \<and> (\<forall>c\<in>set cs. past_labels J v c \<longrightarrow> \<not> met_by (resource_requests J v) (c_catalogue c))
        \<and> (\<forall>(d, p)\<in>set (resource_requests J v).
             \<exists>c\<in>set cs. c_connected c \<and> c_schedulable c \<and> offers (c_catalogue c) d p)
    | AntiAffinityBlocked \<Rightarrow> (\<exists>c\<in>set cs. past_catalogue J v c)
        \<and> (\<forall>c\<in>set cs. past_catalogue J v c \<longrightarrow> \<not> keeps_apart v c)
    | _ \<Rightarrow> False"
proof -
  let ?left = "filter (\<lambda>c. is_usable c \<longrightarrow> past_labels J v c) cs"
  have stuck: "\<forall>c\<in>set cs. past_catalogue J v c \<longrightarrow> \<not> keeps_apart v c"
    using assms by (auto simp: feasible_past)
  have served: "\<forall>(d, p)\<in>set (resource_requests J v). \<exists>c\<in>set cs. c_connected c \<and> c_schedulable c \<and> offers (c_catalogue c) d p"
    if "unmet (resource_requests J v) ?left = []"
    using that unfolding unmet_Nil by fastforce
  have unserved: "\<exists>(d, p)\<in>set (resource_requests J v). \<forall>c\<in>set cs.
      c_connected c \<and> c_schedulable c \<and> offers (c_catalogue c) d p \<longrightarrow> is_usable c \<and> \<not> past_labels J v c"
    if "unmet (resource_requests J v) ?left \<noteq> []"
    using that unfolding unmet_Nil by fastforce
  have wedged: "wedged cs = [] \<longleftrightarrow> (\<forall>c\<in>set cs. c_connected c \<and> c_schedulable c \<longrightarrow> is_usable c)"
    by (auto simp: wedged_def filter_empty_conv is_usable_def)
  show ?thesis
    unfolding pending_reason_walk usable_verdict_fst wedged
    using assms stuck served unserved by (simp add: past_defs if_split) blast
qed

theorem verdict_names_the_failing_question_witness:
  "\<exists>c\<in>set [sample_candidate ''n1'' 4 1024]. past_class (sample_vm ''a'' 2 2048) c"
proof -
  have v: "wanted_by tree_ops (sample_vm ''a'' 2 2048) = \<lparr>vcpus = 2, mem_mib = 2048\<rparr>"
    by (simp add: sample_wanted)
  have "feasible tree_ops (sample_vm ''a'' 2 2048) [sample_candidate ''n1'' 4 1024] = []"
    by (simp add: feasible_eq demand_met_def fits_in_def v sample_candidate_def)
  moreover have "fst (pending_reason_of tree_ops (sample_vm ''a'' 2 2048) [sample_candidate ''n1'' 4 1024]) = NoCapacity"
    unfolding pending_reason_walk
    by (simp add: past_defs fits_in_def v sample_candidate_def is_usable_def accepts_class_def)
  ultimately show ?thesis
    using verdict_names_the_failing_question [of tree_ops "sample_vm ''a'' 2 2048" "[sample_candidate ''n1'' 4 1024]"]
    by simp
qed

text \<open>C37: The spreading strategy balances: among the candidates it prefers, it takes one that hosts the
  fewest guests, and of those the one whose name comes first. A candidate that violates a soft
  anti-affinity term is taken only when no feasible candidate honours all of them.\<close>

theorem spread_takes_the_least_loaded:
  assumes "spread_assign J v cs = Some n"
  shows "\<exists>c\<in>set (feasible J v cs). c_name c = n
    \<and> (\<forall>c'\<in>set (preferred v (feasible J v cs)).
         length (c_hosted c) < length (c_hosted c')
         \<or> length (c_hosted c) = length (c_hosted c') \<and> n \<le> c_name c')
    \<and> ((\<exists>t\<in>set (vs_anti_affinity (spec v)). \<not> aa_required t \<and> collides t v c) \<longrightarrow>
         (\<forall>c'\<in>set (feasible J v cs). \<exists>t\<in>set (vs_anti_affinity (spec v)). \<not> aa_required t \<and> collides t v c'))"
proof -
  obtain c where c: "min_by busier (preferred v (feasible J v cs)) = Some c" "c_name c = n"
    using assms by (auto simp: spread_assign_def)
  from busier.min_by_min [OF c(1)]
  have m: "c \<in> set (preferred v (feasible J v cs))"
    and least: "\<forall>c'\<in>set (preferred v (feasible J v cs)). \<not> busier c c'" by auto
  have "\<forall>c'\<in>set (preferred v (feasible J v cs)). length (c_hosted c) < length (c_hosted c')
      \<or> length (c_hosted c) = length (c_hosted c') \<and> n \<le> c_name c'"
    using least c(2) by (force simp: busier_def not_less)
  moreover have "\<exists>t\<in>set (vs_anti_affinity (spec v)). \<not> aa_required t \<and> collides t v c'"
    if "\<exists>t\<in>set (vs_anti_affinity (spec v)). \<not> aa_required t \<and> collides t v c" "c' \<in> set (feasible J v cs)" for c'
    using that preferred_soft [OF m _ _ that(2)] by blast
  ultimately show ?thesis using m c(2) preferred_subset by blast
qed

theorem spread_takes_the_least_loaded_witness:
  "\<exists>c\<in>set (feasible tree_ops (sample_vm ''a'' 2 512) [sample_candidate ''n2'' 4 1024, sample_candidate ''n1'' 4 1024]).
     c_name c = ''n1''"
proof -
  let ?v = "sample_vm ''a'' 2 512" and ?cs = "[sample_candidate ''n2'' 4 1024, sample_candidate ''n1'' 4 1024]"
  have "feasible tree_ops ?v ?cs = ?cs"
    using sample_takes [of 2 4 512 1024 _ "''a''"] by (simp add: feasible_eq)
  then have "spread_assign tree_ops ?v ?cs = Some ''n1''"
    by (simp add: spread_assign_def preferred_def sample_defs busier_def sample_candidate_def)
  from spread_takes_the_least_loaded [OF this] show ?thesis by blast
qed

end
