(* ===== verification/Node_Rooms.thy ===== *)
theory Node_Rooms
  imports Scheduler
begin

text \<open>
  The cloud's view of one cluster's nodes (\<open>scheduler.rs\<close>, \<open>NodeDemand\<close>, \<open>NodeRoom\<close>,
  \<open>node_rooms\<close>, \<open>roomiest\<close>, \<open>narrow_allowed\<close>): whether one node of the cluster takes a VM, and
  what is left for the next one.
\<close>

record node_room =
  nr_node :: node_summary
  nr_room :: capacity

definition room_reported :: "node_summary \<Rightarrow> overcommit \<Rightarrow> node_room" where
  "room_reported n oc =
     \<lparr>nr_node = n,
      nr_room = minus_cap (allowance oc \<lparr>vcpus = sm_vcpus n, mem_mib = sm_mem_mib n\<rparr>)
                  \<lparr>vcpus = sm_bound_vcpus n, mem_mib = sm_bound_mem_mib n\<rparr>\<rparr>"

definition room_takes :: "node_room \<Rightarrow> capacity \<Rightarrow> bool" where
  "room_takes r sz \<longleftrightarrow> sm_usable (nr_node r) \<and> fits_in sz (nr_room r)"

text \<open>\<open>max_by\<close> over memory, then processors, then the smaller name.\<close>

definition room_greater :: "nat \<times> node_room \<Rightarrow> nat \<times> node_room \<Rightarrow> bool" where
  "room_greater = (\<lambda>(_, a) (_, b).
     (mem_mib (nr_room b), vcpus (nr_room b)) < (mem_mib (nr_room a), vcpus (nr_room a))
     \<or> ((mem_mib (nr_room a), vcpus (nr_room a)) = (mem_mib (nr_room b), vcpus (nr_room b))
         \<and> sm_name (nr_node a) < sm_name (nr_node b)))"

definition roomiest :: "node_room list \<Rightarrow> capacity \<Rightarrow> (node_room \<Rightarrow> bool) \<Rightarrow> nat option" where
  "roomiest rooms sz wants =
     map_option fst
       (max_by room_greater (filter (\<lambda>(_, r). room_takes r sz \<and> wants r) (enumerate 0 rooms)))"

definition take_off :: "node_room list \<Rightarrow> nat \<Rightarrow> capacity \<Rightarrow> node_room list" where
  "take_off rooms at sz = rooms[at := (rooms ! at)\<lparr>nr_room := minus_cap (nr_room (rooms ! at)) sz\<rparr>]"

definition node_rooms :: "node_summary list \<Rightarrow> overcommit \<Rightarrow> capacity list \<Rightarrow> node_room list" where
  "node_rooms nodes oc unplaced =
     foldl (\<lambda>rooms sz. case roomiest rooms sz (\<lambda>_. True) of Some at \<Rightarrow> take_off rooms at sz | None \<Rightarrow> rooms)
       (map (\<lambda>n. room_reported n oc) nodes) unplaced"

record node_demand =
  nd_selector :: labels
  nd_allowed :: "string list option"
  nd_size :: capacity
  nd_class :: string

definition demand_wants :: "node_demand \<Rightarrow> node_summary \<Rightarrow> bool" where
  "demand_wants d n \<longleftrightarrow>
     selects (nd_selector d) (sm_labels n)
     \<and> (case nd_allowed d of None \<Rightarrow> True | Some allowed \<Rightarrow> sm_name n \<in> set allowed)
     \<and> accepts_class (sm_accepts n) (nd_class d)"

definition node_for :: "node_demand \<Rightarrow> node_room list \<Rightarrow> nat option" where
  "node_for d rooms = roomiest rooms (nd_size d) (\<lambda>r. demand_wants d (nr_node r))"

definition met_by_a_node :: "node_demand \<Rightarrow> node_room list \<Rightarrow> bool" where
  "met_by_a_node d rooms \<longleftrightarrow> node_for d rooms \<noteq> None"

definition debit :: "node_demand \<Rightarrow> node_room list \<Rightarrow> node_room list \<times> bool" where
  "debit d rooms =
     (case node_for d rooms of
        None \<Rightarrow> (rooms, False)
      | Some at \<Rightarrow> (take_off rooms at (nd_size d), True))"

definition debit_each :: "node_demand \<Rightarrow> node_room list \<Rightarrow> node_room list" where
  "debit_each d rooms =
     map (\<lambda>r. if room_takes r (nd_size d) \<and> demand_wants d (nr_node r)
              then r\<lparr>nr_room := minus_cap (nr_room r) (nd_size d)\<rparr> else r) rooms"

fun narrow_allowed :: "string list option \<Rightarrow> string list option \<Rightarrow> string list option" where
  "narrow_allowed None nxt = nxt"
| "narrow_allowed (Some cur) None = Some cur"
| "narrow_allowed (Some cur) (Some nxt) = Some (filter (\<lambda>c. c \<in> set nxt) cur)"

section \<open>The roomiest node\<close>

interpretation rooms: comparator room_greater
proof
  show "room_greater x y \<Longrightarrow> \<not> room_greater y x" for x y
    by (cases x; cases y) (auto simp: room_greater_def dest: less_not_sym)
  show "\<not> room_greater x y \<Longrightarrow> \<not> room_greater y z \<Longrightarrow> \<not> room_greater x z" for x y z
    by (cases x; cases y; cases z) (auto simp: room_greater_def not_less)
qed

lemma in_enumerate0: "(i, x) \<in> set (enumerate 0 xs) \<longleftrightarrow> i < length xs \<and> x = xs ! i"
  by (auto simp: in_set_enumerate_eq)

lemma roomiest_None:
  "roomiest rooms sz wants = None \<longleftrightarrow> (\<forall>r\<in>set rooms. \<not> (room_takes r sz \<and> wants r))"
proof -
  have "roomiest rooms sz wants = None \<longleftrightarrow>
      (\<forall>p\<in>set (enumerate 0 rooms). \<not> (room_takes (snd p) sz \<and> wants (snd p)))"
    by (simp add: roomiest_def filter_empty_conv split_beta)
  also have "\<dots> \<longleftrightarrow> (\<forall>r\<in>set (map snd (enumerate 0 rooms)). \<not> (room_takes r sz \<and> wants r))"
    by (simp only: set_map ball_simps)
  finally show ?thesis by (simp only: map_snd_enumerate)
qed

lemma roomiest_Some:
  assumes "roomiest rooms sz wants = Some at"
  shows "at < length rooms" and "room_takes (rooms ! at) sz" and "wants (rooms ! at)"
    and "i < length rooms \<Longrightarrow> room_takes (rooms ! i) sz \<Longrightarrow> wants (rooms ! i) \<Longrightarrow>
         (mem_mib (nr_room (rooms ! i)), vcpus (nr_room (rooms ! i)))
           \<le> (mem_mib (nr_room (rooms ! at)), vcpus (nr_room (rooms ! at)))"
proof -
  let ?xs = "filter (\<lambda>(_, r). room_takes r sz \<and> wants r) (enumerate 0 rooms)"
  obtain r where "max_by room_greater ?xs = Some (at, r)"
    using assms by (auto simp: roomiest_def)
  from rooms.max_by_max [OF this]
  have mem: "(at, r) \<in> set ?xs" and max: "\<forall>x\<in>set ?xs. \<not> room_greater x (at, r)"
    by auto
  from mem have r: "at < length rooms" "r = rooms ! at" "room_takes r sz" "wants r"
    by (auto simp: in_enumerate0)
  then show "at < length rooms" "room_takes (rooms ! at) sz" "wants (rooms ! at)" by auto
  assume "i < length rooms" "room_takes (rooms ! i) sz" "wants (rooms ! i)"
  then have "(i, rooms ! i) \<in> set ?xs" by (auto simp: in_enumerate0)
  with max have "\<not> room_greater (i, rooms ! i) (at, r)" by blast
  then show "(mem_mib (nr_room (rooms ! i)), vcpus (nr_room (rooms ! i)))
           \<le> (mem_mib (nr_room (rooms ! at)), vcpus (nr_room (rooms ! at)))"
    unfolding r(2) room_greater_def by (simp only: prod.case not_le [symmetric]) blast
qed

lemma roomiest_greatest:
  assumes "roomiest rooms sz wants = Some at" and "i < length rooms" and "room_takes (rooms ! i) sz" and "wants (rooms ! i)"
  shows "mem_mib (nr_room (rooms ! i)) < mem_mib (nr_room (rooms ! at))
    \<or> mem_mib (nr_room (rooms ! i)) = mem_mib (nr_room (rooms ! at))
      \<and> (vcpus (nr_room (rooms ! i)) < vcpus (nr_room (rooms ! at))
         \<or> vcpus (nr_room (rooms ! i)) = vcpus (nr_room (rooms ! at))
           \<and> sm_name (nr_node (rooms ! at)) \<le> sm_name (nr_node (rooms ! i)))"
proof -
  let ?xs = "filter (\<lambda>(_, r). room_takes r sz \<and> wants r) (enumerate 0 rooms)"
  obtain r where "max_by room_greater ?xs = Some (at, r)"
    using assms(1) by (auto simp: roomiest_def)
  from rooms.max_by_max [OF this] have "r = rooms ! at" "\<forall>x\<in>set ?xs. \<not> room_greater x (at, r)"
    by (auto simp: in_enumerate0)
  moreover have "(i, rooms ! i) \<in> set ?xs" using assms(2-4) by (auto simp: in_enumerate0)
  ultimately have "\<not> room_greater (i, rooms ! i) (at, rooms ! at)" by blast
  then show ?thesis by (auto simp: room_greater_def not_less)
qed

section \<open>Debits only shrink rooms\<close>

definition rooms_le :: "node_room list \<Rightarrow> node_room list \<Rightarrow> bool" where
  "rooms_le as bs \<longleftrightarrow> list_all2 (\<lambda>a b. nr_node a = nr_node b \<and> fits_in (nr_room a) (nr_room b)) as bs"

lemma rooms_le_refl [simp]: "rooms_le rs rs"
  by (simp add: rooms_le_def list_all2_same)

lemma rooms_le_trans: "rooms_le as bs \<Longrightarrow> rooms_le bs cs \<Longrightarrow> rooms_le as cs"
  unfolding rooms_le_def list_all2_conv_all_nth by (metis fits_in_trans)

lemma take_off_le: "at < length rooms \<Longrightarrow> rooms_le (take_off rooms at sz) rooms"
  by (auto simp: rooms_le_def take_off_def list_all2_conv_all_nth nth_list_update minus_cap_fits)

lemma debit_le: "rooms_le (fst (debit d rooms)) rooms"
  by (auto simp: debit_def node_for_def intro: take_off_le dest: roomiest_Some(1) split: option.splits)

lemma debit_each_le: "rooms_le (debit_each d rooms) rooms"
  by (auto simp: rooms_le_def debit_each_def list_all2_conv_all_nth minus_cap_fits)

text \<open>Whichever of the nodes that take a VM it is really on, \<open>debit_each\<close> leaves no node more room than
  taking it off that node would.\<close>

lemma debit_each_le_take_off:
  assumes "at < length rooms" and "room_takes (rooms ! at) (nd_size d)" and "demand_wants d (nr_node (rooms ! at))"
  shows "rooms_le (debit_each d rooms) (take_off rooms at (nd_size d))"
  using assms
  by (auto simp: rooms_le_def debit_each_def take_off_def list_all2_conv_all_nth nth_list_update minus_cap_fits)

lemma node_rooms_le: "rooms_le (node_rooms nodes oc unplaced) (map (\<lambda>n. room_reported n oc) nodes)"
proof -
  have "rooms_le (foldl (\<lambda>rooms sz. case roomiest rooms sz (\<lambda>_. True) of Some at \<Rightarrow> take_off rooms at sz | None \<Rightarrow> rooms)
      rooms unplaced) rooms" for rooms
  proof (induction unplaced arbitrary: rooms)
    case (Cons sz unplaced)
    show ?case
    proof (cases "roomiest rooms sz (\<lambda>_. True)")
      case None
      then show ?thesis using Cons by simp
    next
      case (Some at)
      then have "rooms_le (take_off rooms at sz) rooms"
        by (intro take_off_le roomiest_Some(1))
      with Some show ?thesis
        using rooms_le_trans [OF Cons [of "take_off rooms at sz"]] by simp
    qed
  qed simp
  then show ?thesis by (simp add: node_rooms_def)
qed

lemma met_by_a_node_iff:
  "met_by_a_node d rooms \<longleftrightarrow>
     (\<exists>r\<in>set rooms. sm_usable (nr_node r) \<and> fits_in (nd_size d) (nr_room r) \<and> demand_wants d (nr_node r))"
  by (auto simp: met_by_a_node_def node_for_def roomiest_None room_takes_def)

text \<open>A demand met in smaller rooms is met in larger ones: counting more VMs never makes room.\<close>

lemma met_by_a_node_mono: "rooms_le as bs \<Longrightarrow> met_by_a_node d as \<Longrightarrow> met_by_a_node d bs"
  unfolding met_by_a_node_iff rooms_le_def list_all2_conv_all_nth in_set_conv_nth Bex_def
  by (metis fits_in_trans)

lemma met_by_a_node_nth:
  "met_by_a_node d rooms \<longleftrightarrow>
     (\<exists>j<length rooms. room_takes (rooms ! j) (nd_size d) \<and> demand_wants d (nr_node (rooms ! j)))"
  unfolding met_by_a_node_iff room_takes_def by (metis in_set_conv_nth)

lemma take_off_nth:
  "length (take_off rooms at sz) = length rooms"
  "j < length rooms \<Longrightarrow> take_off rooms at sz ! j =
     (if j = at then (rooms ! j)\<lparr>nr_room := minus_cap (nr_room (rooms ! j)) sz\<rparr> else rooms ! j)"
  by (auto simp: take_off_def)

lemma node_rooms_snoc:
  "node_rooms nodes oc (unplaced @ [sz]) =
     (case roomiest (node_rooms nodes oc unplaced) sz (\<lambda>_. True) of
        Some at \<Rightarrow> take_off (node_rooms nodes oc unplaced) at sz | None \<Rightarrow> node_rooms nodes oc unplaced)"
  unfolding node_rooms_def foldl_append foldl.simps by (rule refl)

section \<open>Allowed nodes of several volumes\<close>

definition allows :: "string list option \<Rightarrow> string \<Rightarrow> bool" where
  "allows a n \<longleftrightarrow> (case a of None \<Rightarrow> True | Some ns \<Rightarrow> n \<in> set ns)"

lemma allows_narrow: "allows (narrow_allowed a b) n \<longleftrightarrow> allows a n \<and> allows b n"
  by (cases a; cases b) (auto simp: allows_def)

lemma allows_fold: "allows (foldl narrow_allowed a bs) n \<longleftrightarrow> allows a n \<and> (\<forall>b\<in>set bs. allows b n)"
  by (induction bs arbitrary: a) (auto simp: allows_narrow)

section \<open>What the cloud may rely on\<close>

text \<open>C24: Counting an unseen guest against every node that could hold it is safe: if a demand is still met
  after that, it is met wherever the guest really is. And what a cluster's rooms say is monotone:
  a demand that is met after any debit was met before it.\<close>

theorem conservative_debit_is_safe:
  assumes "met_by_a_node d (debit_each e rooms)"
  shows "(\<forall>at<length rooms. room_takes (rooms ! at) (nd_size e) \<longrightarrow> demand_wants e (nr_node (rooms ! at)) \<longrightarrow>
            met_by_a_node d (take_off rooms at (nd_size e)))
    \<and> met_by_a_node d rooms"
  using met_by_a_node_mono [OF debit_each_le_take_off assms] met_by_a_node_mono [OF debit_each_le assms] by blast

definition sample_demand :: "u32 \<Rightarrow> u64 \<Rightarrow> node_demand" where
  "sample_demand cpus mem =
     \<lparr>nd_selector = [], nd_allowed = None, nd_size = \<lparr>vcpus = cpus, mem_mib = mem\<rparr>, nd_class = CLASS_VM\<rparr>"

definition sample_rooms :: "node_room list" where
  "sample_rooms = map (\<lambda>n. room_reported n overcommit_default)
     [sample_summary ''n1'' 1 10, sample_summary ''n2'' 10 8]"

lemma sample_rooms_eq:
  "sample_rooms =
     [\<lparr>nr_node = sample_summary ''n1'' 1 10, nr_room = \<lparr>vcpus = 4, mem_mib = 10\<rparr>\<rparr>,
      \<lparr>nr_node = sample_summary ''n2'' 10 8, nr_room = \<lparr>vcpus = 40, mem_mib = 8\<rparr>\<rparr>]"
  by (simp add: sample_rooms_def room_reported_def sample_summary_def allowance_default_eq minus_cap_def sat_sub_def)

lemmas sample_room_defs = sample_rooms_eq sample_demand_def sample_summary_def room_takes_def fits_in_def
  demand_wants_def sm_usable_def accepts_class_def

theorem conservative_debit_is_safe_witness:
  "met_by_a_node (sample_demand 4 9) (take_off sample_rooms 1 \<lparr>vcpus = 40, mem_mib = 8\<rparr>)"
proof -
  have "met_by_a_node (sample_demand 4 9) (debit_each (sample_demand 40 8) sample_rooms)"
    by (simp add: met_by_a_node_iff debit_each_def sample_room_defs)
  from conservative_debit_is_safe [OF this] have
    "room_takes (sample_rooms ! 1) (nd_size (sample_demand 40 8)) \<longrightarrow>
     demand_wants (sample_demand 40 8) (nr_node (sample_rooms ! 1)) \<longrightarrow>
     met_by_a_node (sample_demand 4 9) (take_off sample_rooms 1 (nd_size (sample_demand 40 8)))"
    by (metis One_nat_def length_Cons lessI list.size(3) sample_rooms_eq)
  then show ?thesis by (simp add: sample_room_defs)
qed

text \<open>C38: The rooms of a cluster after one more unplaced guest are the rooms before it, except that the guest
  is taken off exactly one node: the one with the most memory, then the most processors, then the
  smallest name, among the usable nodes with room for it; it is taken off none when there is no such
  node. This may overstate what the next guest finds, against the documentation: whenever another
  node takes the guest as well, every demand that this other node alone can meet, and cannot meet
  with the guest on it, is said to be met although it is not if the guest went there.\<close>

theorem node_rooms_debit_the_roomiest:
  fixes nodes :: "node_summary list" and oc :: overcommit and unplaced :: "capacity list" and sz :: capacity
  defines "before \<equiv> node_rooms nodes oc unplaced" and "after \<equiv> node_rooms nodes oc (unplaced @ [sz])"
  shows "if \<forall>r\<in>set before. \<not> room_takes r sz then after = before
    else \<exists>at<length before. room_takes (before ! at) sz \<and> length after = length before
      \<and> nr_node (after ! at) = nr_node (before ! at)
      \<and> nr_room (after ! at) = minus_cap (nr_room (before ! at)) sz
      \<and> (\<forall>i<length before. i \<noteq> at \<longrightarrow> after ! i = before ! i)
      \<and> (\<forall>i<length before. room_takes (before ! i) sz \<longrightarrow>
           mem_mib (nr_room (before ! i)) < mem_mib (nr_room (before ! at))
           \<or> mem_mib (nr_room (before ! i)) = mem_mib (nr_room (before ! at))
             \<and> (vcpus (nr_room (before ! i)) < vcpus (nr_room (before ! at))
                \<or> vcpus (nr_room (before ! i)) = vcpus (nr_room (before ! at))
                  \<and> sm_name (nr_node (before ! at)) \<le> sm_name (nr_node (before ! i))))
      \<and> (\<forall>i<length before. \<forall>d. i \<noteq> at \<and> room_takes (before ! i) sz
           \<and> (\<forall>j<length before. room_takes (before ! j) (nd_size d) \<and> demand_wants d (nr_node (before ! j)) \<longleftrightarrow> j = i)
           \<and> \<not> fits_in (nd_size d) (minus_cap (nr_room (before ! i)) sz) \<longrightarrow>
           met_by_a_node d after \<and> \<not> met_by_a_node d (take_off before i sz))"
proof (cases "roomiest before sz (\<lambda>_. True)")
  case None
  then have "\<forall>r\<in>set before. \<not> room_takes r sz" by (simp add: roomiest_None)
  moreover have "after = before"
    using None by (simp add: after_def before_def node_rooms_snoc)
  ultimately show ?thesis by simp
next
  case (Some at)
  note at = roomiest_Some(1,2) [OF Some] roomiest_greatest [OF Some]
  have after: "after = take_off before at sz"
    using Some by (simp add: after_def before_def node_rooms_snoc)
  have "\<not> (\<forall>r\<in>set before. \<not> room_takes r sz)" using at(1,2) nth_mem by blast
  moreover have "met_by_a_node d after \<and> \<not> met_by_a_node d (take_off before i sz)"
    if "i < length before" "i \<noteq> at"
      "\<forall>j<length before. room_takes (before ! j) (nd_size d) \<and> demand_wants d (nr_node (before ! j)) \<longleftrightarrow> j = i"
      "\<not> fits_in (nd_size d) (minus_cap (nr_room (before ! i)) sz)" for i d
  proof
    show "met_by_a_node d after"
      unfolding met_by_a_node_nth after using that(1-3) by (intro exI [of _ i]) (simp add: take_off_nth)
    show "\<not> met_by_a_node d (take_off before i sz)"
      unfolding met_by_a_node_nth using that by (auto simp: take_off_nth room_takes_def)
  qed
  ultimately show ?thesis
    using at by (auto simp: after take_off_nth intro!: exI [of _ at])
qed

theorem node_rooms_debit_the_roomiest_witness:
  "met_by_a_node (sample_demand 40 8)
     (node_rooms [sample_summary ''n1'' 1 10, sample_summary ''n2'' 10 8] overcommit_default [\<lparr>vcpus = 1, mem_mib = 1\<rparr>])
   \<and> \<not> met_by_a_node (sample_demand 40 8) (take_off sample_rooms 1 \<lparr>vcpus = 1, mem_mib = 1\<rparr>)"
proof -
  let ?sz = "\<lparr>vcpus = 1, mem_mib = 1\<rparr>"
  have before: "node_rooms [sample_summary ''n1'' 1 10, sample_summary ''n2'' 10 8] overcommit_default [] = sample_rooms"
    by (simp add: node_rooms_def sample_rooms_def)
  have two: "length sample_rooms = 2" and takes: "room_takes (sample_rooms ! 0) ?sz" "room_takes (sample_rooms ! 1) ?sz"
    and mem: "mem_mib (nr_room (sample_rooms ! 1)) < mem_mib (nr_room (sample_rooms ! 0))"
    and tight: "\<not> fits_in (nd_size (sample_demand 40 8)) (minus_cap (nr_room (sample_rooms ! 1)) ?sz)"
    by (simp_all add: sample_room_defs minus_cap_def sat_sub_def)
  have alone: "\<forall>j<length sample_rooms. room_takes (sample_rooms ! j) (nd_size (sample_demand 40 8))
      \<and> demand_wants (sample_demand 40 8) (nr_node (sample_rooms ! j)) \<longleftrightarrow> j = 1"
    by (auto simp: sample_room_defs less_Suc_eq)
  have some: "\<not> (\<forall>r\<in>set sample_rooms. \<not> room_takes r ?sz)" using takes(1) two by (metis nth_mem zero_less_numeral)
  note rule = node_rooms_debit_the_roomiest [of "[sample_summary ''n1'' 1 10, sample_summary ''n2'' 10 8]"
      overcommit_default "[]" ?sz, unfolded before append_Nil if_not_P [OF some] two]
  have "1 \<noteq> at" if "mem_mib (nr_room (sample_rooms ! 0)) < mem_mib (nr_room (sample_rooms ! at))
      \<or> mem_mib (nr_room (sample_rooms ! 0)) = mem_mib (nr_room (sample_rooms ! at)) \<and> Q" for at Q
    using that mem by auto
  with rule takes tight alone two show ?thesis by (metis one_less_numeral_iff semiring_norm(76) zero_less_numeral)
qed

text \<open>C39: The cloud takes a demand to be met by a cluster exactly when one node of the cluster meets all of
  it: the node is ready, schedulable and without a condition that vetoes placement, carries the
  selected labels, is one of the nodes the demand is restricted to, accepts the class, and has the
  processors and the memory within its allowance beside what is bound to it. Whether the node is
  being drained is not among the questions.\<close>

theorem met_by_a_node_exactly:
  "met_by_a_node d (map (\<lambda>n. room_reported n oc) nodes) \<longleftrightarrow>
     (\<exists>n\<in>set nodes. sm_ready n \<and> sm_schedulable n
        \<and> (\<forall>c\<in>set (sm_conditions n). nc_type c = ''DriverUnavailable'')
        \<and> (\<forall>(k, v)\<in>set (nd_selector d). map_of (sm_labels n) k = Some v)
        \<and> (\<forall>allowed. nd_allowed d = Some allowed \<longrightarrow> sm_name n \<in> set allowed)
        \<and> (sm_accepts n = [] \<or> nd_class d \<in> set (sm_accepts n))
        \<and> unat (vcpus (nd_size d))
            \<le> unat (vcpus (allowance oc \<lparr>vcpus = sm_vcpus n, mem_mib = sm_mem_mib n\<rparr>)) - unat (sm_bound_vcpus n)
        \<and> unat (mem_mib (nd_size d))
            \<le> unat (mem_mib (allowance oc \<lparr>vcpus = sm_vcpus n, mem_mib = sm_mem_mib n\<rparr>)) - unat (sm_bound_mem_mib n))"
  unfolding met_by_a_node_iff
  by (auto simp: room_reported_def sm_usable_def list_ex_iff vetoes_placement_iff demand_wants_def selects_iff
      accepts_class_def fits_in_def word_le_nat_alt unat_sat_sub split: option.splits)

theorem met_by_a_node_exactly_witness:
  "met_by_a_node (sample_demand 4 9) (map (\<lambda>n. room_reported n overcommit_default) [sample_summary ''n1'' 1 10])"
  unfolding met_by_a_node_exactly
  by (simp add: sample_demand_def sample_summary_def allowance_default_eq)

end
