(* ===== verification/Etcd_Io.thy ===== *)
theory Etcd_Io
  imports Object_Model "HOL-Library.Sublist"
begin

text \<open>
  The effects of \<open>shared/controller-api/src/store.rs\<close>. An \<open>async\<close> function of the controllers is a
  program that asks the outside world questions and continues with the answers: a value of type
  \<open>io\<close>, whose nodes are the requests to etcd and the readings of the clock and of the uid source.
  Several replicas are several such programs; a run of the system interleaves their requests.

  etcd is a service, not code of this repository: it is a parameter \<open>E\<close>, the relation between a
  state, a request, a reply and the next state, and \<open>look\<close>, what a state holds under a key. What the
  store relies on is the locale \<open>etcd\<close>: the guarantees etcd documents for linearizable reads and
  for transactions, with the freedom to fail or time out at any request, before or after the
  request took effect. \<open>mem_etcd\<close> at the end is a service that satisfies it.
\<close>

section \<open>Errors of the store\<close>

datatype store_error =
    NotFound string
  | AlreadyExists string
  | Terminating string
  | Conflict string
  | Invalid string
  | Backend string
  | Timeout string nat

fun store_error_display :: "store_error \<Rightarrow> string" where
  "store_error_display (NotFound s) = ''object not found: '' @ s"
| "store_error_display (AlreadyExists s) = ''object already exists: '' @ s"
| "store_error_display (Terminating s) = ''object is being deleted: '' @ s"
| "store_error_display (Conflict s) = s"
| "store_error_display (Invalid s) = s"
| "store_error_display (Backend s) = ''etcd: '' @ s"
| "store_error_display (Timeout what secs) =
     ''etcd '' @ what @ '' did not answer within '' @ dec secs @ ''s''"

fun metric_result :: "store_error \<Rightarrow> string" where
  "metric_result (NotFound _) = ''not-found''"
| "metric_result (AlreadyExists _) = ''already-exists''"
| "metric_result (Terminating _) = ''terminating''"
| "metric_result (Conflict _) = ''conflict''"
| "metric_result (Invalid _) = ''invalid''"
| "metric_result (Backend _) = ''backend''"
| "metric_result (Timeout _ _) = ''timeout''"

section \<open>Requests and replies\<close>

record 'b kv =
  kv_key :: string
  kv_value :: 'b
  kv_mod_revision :: int

datatype compare =
    CreateRevisionEq string int
  | ModRevisionEq string int

datatype put_option = PutPlain | PutLease int | PutIgnoreLease

datatype 'b txn_op =
    OpPut string 'b put_option
  | OpGet string
  | OpGetPrefix string
  | OpDelete string

datatype 'b op_response =
    PutResponse
  | GetResponse "'b kv list"
  | DeleteResponse

record 'b txn_response =
  tr_succeeded :: bool
  tr_op_responses :: "'b op_response list"
  tr_revision :: "int option"

datatype 'b request =
    ReqGet string
  | ReqGetPrefix string
  | ReqCount string
  | ReqPut string 'b
  | ReqDelete string
  | ReqTake string
  | ReqGrant int
  | ReqTxn "compare list" "'b txn_op list" "'b txn_op list"
  | ReqNow
  | ReqUid

datatype 'b reply =
    RepKvs "'b kv list"
  | RepCount int
  | RepDone
  | RepLease int
  | RepTxn "'b txn_response"
  | RepNow instant
  | RepUid string
  | RepFailed string
  | RepTimedOut

section \<open>Programs\<close>

datatype ('b, 'a) io =
    Done 'a
  | Ask "'b request" "'b reply \<Rightarrow> ('b, 'a) io"

primrec and_then :: "('b, 'a) io \<Rightarrow> ('a \<Rightarrow> ('b, 'c) io) \<Rightarrow> ('b, 'c) io" where
  "and_then (Done a) f = f a"
| "and_then (Ask q k) f = Ask q (\<lambda>r. and_then (k r) f)"

text \<open>The \<open>?\<close> operator.\<close>

definition try_then ::
  "('b, 'e + 'a) io \<Rightarrow> ('a \<Rightarrow> ('b, 'e + 'c) io) \<Rightarrow> ('b, 'e + 'c) io" where
  "try_then m f = and_then m (\<lambda>r. case r of Inl e \<Rightarrow> Done (Inl e) | Inr x \<Rightarrow> f x)"

definition try_val :: "'e + 'a \<Rightarrow> ('a \<Rightarrow> ('b, 'e + 'c) io) \<Rightarrow> ('b, 'e + 'c) io" where
  "try_val r f = (case r of Inl e \<Rightarrow> Done (Inl e) | Inr x \<Rightarrow> f x)"

lemma and_then_Done [simp]: "and_then m Done = m"
  by (induction m) auto

lemma and_then_assoc [simp]:
  "and_then (and_then m f) g = and_then m (\<lambda>a. and_then (f a) g)"
  by (induction m) auto

text \<open>Bounding one request: every reply that is not the one asked for is an error of the store, and
  a missing reply is a timeout that says nothing about whether the request took effect.\<close>

definition REQUEST_TIMEOUT :: nat where "REQUEST_TIMEOUT = 5"

definition timed ::
  "string \<Rightarrow> 'b request \<Rightarrow> ('b reply \<Rightarrow> 'a option) \<Rightarrow> ('b, store_error + 'a) io" where
  "timed what q read =
     Ask q (\<lambda>r. case read r of
        Some a \<Rightarrow> Done (Inr a)
      | None \<Rightarrow> (case r of
            RepTimedOut \<Rightarrow> Done (Inl (Timeout what REQUEST_TIMEOUT))
          | RepFailed m \<Rightarrow> Done (Inl (Backend m))
          | _ \<Rightarrow> Done (Inl (Backend ''unexpected reply''))))"

fun rep_kvs :: "'b reply \<Rightarrow> 'b kv list option" where
  "rep_kvs (RepKvs kvs) = Some kvs" | "rep_kvs _ = None"

fun rep_count :: "'b reply \<Rightarrow> int option" where
  "rep_count (RepCount n) = Some n" | "rep_count _ = None"

fun rep_done :: "'b reply \<Rightarrow> unit option" where
  "rep_done RepDone = Some ()" | "rep_done _ = None"

fun rep_lease :: "'b reply \<Rightarrow> int option" where
  "rep_lease (RepLease n) = Some n" | "rep_lease _ = None"

fun rep_txn :: "'b reply \<Rightarrow> 'b txn_response option" where
  "rep_txn (RepTxn t) = Some t" | "rep_txn _ = None"

fun rep_now :: "'b reply \<Rightarrow> instant" where
  "rep_now (RepNow t) = t" | "rep_now _ = UNSTAMPED"

fun rep_uid :: "'b reply \<Rightarrow> string" where
  "rep_uid (RepUid s) = s" | "rep_uid _ = []"

text \<open>\<open>chrono::Utc::now()\<close> and \<open>uuid::Uuid::new_v4()\<close>: both always answer.\<close>

definition utc_now :: "('b, instant) io" where "utc_now = Ask ReqNow (\<lambda>r. Done (rep_now r))"
definition new_uid :: "('b, string) io" where "new_uid = Ask ReqUid (\<lambda>r. Done (rep_uid r))"

section \<open>The service\<close>

record 'b entry =
  en_value :: 'b
  en_create_revision :: int
  en_mod_revision :: int

type_synonym 'b keyspace = "string \<Rightarrow> 'b entry option"

fun compare_holds :: "'b keyspace \<Rightarrow> compare \<Rightarrow> bool" where
  "compare_holds m (CreateRevisionEq k r) =
     ((case m k of None \<Rightarrow> 0 | Some x \<Rightarrow> en_create_revision x) = r)"
| "compare_holds m (ModRevisionEq k r) =
     ((case m k of None \<Rightarrow> 0 | Some x \<Rightarrow> en_mod_revision x) = r)"

definition put_entry :: "int \<Rightarrow> string \<Rightarrow> 'b \<Rightarrow> 'b keyspace \<Rightarrow> 'b entry" where
  "put_entry r k v m =
     \<lparr>en_value = v,
      en_create_revision = (case m k of None \<Rightarrow> r | Some x \<Rightarrow> en_create_revision x),
      en_mod_revision = r\<rparr>"

fun apply_op :: "int \<Rightarrow> 'b txn_op \<Rightarrow> 'b keyspace \<Rightarrow> 'b keyspace" where
  "apply_op r (OpPut k v opt) m = m(k \<mapsto> put_entry r k v m)"
| "apply_op r (OpDelete k) m = m(k := None)"
| "apply_op r (OpGet k) m = m"
| "apply_op r (OpGetPrefix d) m = m"

definition apply_ops :: "int \<Rightarrow> 'b txn_op list \<Rightarrow> 'b keyspace \<Rightarrow> 'b keyspace" where
  "apply_ops r ops m = fold (apply_op r) ops m"

text \<open>A put that keeps the lease of a key is refused when there is no such key.\<close>

fun op_refused :: "'b keyspace \<Rightarrow> 'b txn_op \<Rightarrow> bool" where
  "op_refused m (OpPut k v PutIgnoreLease) = (m k = None)"
| "op_refused m _ = False"

fun is_put :: "'b txn_op \<Rightarrow> bool" where
  "is_put (OpPut k v opt) = True" | "is_put _ = False"

fun is_write :: "'b txn_op \<Rightarrow> bool" where
  "is_write (OpPut k v opt) = True" | "is_write (OpDelete k) = True" | "is_write _ = False"

lemma is_put_is_write: "is_put op \<Longrightarrow> is_write op"
  by (cases op) auto

definition kv_of :: "string \<Rightarrow> 'b entry \<Rightarrow> 'b kv" where
  "kv_of k x = \<lparr>kv_key = k, kv_value = en_value x, kv_mod_revision = en_mod_revision x\<rparr>"

definition kv_at :: "'b keyspace \<Rightarrow> string \<Rightarrow> 'b kv list" where
  "kv_at m k = (case m k of None \<Rightarrow> [] | Some x \<Rightarrow> [kv_of k x])"

definition is_range :: "'b keyspace \<Rightarrow> string \<Rightarrow> 'b kv list \<Rightarrow> bool" where
  "is_range m d kvs \<longleftrightarrow>
     distinct (map kv_key kvs) \<and>
     set kvs = {kv_of k x |k x. m k = Some x \<and> prefix d k}"

fun op_answered :: "'b keyspace \<Rightarrow> 'b txn_op \<Rightarrow> 'b op_response \<Rightarrow> bool" where
  "op_answered m (OpPut k v opt) a \<longleftrightarrow> a = PutResponse"
| "op_answered m (OpDelete k) a \<longleftrightarrow> a = DeleteResponse"
| "op_answered m (OpGet k) a \<longleftrightarrow> a = GetResponse (kv_at m k)"
| "op_answered m (OpGetPrefix d) a \<longleftrightarrow> (\<exists>kvs. a = GetResponse kvs \<and> is_range m d kvs)"

fun ops_answered :: "int \<Rightarrow> 'b keyspace \<Rightarrow> 'b txn_op list \<Rightarrow> 'b op_response list \<Rightarrow> bool" where
  "ops_answered r m [] as \<longleftrightarrow> as = []"
| "ops_answered r m (op # ops) as \<longleftrightarrow>
     (\<exists>a as'. as = a # as' \<and> op_answered m op a \<and> ops_answered r (apply_op r op m) ops as')"

definition txn_branch ::
  "'b keyspace \<Rightarrow> compare list \<Rightarrow> 'b txn_op list \<Rightarrow> 'b txn_op list \<Rightarrow> 'b txn_op list" where
  "txn_branch m cs a b = (if list_all (compare_holds m) cs then a else b)"

lemma apply_ops_Nil [simp]: "apply_ops r [] m = m"
  and apply_ops_Cons [simp]: "apply_ops r (op # ops) m = apply_ops r ops (apply_op r op m)"
  by (simp_all add: apply_ops_def)

lemma apply_ops_entry:
  "apply_ops r ops m k = Some x \<Longrightarrow> m k = Some x \<or> en_mod_revision x = r"
proof (induction ops arbitrary: m)
  case (Cons op ops)
  have "apply_op r op m k = Some x \<or> en_mod_revision x = r"
    using Cons.IH [of "apply_op r op m"] Cons.prems by simp
  then show ?case by (cases op) (auto simp: put_entry_def split: if_splits)
qed simp

record ('e, 'b) etcd_ops =
  et_serve :: "'e \<Rightarrow> 'b request \<Rightarrow> 'b reply \<Rightarrow> 'e \<Rightarrow> bool"
  et_look :: "'e \<Rightarrow> 'b keyspace"
  et_head :: "'e \<Rightarrow> int"
  et_ok :: "'e \<Rightarrow> bool"

definition unchanged :: "('e, 'b) etcd_ops \<Rightarrow> 'e \<Rightarrow> 'e \<Rightarrow> bool" where
  "unchanged X e e' \<longleftrightarrow> et_look X e' = et_look X e \<and> et_head X e' = et_head X e"

text \<open>One transaction is one revision: the comparisons are judged and the branch is applied to the
  same state, and everything it writes carries the next revision.\<close>

definition txn_runs ::
  "('e, 'b) etcd_ops \<Rightarrow> 'e \<Rightarrow> compare list \<Rightarrow> 'b txn_op list \<Rightarrow> 'b txn_op list \<Rightarrow> 'e \<Rightarrow> bool" where
  "txn_runs X e cs a b e' \<longleftrightarrow>
     (let ops = txn_branch (et_look X e) cs a b in
        \<not> list_ex (op_refused (et_look X e)) ops \<and>
        et_look X e' = apply_ops (et_head X e + 1) ops (et_look X e) \<and>
        et_head X e \<le> et_head X e' \<and> et_head X e' \<le> et_head X e + 1 \<and>
        (list_ex is_put ops \<longrightarrow> et_head X e' = et_head X e + 1) \<and>
        (\<not> list_ex is_write ops \<longrightarrow> et_head X e' = et_head X e))"

fun request_txn :: "'b request \<Rightarrow> compare list \<times> 'b txn_op list \<times> 'b txn_op list" where
  "request_txn (ReqPut k v) = ([], [OpPut k v PutPlain], [])"
| "request_txn (ReqDelete k) = ([], [OpDelete k], [])"
| "request_txn (ReqTake k) = ([], [OpDelete k], [])"
| "request_txn (ReqTxn cs a b) = (cs, a, b)"
| "request_txn _ = ([], [], [])"

definition request_runs :: "('e, 'b) etcd_ops \<Rightarrow> 'e \<Rightarrow> 'b request \<Rightarrow> 'e \<Rightarrow> bool" where
  "request_runs X e q e' \<longleftrightarrow> (case request_txn q of (cs, a, b) \<Rightarrow> txn_runs X e cs a b e')"

text \<open>A request that fails or times out has either not happened or has happened; one that is
  answered has happened, and the answer describes the state it was judged in.\<close>

fun reply_tells :: "('e, 'b) etcd_ops \<Rightarrow> 'e \<Rightarrow> 'b request \<Rightarrow> 'b reply \<Rightarrow> 'e \<Rightarrow> bool" where
  "reply_tells X e q (RepKvs kvs) e' =
     (case q of
        ReqGet k \<Rightarrow> kvs = kv_at (et_look X e) k
      | ReqTake k \<Rightarrow> kvs = kv_at (et_look X e) k
      | ReqGetPrefix d \<Rightarrow> is_range (et_look X e) d kvs
      | _ \<Rightarrow> False)"
| "reply_tells X e q (RepCount n) e' =
     (\<exists>d kvs. q = ReqCount d \<and> is_range (et_look X e) d kvs \<and> n = int (length kvs))"
| "reply_tells X e q (RepTxn t) e' =
     (case q of
        ReqTxn cs a b \<Rightarrow>
          tr_succeeded t = list_all (compare_holds (et_look X e)) cs \<and>
          ops_answered (et_head X e + 1) (et_look X e)
            (txn_branch (et_look X e) cs a b) (tr_op_responses t) \<and>
          (case tr_revision t of None \<Rightarrow> True | Some r \<Rightarrow> r = et_head X e')
      | _ \<Rightarrow> False)"
| "reply_tells X e q RepDone e' = ((\<exists>k v. q = ReqPut k v) \<or> (\<exists>k. q = ReqDelete k))"
| "reply_tells X e q (RepLease n) e' = (\<exists>ttl. q = ReqGrant ttl)"
| "reply_tells X e q (RepNow t) e' = (q = ReqNow)"
| "reply_tells X e q (RepUid u) e' = (q = ReqUid)"
| "reply_tells X e q (RepFailed m) e' = (q \<noteq> ReqNow \<and> q \<noteq> ReqUid)"
| "reply_tells X e q RepTimedOut e' = (q \<noteq> ReqNow \<and> q \<noteq> ReqUid)"

fun unanswered :: "'b reply \<Rightarrow> bool" where
  "unanswered (RepFailed m) = True" | "unanswered RepTimedOut = True" | "unanswered _ = False"

locale etcd =
  fixes X :: "('e, 'b) etcd_ops"
  assumes ok_kept: "et_ok X e \<Longrightarrow> et_serve X e q r e' \<Longrightarrow> et_ok X e'"
    and revisions: "et_ok X e \<Longrightarrow> et_look X e k = Some x \<Longrightarrow>
          0 < en_create_revision x \<and> en_create_revision x \<le> en_mod_revision x \<and>
          en_mod_revision x \<le> et_head X e"
    and head_i64: "et_ok X e \<Longrightarrow> 0 \<le> et_head X e \<and> et_head X e < 2 ^ 63"
    and told: "et_ok X e \<Longrightarrow> et_serve X e q r e' \<Longrightarrow> reply_tells X e q r e'"
    and happened: "et_ok X e \<Longrightarrow> et_serve X e q r e' \<Longrightarrow>
          request_runs X e q e' \<or> unanswered r \<and> unchanged X e e'"
begin

text \<open>Revisions only grow.\<close>

lemma head_mono: "et_ok X e \<Longrightarrow> et_serve X e q r e' \<Longrightarrow> et_head X e \<le> et_head X e'"
  using happened [of e q r e']
  by (auto simp: request_runs_def txn_runs_def unchanged_def Let_def split: prod.splits)

lemma reads_nothing:
  assumes "et_ok X e" "et_serve X e q r e'" "request_txn q = ([], [], [])"
  shows "unchanged X e e'"
  using happened [OF assms(1,2)] assms(3)
  by (auto simp: request_runs_def txn_runs_def unchanged_def Let_def apply_ops_def txn_branch_def)

text \<open>What a request can do to one key: leave it, remove it, or put it at a revision that no
  entry has had before.\<close>

lemma entry_after:
  assumes ok: "et_ok X e" and sv: "et_serve X e q r e'" and look: "et_look X e' k = Some x"
  shows "et_look X e k = Some x \<or> en_mod_revision x = et_head X e + 1"
  using happened [OF ok sv] look apply_ops_entry
  by (force simp: request_runs_def txn_runs_def unchanged_def Let_def split: prod.splits)

end

section \<open>A service in memory\<close>

record 'b mem =
  mem_keys :: "(string \<times> 'b entry) list"
  mem_revision :: int

fun mem_op :: "int \<Rightarrow> 'b txn_op \<Rightarrow> (string \<times> 'b entry) list \<Rightarrow> (string \<times> 'b entry) list" where
  "mem_op r (OpPut k v opt) ks = (k, put_entry r k v (map_of ks)) # filter (\<lambda>e. fst e \<noteq> k) ks"
| "mem_op r (OpDelete k) ks = filter (\<lambda>e. fst e \<noteq> k) ks"
| "mem_op r (OpGet k) ks = ks"
| "mem_op r (OpGetPrefix d) ks = ks"

definition mem_range :: "(string \<times> 'b entry) list \<Rightarrow> string \<Rightarrow> 'b kv list" where
  "mem_range ks d = map (\<lambda>e. kv_of (fst e) (snd e)) (filter (\<lambda>e. prefix d (fst e)) ks)"

fun mem_answer :: "(string \<times> 'b entry) list \<Rightarrow> 'b txn_op \<Rightarrow> 'b op_response" where
  "mem_answer ks (OpPut k v opt) = PutResponse"
| "mem_answer ks (OpDelete k) = DeleteResponse"
| "mem_answer ks (OpGet k) = GetResponse (kv_at (map_of ks) k)"
| "mem_answer ks (OpGetPrefix d) = GetResponse (mem_range ks d)"

fun mem_answers :: "int \<Rightarrow> (string \<times> 'b entry) list \<Rightarrow> 'b txn_op list \<Rightarrow> 'b op_response list" where
  "mem_answers r ks [] = []"
| "mem_answers r ks (op # ops) = mem_answer ks op # mem_answers r (mem_op r op ks) ops"

definition mem_after :: "'b mem \<Rightarrow> 'b txn_op list \<Rightarrow> 'b mem" where
  "mem_after st ops =
     \<lparr>mem_keys = fold (mem_op (mem_revision st + 1)) ops (mem_keys st),
      mem_revision = (if list_ex is_put ops then mem_revision st + 1 else mem_revision st)\<rparr>"

fun mem_reply :: "'b mem \<Rightarrow> 'b request \<Rightarrow> 'b txn_op list \<Rightarrow> 'b reply" where
  "mem_reply st (ReqGet k) ops = RepKvs (kv_at (map_of (mem_keys st)) k)"
| "mem_reply st (ReqGetPrefix d) ops = RepKvs (mem_range (mem_keys st) d)"
| "mem_reply st (ReqCount d) ops = RepCount (int (length (mem_range (mem_keys st) d)))"
| "mem_reply st (ReqPut k v) ops = RepDone"
| "mem_reply st (ReqDelete k) ops = RepDone"
| "mem_reply st (ReqTake k) ops = RepKvs (kv_at (map_of (mem_keys st)) k)"
| "mem_reply st (ReqGrant ttl) ops = RepLease (mem_revision st)"
| "mem_reply st (ReqTxn cs a b) ops =
     RepTxn \<lparr>tr_succeeded = list_all (compare_holds (map_of (mem_keys st))) cs,
             tr_op_responses = mem_answers (mem_revision st + 1) (mem_keys st) ops,
             tr_revision = Some (mem_revision (mem_after st ops))\<rparr>"
| "mem_reply st ReqNow ops = RepNow (mem_revision st)"
| "mem_reply st ReqUid ops = RepUid (dec (nat (mem_revision st)))"

definition mem_run :: "'b mem \<Rightarrow> 'b request \<Rightarrow> 'b reply \<times> 'b mem" where
  "mem_run st q =
     (case request_txn q of (cs, a, b) \<Rightarrow>
        let ops = txn_branch (map_of (mem_keys st)) cs a b in
        if list_ex (op_refused (map_of (mem_keys st))) ops then (RepFailed ''key not found'', st)
        else if list_ex is_put ops \<and> mem_revision st + 1 = 2 ^ 63 then (RepFailed ''no space'', st)
        else (mem_reply st q ops, mem_after st ops))"

definition mem_ok :: "'b mem \<Rightarrow> bool" where
  "mem_ok st \<longleftrightarrow>
     0 \<le> mem_revision st \<and> mem_revision st < 2 ^ 63 \<and> distinct (map fst (mem_keys st)) \<and>
     (\<forall>(k, x) \<in> set (mem_keys st).
        0 < en_create_revision x \<and> en_create_revision x \<le> en_mod_revision x \<and>
        en_mod_revision x \<le> mem_revision st)"

definition mem_etcd :: "('b mem, 'b) etcd_ops" where
  "mem_etcd = \<lparr>
     et_serve = (\<lambda>st q r st'.
        (r, st') = mem_run st q \<or>
        r = RepTimedOut \<and> q \<noteq> ReqNow \<and> q \<noteq> ReqUid \<and> (st' = st \<or> st' = snd (mem_run st q))),
     et_look = (\<lambda>st. map_of (mem_keys st)),
     et_head = mem_revision,
     et_ok = mem_ok\<rparr>"

lemma map_of_filter_ne: "map_of (filter (\<lambda>e. fst e \<noteq> k) ks) = (map_of ks)(k := None)"
  by (rule ext) (induction ks, auto)

lemma map_of_mem_op: "map_of (mem_op r op ks) = apply_op r op (map_of ks)"
  by (cases op) (auto simp: map_of_filter_ne)

lemma map_of_mem_ops: "map_of (fold (mem_op r) ops ks) = apply_ops r ops (map_of ks)"
  by (induction ops arbitrary: ks) (simp_all add: map_of_mem_op)

lemma mem_op_distinct: "distinct (map fst ks) \<Longrightarrow> distinct (map fst (mem_op r op ks))"
  by (cases op) (auto simp: distinct_map_filter)

lemma mem_ops_distinct: "distinct (map fst ks) \<Longrightarrow> distinct (map fst (fold (mem_op r) ops ks))"
  by (induction ops arbitrary: ks) (simp_all add: mem_op_distinct)

lemma mem_range_is_range: "distinct (map fst ks) \<Longrightarrow> is_range (map_of ks) d (mem_range ks d)"
  by (auto simp: is_range_def mem_range_def kv_of_def o_def distinct_map_filter image_iff
      map_of_eq_Some_iff)

lemma mem_answers_answered:
  "distinct (map fst ks) \<Longrightarrow> ops_answered r (map_of ks) ops (mem_answers r ks ops)"
proof (induction ops arbitrary: ks)
  case (Cons op ops)
  have "op_answered (map_of ks) op (mem_answer ks op)"
    by (cases op) (auto intro: mem_range_is_range Cons.prems)
  then show ?case using Cons.IH [OF mem_op_distinct [OF Cons.prems]] by (simp add: map_of_mem_op)
qed simp

text \<open>The revisions of a keyspace below a bound: what a put at the bound keeps.\<close>

definition revisions_below :: "int \<Rightarrow> 'b keyspace \<Rightarrow> bool" where
  "revisions_below h m \<longleftrightarrow>
     (\<forall>k x. m k = Some x \<longrightarrow>
        0 < en_create_revision x \<and> en_create_revision x \<le> en_mod_revision x \<and> en_mod_revision x \<le> h)"

lemma apply_op_revisions:
  assumes "revisions_below h m" "0 < h"
  shows "revisions_below h (apply_op h op m)"
proof (cases op)
  case (OpPut k v opt)
  have "en_create_revision (put_entry h k v m) \<le> h \<and> 0 < en_create_revision (put_entry h k v m)"
    using assms by (fastforce simp: put_entry_def revisions_below_def split: option.splits)
  then show ?thesis using assms OpPut by (auto simp: revisions_below_def put_entry_def)
qed (use assms in \<open>auto simp: revisions_below_def\<close>)

lemma apply_ops_revisions:
  "revisions_below h m \<Longrightarrow> 0 < h \<Longrightarrow> revisions_below h (apply_ops h ops m)"
  by (induction ops arbitrary: m) (simp_all add: apply_op_revisions)

lemma apply_ops_no_put:
  "\<not> list_ex is_put ops \<Longrightarrow> revisions_below h m \<Longrightarrow> revisions_below h (apply_ops r ops m)"
proof (induction ops arbitrary: m)
  case (Cons op ops)
  have "revisions_below h (apply_op r op m)"
    using Cons.prems by (cases op) (auto simp: revisions_below_def)
  then show ?case using Cons by simp
qed simp

lemma mem_ok_iff:
  "mem_ok st \<longleftrightarrow> 0 \<le> mem_revision st \<and> mem_revision st < 2 ^ 63 \<and> distinct (map fst (mem_keys st)) \<and>
     revisions_below (mem_revision st) (map_of (mem_keys st))"
  by (cases "distinct (map fst (mem_keys st))")
    (auto simp: mem_ok_def revisions_below_def map_of_eq_Some_iff)

lemma revisions_below_mono: "revisions_below h m \<Longrightarrow> h \<le> h' \<Longrightarrow> revisions_below h' m"
  by (fastforce simp: revisions_below_def)

lemma mem_after_ok:
  "mem_ok st \<Longrightarrow> \<not> (list_ex is_put ops \<and> mem_revision st + 1 = 2 ^ 63) \<Longrightarrow> mem_ok (mem_after st ops)"
  using apply_ops_revisions [of "mem_revision st + 1" "map_of (mem_keys st)" ops]
    apply_ops_no_put [of ops "mem_revision st" "map_of (mem_keys st)"]
    revisions_below_mono [of "mem_revision st" _ "mem_revision st + 1"]
  by (auto simp: mem_ok_iff mem_after_def map_of_mem_ops mem_ops_distinct)

lemma mem_run_ok: "mem_ok st \<Longrightarrow> mem_ok (snd (mem_run st q))"
  by (auto simp: mem_run_def Let_def mem_after_ok split: prod.splits)

lemma mem_after_runs:
  "\<not> list_ex (op_refused (map_of (mem_keys st))) (txn_branch (map_of (mem_keys st)) cs a b) \<Longrightarrow>
   txn_runs mem_etcd st cs a b (mem_after st (txn_branch (map_of (mem_keys st)) cs a b))"
  using is_put_is_write
  by (auto simp: txn_runs_def Let_def mem_etcd_def mem_after_def map_of_mem_ops list_ex_iff)

lemma mem_run_happened:
  assumes "(r, st') = mem_run st q"
  shows "request_runs mem_etcd st q st' \<or> unanswered r \<and> unchanged mem_etcd st st'"
proof -
  obtain cs a b where t: "request_txn q = (cs, a, b)" by (cases "request_txn q") auto
  show ?thesis
    using assms t mem_after_runs [of st cs a b]
    by (auto simp: mem_run_def Let_def request_runs_def unchanged_def split: if_splits)
qed

lemma mem_run_told:
  assumes ok: "mem_ok st" and run: "(r, st') = mem_run st q"
  shows "reply_tells mem_etcd st q r st'"
proof -
  have dist: "distinct (map fst (mem_keys st))" using ok by (simp add: mem_ok_def)
  note facts = mem_range_is_range [OF dist] mem_answers_answered [OF dist]
  show ?thesis
    using run facts
    by (cases q) (auto simp: mem_run_def Let_def mem_etcd_def txn_branch_def split: if_splits)
qed

interpretation mem: etcd "mem_etcd :: ('b mem, 'b) etcd_ops"
proof
  fix e e' :: "'b mem" and q r
  assume ok: "et_ok mem_etcd e" and sv: "et_serve mem_etcd e q r e'"
  have sv': "(r, e') = mem_run e q \<or>
      r = RepTimedOut \<and> q \<noteq> ReqNow \<and> q \<noteq> ReqUid \<and> (e' = e \<or> e' = snd (mem_run e q))"
    using sv by (simp add: mem_etcd_def)
  have ok': "mem_ok e" using ok by (simp add: mem_etcd_def)
  show "et_ok mem_etcd e'"
    using sv' ok' mem_run_ok [OF ok', of q] by (auto simp: mem_etcd_def dest: arg_cong [of _ _ snd])
  show "reply_tells mem_etcd e q r e'"
    using sv' mem_run_told [OF ok'] by auto
  show "request_runs mem_etcd e q e' \<or> unanswered r \<and> unchanged mem_etcd e e'"
    using sv'
  proof
    assume "r = RepTimedOut \<and> q \<noteq> ReqNow \<and> q \<noteq> ReqUid \<and> (e' = e \<or> e' = snd (mem_run e q))"
    then show ?thesis
      using mem_run_happened [of "fst (mem_run e q)" "snd (mem_run e q)" e q]
      by (auto simp: unchanged_def)
  qed (rule mem_run_happened)
next
  fix e :: "'b mem" and k x
  assume "et_ok mem_etcd e" "et_look mem_etcd e k = Some x"
  then show "0 < en_create_revision x \<and> en_create_revision x \<le> en_mod_revision x \<and>
      en_mod_revision x \<le> et_head mem_etcd e"
    by (auto simp: mem_etcd_def mem_ok_iff revisions_below_def)
next
  fix e :: "'b mem"
  assume "et_ok mem_etcd e"
  then show "0 \<le> et_head mem_etcd e \<and> et_head mem_etcd e < 2 ^ 63"
    by (simp add: mem_etcd_def mem_ok_iff)
qed

section \<open>Replicas\<close>

text \<open>A run of several programs over one service: any program that has a request open may have it
  served, and the environment may act in the ways \<open>env\<close> allows. The weakest environment in use is
  \<open>outside K\<close>: writes of other programs and the expiry of leases, on any keys but those in \<open>K\<close>.\<close>

definition outside :: "('e, 'b) etcd_ops \<Rightarrow> string set \<Rightarrow> 'e \<Rightarrow> 'e \<Rightarrow> bool" where
  "outside X K e e' \<longleftrightarrow>
     et_ok X e' \<and> et_head X e \<le> et_head X e' \<and> (\<forall>k\<in>K. et_look X e' k = et_look X e k)"

inductive sys_step ::
  "('e, 'b) etcd_ops \<Rightarrow> ('e \<Rightarrow> 'e \<Rightarrow> bool) \<Rightarrow> 'e \<times> ('i \<Rightarrow> ('b, 'a) io) \<Rightarrow> 'e \<times> ('i \<Rightarrow> ('b, 'a) io) \<Rightarrow> bool"
  for X :: "('e, 'b) etcd_ops" and env :: "'e \<Rightarrow> 'e \<Rightarrow> bool" where
  served: "ps i = Ask q k \<Longrightarrow> et_serve X e q r e' \<Longrightarrow> sys_step X env (e, ps) (e', ps(i := k r))"
| elsewhere: "env e e' \<Longrightarrow> sys_step X env (e, ps) (e', ps)"

abbreviation sys_run where "sys_run X env \<equiv> (sys_step X env)\<^sup>*\<^sup>*"

text \<open>One program alone.\<close>

inductive runs_to :: "('e, 'b) etcd_ops \<Rightarrow> 'e \<Rightarrow> ('b, 'a) io \<Rightarrow> 'a \<Rightarrow> 'e \<Rightarrow> bool"
  for X :: "('e, 'b) etcd_ops" where
  finished: "runs_to X e (Done a) a e"
| asked: "et_serve X e q r e1 \<Longrightarrow> runs_to X e1 (k r) a e' \<Longrightarrow> runs_to X e (Ask q k) a e'"

inductive_cases runs_to_DoneE [elim!]: "runs_to X e (Done a) b e'"
inductive_cases runs_to_AskE: "runs_to X e (Ask q k) b e'"

text \<open>How many requests a program makes at most, whatever the replies are.\<close>

primrec asks_at_most :: "nat \<Rightarrow> ('b, 'a) io \<Rightarrow> bool" where
  "asks_at_most 0 m = (case m of Done _ \<Rightarrow> True | Ask _ _ \<Rightarrow> False)"
| "asks_at_most (Suc n) m = (case m of Done _ \<Rightarrow> True | Ask _ k \<Rightarrow> \<forall>r. asks_at_most n (k r))"

lemma asks_Done [simp]: "asks_at_most n (Done a)"
  by (cases n) auto

lemma asks_mono: "asks_at_most n m \<Longrightarrow> n \<le> n' \<Longrightarrow> asks_at_most n' m"
proof (induction n arbitrary: m n')
  case 0 then show ?case by (cases m) auto
next
  case (Suc n)
  then obtain n'' where "n' = Suc n''" "n \<le> n''" by (cases n') auto
  then show ?case using Suc by (cases m) auto
qed

lemma asks_and_then:
  "asks_at_most n m \<Longrightarrow> (\<And>a. asks_at_most n' (f a)) \<Longrightarrow> asks_at_most (n + n') (and_then m f)"
proof (induction n arbitrary: m)
  case 0 then show ?case by (cases m) auto
next
  case (Suc n)
  then show ?case
  proof (cases m)
    case (Done a)
    show ?thesis using asks_mono [OF Suc.prems(2), of "Suc n + n'"] Done by simp
  qed auto
qed

declare asks_at_most.simps(2) [simp del]

text \<open>Driving one program to its end over the service in memory.\<close>

fun drive :: "nat \<Rightarrow> 'b mem \<Rightarrow> ('b, 'a) io \<Rightarrow> 'b mem \<times> ('b, 'a) io" where
  "drive (Suc n) st (Ask q k) = (let p = mem_run st q in drive n (snd p) (k (fst p)))"
| "drive n st m = (st, m)"

lemma drive_runs:
  "drive n st (ps i) = (st', m) \<Longrightarrow> sys_run mem_etcd env (st, ps) (st', ps(i := m))"
proof (induction n arbitrary: st ps)
  case (Suc n)
  show ?case
  proof (cases "ps i")
    case (Ask q k)
    obtain r st1 where run: "mem_run st q = (r, st1)" by (cases "mem_run st q")
    have step: "sys_step mem_etcd env (st, ps) (st1, ps(i := k r))"
      using served [of ps i q k mem_etcd st r st1 env] Ask run by (simp add: mem_etcd_def)
    have rest: "sys_run mem_etcd env (st1, ps(i := k r)) (st', (ps(i := k r))(i := m))"
      by (rule Suc.IH) (use Suc.prems Ask run in simp)
    show ?thesis using converse_rtranclp_into_rtranclp [OF step rest] by (simp only: fun_upd_upd)
  qed (use Suc.prems in \<open>simp add: fun_upd_idem\<close>)
qed (simp add: fun_upd_idem)

end
