(* ===== verification/Etcd_Store.thy ===== *)
theory Etcd_Store
  imports Etcd_Io Json_Api
begin

text \<open>
  \<open>shared/controller-api/src/store.rs\<close>: the registry of resources in etcd. Every operation is a
  program over the requests of \<open>Etcd_Io\<close>. A resource type is the record \<open>resource\<close>, the constants and
  the \<open>settle\<close> method of the \<open>Resource\<close> trait together with the \<open>serde\<close> conversions of the type, which
  are parameters. Not modelled are the metrics and log lines, the connection set-up and the
  delivery of watch events; what an event is decoded to is \<open>observed\<close>.
\<close>

section \<open>Names\<close>

datatype name_shape = DnsLabel | Dotted

definition MAX_NAME :: nat where "MAX_NAME = 63"

definition is_ascii_lowercase :: "char \<Rightarrow> bool" where
  "is_ascii_lowercase c \<longleftrightarrow> 97 \<le> (of_char c :: nat) \<and> (of_char c :: nat) \<le> 122"

definition is_ascii_alphanumeric :: "char \<Rightarrow> bool" where
  "is_ascii_alphanumeric c \<longleftrightarrow>
     is_ascii_lowercase c \<or> is_digit c \<or> 65 \<le> (of_char c :: nat) \<and> (of_char c :: nat) \<le> 90"

definition name_byte :: "bool \<Rightarrow> char \<Rightarrow> bool" where
  "name_byte dotted c \<longleftrightarrow>
     is_ascii_lowercase c \<or> is_digit c \<or> c = CHR ''-'' \<or> dotted \<and> c = CHR ''.''"

fun contains_dotdot :: "string \<Rightarrow> bool" where
  "contains_dotdot (a # b # s) \<longleftrightarrow> a = CHR ''.'' \<and> b = CHR ''.'' \<or> contains_dotdot (b # s)"
| "contains_dotdot _ \<longleftrightarrow> False"

definition name_invalid :: "string \<Rightarrow> string \<Rightarrow> store_error + unit" where
  "name_invalid name why =
     Inl (Invalid (''invalid object: metadata.name '' @ str_debug name @ '' '' @ why))"

definition check_name :: "string \<Rightarrow> name_shape \<Rightarrow> store_error + unit" where
  "check_name name shape =
     (let dotted = (shape = Dotted) in
      if name = [] then Inl (Invalid ''invalid object: metadata.name must be set'')
      else if MAX_NAME < length name then
        name_invalid name (''is '' @ dec (length name) @ '' bytes; at most '' @ dec MAX_NAME @
          '' are allowed'')
      else if \<not> list_all (name_byte dotted) name then
        name_invalid name
          (if dotted
           then ''may hold only lowercase letters, digits, '' @ [CHR 0x27] @ ''-'' @ [CHR 0x27] @
                '' and '' @ [CHR 0x27] @ ''.'' @ [CHR 0x27] @
                '' (it is one path segment: it becomes an etcd key and a file name)''
           else ''may hold only lowercase letters, digits and '' @ [CHR 0x27] @ ''-'' @ [CHR 0x27] @
                '' (it is a dns label: it becomes an etcd key, a file name and '' @
                ''part of an interface name)'')
      else if dotted \<and> contains_dotdot name then
        name_invalid name (''may not hold '' @ [CHR 0x22] @ ''..'' @ [CHR 0x22])
      else if \<not> is_ascii_alphanumeric (hd name) \<or> \<not> is_ascii_alphanumeric (List.last name) then
        name_invalid name ''must start and end with a letter or a digit''
      else Inr ())"

section \<open>Resources and keys\<close>

record ('s, 't, 'b) resource =
  RESOURCE :: string
  KIND :: string
  NAME_SHAPE :: name_shape
  settle :: "instant \<Rightarrow> ('s, 't) object \<Rightarrow> ('s, 't) object"
  to_vec :: "('s, 't) object \<Rightarrow> string + 'b"
  from_slice :: "'b \<Rightarrow> string + ('s, 't) object"

record ('b, 'j) store =
  st_prefix :: string
  st_bytes :: "string \<Rightarrow> 'b"
  st_json :: "'j json_ops"
  st_value :: "'b \<Rightarrow> 'j option"
  st_lease_to :: "instant \<Rightarrow> string + 'b"
  st_lease_from :: "'b \<Rightarrow> instant option"

definition lease_dir :: "string \<Rightarrow> string \<Rightarrow> string" where
  "lease_dir pre resource = pre @ ''/leases/'' @ resource @ ''/''"

definition lease_key :: "string \<Rightarrow> string \<Rightarrow> string \<Rightarrow> string" where
  "lease_key pre resource name = pre @ ''/leases/'' @ resource @ ''/'' @ name"

definition store_dir :: "('b, 'j) store \<Rightarrow> string \<Rightarrow> string" where
  "store_dir S resource = st_prefix S @ ''/registry/'' @ resource @ ''/''"

definition store_key :: "('b, 'j) store \<Rightarrow> string \<Rightarrow> string \<Rightarrow> string" where
  "store_key S resource name = st_prefix S @ ''/registry/'' @ resource @ ''/'' @ name"

record fence =
  fence_key :: string
  fence_revision :: int

definition fence_mark :: "string \<Rightarrow> string \<Rightarrow> string" where
  "fence_mark resource name = resource @ ''/'' @ name"

text \<open>\<open>i64::to_string\<close>.\<close>

definition int_display :: "int \<Rightarrow> string" where
  "int_display n = (if n < 0 then CHR ''-'' # dec (nat (- n)) else dec (nat n))"

definition decode :: "('s, 't, 'b) resource \<Rightarrow> 'b \<Rightarrow> int \<Rightarrow> store_error + ('s, 't) object" where
  "decode R bytes mod_revision =
     (case from_slice R bytes of
        Inl e \<Rightarrow> Inl (Invalid (''invalid object: does not parse: '' @ e))
      | Inr obj \<Rightarrow>
          Inr (obj\<lparr>metadata := metadata obj\<lparr>md_resource_version := int_display mod_revision\<rparr>\<rparr>))"

definition encode :: "('s, 't, 'b) resource \<Rightarrow> ('s, 't) object \<Rightarrow> instant \<Rightarrow> store_error + 'b" where
  "encode R obj now =
     (let clean = obj\<lparr>metadata := metadata obj\<lparr>md_resource_version := []\<rparr>\<rparr>
      in case to_vec R (settle R now clean) of
           Inl e \<Rightarrow> Inl (Invalid (''invalid object: '' @ e))
         | Inr bytes \<Rightarrow> Inr bytes)"

definition decode_range ::
  "('s, 't, 'b) resource \<Rightarrow> 'b kv list \<Rightarrow> ('s, 't) object list" where
  "decode_range R kvs =
     List.map_filter (\<lambda>kv. case decode R (kv_value kv) (kv_mod_revision kv) of
        Inr obj \<Rightarrow> Some obj | Inl _ \<Rightarrow> None) kvs"

section \<open>Reads\<close>

definition probe :: "('b, 'j) store \<Rightarrow> ('b, store_error + unit) io" where
  "probe S = try_then (timed ''probe'' (ReqGet (st_prefix S @ ''/readyz'')) rep_kvs)
     (\<lambda>_. Done (Inr ()))"

definition store_get ::
  "('b, 'j) store \<Rightarrow> ('s, 't, 'b) resource \<Rightarrow> string \<Rightarrow> ('b, store_error + ('s, 't) object) io" where
  "store_get S R name =
     try_then (timed ''get'' (ReqGet (store_key S (RESOURCE R) name)) rep_kvs)
       (\<lambda>kvs. case kvs of
          [] \<Rightarrow> Done (Inl (NotFound (RESOURCE R @ ''/'' @ name)))
        | kv # _ \<Rightarrow> Done (decode R (kv_value kv) (kv_mod_revision kv)))"

definition list_counted ::
  "('b, 'j) store \<Rightarrow> ('s, 't, 'b) resource \<Rightarrow> ('b, store_error + (('s, 't) object list \<times> nat)) io" where
  "list_counted S R =
     try_then (timed ''list'' (ReqGetPrefix (store_dir S (RESOURCE R))) rep_kvs)
       (\<lambda>kvs. Done (Inr (decode_range R kvs, length kvs)))"

definition store_list ::
  "('b, 'j) store \<Rightarrow> ('s, 't, 'b) resource \<Rightarrow> ('b, store_error + ('s, 't) object list) io" where
  "store_list S R = try_then (list_counted S R) (\<lambda>p. Done (Inr (fst p)))"

definition list_complete ::
  "('b, 'j) store \<Rightarrow> ('s, 't, 'b) resource \<Rightarrow> string \<Rightarrow> ('b, store_error + ('s, 't) object list) io" where
  "list_complete S R stake =
     try_then (list_counted S R)
       (\<lambda>(objects, keys).
          if length objects \<noteq> keys
          then Done (Inl (Invalid (''some '' @ RESOURCE R @ '' objects did not decode, so '' @ stake)))
          else Done (Inr objects))"

fun get_responses :: "'b op_response list \<Rightarrow> 'b kv list list" where
  "get_responses [] = []"
| "get_responses (GetResponse kvs # rs) = kvs # get_responses rs"
| "get_responses (_ # rs) = get_responses rs"

definition list2 ::
  "('b, 'j) store \<Rightarrow> ('s, 't, 'b) resource \<Rightarrow> ('u, 'v, 'b) resource \<Rightarrow>
   ('b, store_error + (('s, 't) object list \<times> ('u, 'v) object list)) io" where
  "list2 S A B =
     try_then
       (timed ''list2''
          (ReqTxn [] [OpGetPrefix (store_dir S (RESOURCE A)), OpGetPrefix (store_dir S (RESOURCE B))] [])
          rep_txn)
       (\<lambda>resp. case get_responses (tr_op_responses resp) of
          a # b # _ \<Rightarrow> Done (Inr (decode_range A a, decode_range B b))
        | _ \<Rightarrow> Done (Inl (Invalid (''etcd answered a read of '' @ RESOURCE A @ '' and '' @ RESOURCE B @
                 '' with fewer than two ranges''))))"

definition store_count ::
  "('b, 'j) store \<Rightarrow> ('s, 't, 'b) resource \<Rightarrow> ('b, store_error + nat) io" where
  "store_count S R =
     try_then (timed ''count'' (ReqCount (store_dir S (RESOURCE R))) rep_count)
       (\<lambda>n. Done (Inr (nat (max n 0))))"

section \<open>Heartbeat leases\<close>

definition beat ::
  "('b, 'j) store \<Rightarrow> ('s, 't, 'b) resource \<Rightarrow> string \<Rightarrow> instant \<Rightarrow> ('b, store_error + unit) io" where
  "beat S R name at =
     (case st_lease_to S at of
        Inl e \<Rightarrow> Done (Inl (Invalid (''invalid lease: '' @ e)))
      | Inr v \<Rightarrow>
          try_then (timed ''lease_put'' (ReqPut (lease_key (st_prefix S) (RESOURCE R) name) v) rep_done)
            (\<lambda>_. Done (Inr ())))"

definition last_beat ::
  "('b, 'j) store \<Rightarrow> ('s, 't, 'b) resource \<Rightarrow> string \<Rightarrow> ('b, store_error + instant option) io" where
  "last_beat S R name =
     try_then (timed ''lease_get'' (ReqGet (lease_key (st_prefix S) (RESOURCE R) name)) rep_kvs)
       (\<lambda>kvs. case kvs of
          [] \<Rightarrow> Done (Inr None)
        | kv # _ \<Rightarrow> Done (Inr (st_lease_from S (kv_value kv))))"

text \<open>The \<open>HashMap\<close> of heartbeats; a later pair for the same name replaces the earlier one.\<close>

definition beats ::
  "('b, 'j) store \<Rightarrow> ('s, 't, 'b) resource \<Rightarrow> ('b, store_error + (string \<rightharpoonup> instant)) io" where
  "beats S R =
     (let dir = lease_dir (st_prefix S) (RESOURCE R) in
      try_then (timed ''lease_list'' (ReqGetPrefix dir) rep_kvs)
        (\<lambda>kvs. Done (Inr (fold (\<lambda>kv out.
            case (strip_pre dir (kv_key kv), st_lease_from S (kv_value kv)) of
              (Some name, Some at) \<Rightarrow> out(name \<mapsto> at)
            | _ \<Rightarrow> out) kvs Map.empty))))"

section \<open>Writes\<close>

text \<open>Whether a stored value carries a deletion timestamp, read off the raw document.\<close>

definition value_deleting :: "('b, 'j) store \<Rightarrow> 'b \<Rightarrow> bool" where
  "value_deleting S value =
     (case Option.bind (st_value S value) (\<lambda>v.
             Option.bind (j_get (st_json S) v ''metadata'') (\<lambda>m.
               Option.bind (j_get (st_json S) m ''deletionTimestamp'') (j_as_str (st_json S)))) of
        Some s \<Rightarrow> s \<noteq> []
      | None \<Rightarrow> False)"

definition is_terminating :: "('b, 'j) store \<Rightarrow> 'b op_response list \<Rightarrow> bool" where
  "is_terminating S ops \<longleftrightarrow>
     list_ex (\<lambda>kvs. list_ex (\<lambda>kv. value_deleting S (kv_value kv)) kvs) (get_responses ops)"

definition written ::
  "('b, 'j) store \<Rightarrow> ('s, 't, 'b) resource \<Rightarrow> string \<Rightarrow> 'b \<Rightarrow> 'b txn_response \<Rightarrow>
   ('b, store_error + ('s, 't) object) io" where
  "written S R name value resp =
     (case tr_revision resp of
        Some r \<Rightarrow> Done (decode R value r)
      | None \<Rightarrow> store_get S R name)"

definition create_inner ::
  "('b, 'j) store \<Rightarrow> ('s, 't, 'b) resource \<Rightarrow> ('s, 't) object \<Rightarrow> int option \<Rightarrow>
   ('b, store_error + ('s, 't) object) io" where
  "create_inner S R obj0 lease =
     (let name = md_name (metadata obj0);
          obj = obj0\<lparr>metadata := metadata obj0\<lparr>md_generation := 1\<rparr>\<rparr>;
          key = store_key S (RESOURCE R) name;
          opt = (case lease of None \<Rightarrow> PutPlain | Some l \<Rightarrow> PutLease l);
          subject = RESOURCE R @ ''/'' @ name in
      try_val (check_name name (NAME_SHAPE R)) (\<lambda>_.
      and_then utc_now (\<lambda>now.
      try_val (encode R obj now) (\<lambda>value.
      try_then (timed ''create''
                  (ReqTxn [CreateRevisionEq key 0] [OpPut key value opt] [OpGet key]) rep_txn) (\<lambda>resp.
      if \<not> tr_succeeded resp
      then Done (Inl (if is_terminating S (tr_op_responses resp) then Terminating subject
                      else AlreadyExists subject))
      else written S R name value resp)))))"

definition create ::
  "('b, 'j) store \<Rightarrow> ('s, 't, 'b) resource \<Rightarrow> ('s, 't) object \<Rightarrow> ('b, store_error + ('s, 't) object) io" where
  "create S R obj = create_inner S R obj None"

definition create_with_ttl ::
  "('b, 'j) store \<Rightarrow> ('s, 't, 'b) resource \<Rightarrow> ('s, 't) object \<Rightarrow> int \<Rightarrow>
   ('b, store_error + ('s, 't) object) io" where
  "create_with_ttl S R obj ttl_secs =
     try_then (timed ''lease_grant'' (ReqGrant ttl_secs) rep_lease)
       (\<lambda>lease. create_inner S R obj (Some lease))"

definition parse_rev :: "string \<Rightarrow> string \<Rightarrow> store_error + int" where
  "parse_rev why rv = (case parse_i64 rv of Some r \<Rightarrow> Inr r | None \<Rightarrow> Inl (Invalid why))"

definition concurrent_write :: "string \<Rightarrow> string \<Rightarrow> store_error" where
  "concurrent_write resource name =
     Conflict (''resource version conflict on '' @ resource @ ''/'' @ name @ '' (concurrent write)'')"

definition update ::
  "('b, 'j) store \<Rightarrow> ('s, 't, 'b) resource \<Rightarrow> ('s, 't) object \<Rightarrow> ('b, store_error + ('s, 't) object) io" where
  "update S R obj =
     (let name = md_name (metadata obj); key = store_key S (RESOURCE R) name in
      try_val (check_name name (NAME_SHAPE R)) (\<lambda>_.
      try_val (parse_rev ''invalid object: metadata.resourceVersion must be set for updates''
                 (md_resource_version (metadata obj))) (\<lambda>rv.
      and_then utc_now (\<lambda>now.
      try_val (encode R obj now) (\<lambda>value.
      try_then (timed ''update''
                  (ReqTxn [ModRevisionEq key rv] [OpPut key value PutIgnoreLease] []) rep_txn) (\<lambda>resp.
      if \<not> tr_succeeded resp then Done (Inl (concurrent_write (RESOURCE R) name))
      else written S R name value resp))))))"

definition update_if_standing ::
  "('b, 'j) store \<Rightarrow> ('s, 't, 'b) resource \<Rightarrow> ('u, 'v, 'b) resource \<Rightarrow> ('s, 't) object \<Rightarrow>
   ('u, 'v) object \<Rightarrow> ('b, store_error + ('s, 't) object) io" where
  "update_if_standing S R G obj guard =
     (let name = md_name (metadata obj);
          guard_name = md_name (metadata guard);
          key = store_key S (RESOURCE R) name;
          guard_key = store_key S (RESOURCE G) guard_name in
      try_val (check_name name (NAME_SHAPE R)) (\<lambda>_.
      try_val (parse_rev ''invalid object: metadata.resourceVersion must be set for updates''
                 (md_resource_version (metadata obj))) (\<lambda>rv.
      try_val (parse_rev ''invalid guard: metadata.resourceVersion must be set for a guarded update''
                 (md_resource_version (metadata guard))) (\<lambda>guard_rev.
      and_then utc_now (\<lambda>now.
      try_val (encode R obj now) (\<lambda>value.
      try_then (timed ''update''
                  (ReqTxn [ModRevisionEq key rv, ModRevisionEq guard_key guard_rev]
                     [OpPut key value PutIgnoreLease] [OpGet guard_key]) rep_txn) (\<lambda>resp.
      if \<not> tr_succeeded resp
      then let guard_stands =
                 list_ex (\<lambda>kvs. case kvs of [] \<Rightarrow> False | kv # _ \<Rightarrow> kv_mod_revision kv = guard_rev)
                   (get_responses (tr_op_responses resp))
           in Done (Inl (if guard_stands then concurrent_write (RESOURCE R) name
                else Conflict (RESOURCE G @ ''/'' @ guard_name @
                       '' no longer stands as it was read; '' @ RESOURCE R @ ''/'' @ name @
                       '' was not written'')))
      else written S R name value resp)))))))"

section \<open>Fences\<close>

definition store_fence :: "('b, 'j) store \<Rightarrow> string \<Rightarrow> ('b, store_error + fence) io" where
  "store_fence S name =
     (let key = st_prefix S @ ''/fences/'' @ name in
      try_then (timed ''fence'' (ReqGet key) rep_kvs)
        (\<lambda>kvs. Done (Inr \<lparr>fence_key = key,
            fence_revision = (case kvs of [] \<Rightarrow> 0 | kv # _ \<Rightarrow> kv_mod_revision kv)\<rparr>)))"

definition held :: "('b, 'j) store \<Rightarrow> 'b op_response list \<Rightarrow> bool option" where
  "held S ops =
     find_map (\<lambda>op. case op of
        GetResponse kvs \<Rightarrow> (case kvs of [] \<Rightarrow> None | kv # _ \<Rightarrow> Some (value_deleting S (kv_value kv)))
      | _ \<Rightarrow> None) ops"

text \<open>\<open>Result::map(Some)\<close> on the outcome of a program.\<close>

definition map_some :: "('b, 'e + 'a) io \<Rightarrow> ('b, 'e + 'a option) io" where
  "map_some m = try_then m (\<lambda>x. Done (Inr (Some x)))"

definition create_fenced ::
  "('b, 'j) store \<Rightarrow> ('s, 't, 'b) resource \<Rightarrow> ('s, 't) object \<Rightarrow> fence \<Rightarrow>
   ('b, store_error + ('s, 't) object option) io" where
  "create_fenced S R obj0 fence =
     (let name = md_name (metadata obj0);
          obj = obj0\<lparr>metadata := metadata obj0\<lparr>md_generation := 1\<rparr>\<rparr>;
          key = store_key S (RESOURCE R) name;
          subject = RESOURCE R @ ''/'' @ name in
      try_val (check_name name (NAME_SHAPE R)) (\<lambda>_.
      and_then utc_now (\<lambda>now.
      try_val (encode R obj now) (\<lambda>value.
      try_then (timed ''create''
                  (ReqTxn [CreateRevisionEq key 0, ModRevisionEq (fence_key fence) (fence_revision fence)]
                     [OpPut key value PutPlain,
                      OpPut (fence_key fence) (st_bytes S (fence_mark (RESOURCE R) name)) PutPlain]
                     [OpGet key]) rep_txn) (\<lambda>resp.
      if \<not> tr_succeeded resp
      then (case held S (tr_op_responses resp) of
              Some True \<Rightarrow> Done (Inl (Terminating subject))
            | Some False \<Rightarrow> Done (Inl (AlreadyExists subject))
            | None \<Rightarrow> Done (Inr None))
      else map_some (written S R name value resp))))))"

definition update_fenced ::
  "('b, 'j) store \<Rightarrow> ('s, 't, 'b) resource \<Rightarrow> ('s, 't) object \<Rightarrow> fence \<Rightarrow>
   ('b, store_error + ('s, 't) object option) io" where
  "update_fenced S R obj fence =
     (let name = md_name (metadata obj); key = store_key S (RESOURCE R) name in
      try_val (check_name name (NAME_SHAPE R)) (\<lambda>_.
      try_val (parse_rev ''invalid object: metadata.resourceVersion must be set for updates''
                 (md_resource_version (metadata obj))) (\<lambda>rv.
      and_then utc_now (\<lambda>now.
      try_val (encode R obj now) (\<lambda>value.
      try_then (timed ''update''
                  (ReqTxn [ModRevisionEq key rv, ModRevisionEq (fence_key fence) (fence_revision fence)]
                     [OpPut key value PutIgnoreLease,
                      OpPut (fence_key fence) (st_bytes S (fence_mark (RESOURCE R) name)) PutPlain]
                     [OpGet key]) rep_txn) (\<lambda>resp.
      if \<not> tr_succeeded resp
      then if list_ex (\<lambda>kvs. case kvs of [] \<Rightarrow> False | kv # _ \<Rightarrow> kv_mod_revision kv = rv)
                (get_responses (tr_op_responses resp))
           then Done (Inr None)
           else Done (Inl (concurrent_write (RESOURCE R) name))
      else map_some (written S R name value resp)))))))"

section \<open>Read, modify, write\<close>

definition retries_exhausted :: "string \<Rightarrow> string \<Rightarrow> store_error" where
  "retries_exhausted resource name =
     Conflict (''resource version conflict on '' @ resource @ ''/'' @ name @ '' (retries exhausted)'')"

text \<open>The body of the \<open>for _ in 0..n\<close> loops: a conflict goes around, everything else returns.\<close>

definition retry_conflict ::
  "('b, store_error + 'a) io \<Rightarrow> ('b, store_error + 'a) io \<Rightarrow> ('b, store_error + 'a) io" where
  "retry_conflict attempt again =
     and_then attempt (\<lambda>r. case r of
        Inr o1 \<Rightarrow> Done (Inr o1)
      | Inl (Conflict _) \<Rightarrow> again
      | Inl e \<Rightarrow> Done (Inl e))"

primrec mutate_loop ::
  "nat \<Rightarrow> ('b, 'j) store \<Rightarrow> ('s, 't, 'b) resource \<Rightarrow> string \<Rightarrow>
   (('s, 't) object \<Rightarrow> ('s, 't) object) \<Rightarrow> ('b, store_error + ('s, 't) object) io" where
  "mutate_loop 0 S R name f = Done (Inl (retries_exhausted (RESOURCE R) name))"
| "mutate_loop (Suc n) S R name f =
     try_then (store_get S R name) (\<lambda>obj.
       retry_conflict (update S R (f obj)) (mutate_loop n S R name f))"

definition mutate ::
  "('b, 'j) store \<Rightarrow> ('s, 't, 'b) resource \<Rightarrow> string \<Rightarrow> (('s, 't) object \<Rightarrow> ('s, 't) object) \<Rightarrow>
   ('b, store_error + ('s, 't) object) io" where
  "mutate S R name f = mutate_loop 8 S R name f"

text \<open>The closure of \<open>mutate_if\<close> runs on every attempt; the ones the controllers pass read the clock.\<close>

primrec mutate_if_loop ::
  "nat \<Rightarrow> ('b, 'j) store \<Rightarrow> ('s, 't, 'b) resource \<Rightarrow> string \<Rightarrow> string \<Rightarrow>
   (('s, 't) object \<Rightarrow> ('b, ('s, 't) object) io) \<Rightarrow> ('b, store_error + ('s, 't) object) io" where
  "mutate_if_loop 0 S R name uid f = Done (Inl (retries_exhausted (RESOURCE R) name))"
| "mutate_if_loop (Suc n) S R name uid f =
     try_then (store_get S R name) (\<lambda>obj.
       if md_uid (metadata obj) \<noteq> uid
       then Done (Inl (Conflict (''resource version conflict on '' @ RESOURCE R @ ''/'' @ name @
              '' (recreated under the same name)'')))
       else and_then (f obj) (\<lambda>obj'.
              retry_conflict (update S R obj') (mutate_if_loop n S R name uid f)))"

definition mutate_if ::
  "('b, 'j) store \<Rightarrow> ('s, 't, 'b) resource \<Rightarrow> string \<Rightarrow> string \<Rightarrow>
   (('s, 't) object \<Rightarrow> ('b, ('s, 't) object) io) \<Rightarrow> ('b, store_error + ('s, 't) object) io" where
  "mutate_if S R name uid f = mutate_if_loop 8 S R name uid f"

section \<open>Deletes and watches\<close>

definition store_delete ::
  "('b, 'j) store \<Rightarrow> ('s, 't, 'b) resource \<Rightarrow> string \<Rightarrow> ('b, store_error + unit) io" where
  "store_delete S R name =
     try_then (timed ''delete'' (ReqDelete (store_key S (RESOURCE R) name)) rep_done)
       (\<lambda>_. Done (Inr ()))"

definition delete_if ::
  "('b, 'j) store \<Rightarrow> ('s, 't, 'b) resource \<Rightarrow> string \<Rightarrow> string \<Rightarrow> ('b, store_error + unit) io" where
  "delete_if S R name resource_version =
     (let key = store_key S (RESOURCE R) name in
      try_val (parse_rev ''invalid object: metadata.resourceVersion must be set for a guarded delete''
                 resource_version) (\<lambda>rv.
      try_then (timed ''delete_if'' (ReqTxn [ModRevisionEq key rv] [OpDelete key] []) rep_txn) (\<lambda>resp.
      if \<not> tr_succeeded resp then Done (Inl (concurrent_write (RESOURCE R) name))
      else Done (Inr ()))))"

definition store_take ::
  "('b, 'j) store \<Rightarrow> ('s, 't, 'b) resource \<Rightarrow> string \<Rightarrow> ('b, store_error + ('s, 't) object option) io" where
  "store_take S R name =
     try_then (timed ''take'' (ReqTake (store_key S (RESOURCE R) name)) rep_kvs)
       (\<lambda>kvs. case kvs of
          [] \<Rightarrow> Done (Inr None)
        | kv # _ \<Rightarrow> Done (map_sum id Some (decode R (kv_value kv) (kv_mod_revision kv))))"

datatype watch_event = WatchPut | WatchDelete

record 'b etcd_event =
  ev_type :: watch_event
  ev_kv :: "'b kv option"

definition observed ::
  "('s, 't, 'b) resource \<Rightarrow> 'b etcd_event \<Rightarrow> (watch_event \<times> string \<times> ('s, 't) object option) option" where
  "observed R ev =
     (case ev_kv ev of
        None \<Rightarrow> None
      | Some kv \<Rightarrow>
          let name = List.last (split_on CHR ''/'' (kv_key kv)) in
          if ev_type ev = WatchDelete then Some (WatchDelete, name, None)
          else case decode R (kv_value kv) (kv_mod_revision kv) of
                 Inr obj \<Rightarrow> Some (WatchPut, name, Some obj)
               | Inl _ \<Rightarrow> None)"

section \<open>The registered resources\<close>

text \<open>The rows of the \<open>resources!\<close> table: directory, kind and shape of names.\<close>

definition ALL_RESOURCES :: "(string \<times> string \<times> name_shape) list" where
  "ALL_RESOURCES =
     [(''vms'', ''Vm'', DnsLabel), (''nodes'', ''Node'', DnsLabel), (''clusters'', ''Cluster'', DnsLabel),
      (''images'', ''Image'', Dotted), (''tenants'', ''Tenant'', DnsLabel), (''users'', ''User'', DnsLabel),
      (''certificatesigningrequests'', ''CertificateSigningRequest'', DnsLabel),
      (''counters'', ''Counter'', DnsLabel), (''floatingpools'', ''FloatingPool'', DnsLabel),
      (''floatingips'', ''FloatingIp'', Dotted), (''routedsubnets'', ''RoutedSubnet'', DnsLabel),
      (''providernetworks'', ''ProviderNetwork'', DnsLabel), (''routers'', ''Router'', DnsLabel),
      (''storagepools'', ''StoragePool'', DnsLabel), (''volumes'', ''Volume'', DnsLabel),
      (''volumesnapshots'', ''VolumeSnapshot'', DnsLabel), (''secrets'', ''Secret'', DnsLabel),
      (''vmmigrations'', ''VmMigration'', DnsLabel),
      (''capacityreservations'', ''CapacityReservation'', Dotted), (''tickets'', ''Ticket'', DnsLabel),
      (''events'', ''Event'', DnsLabel)]"

section \<open>Names make keys\<close>

lemma check_name_iff:
  "check_name name shape = Inr () \<longleftrightarrow>
     name \<noteq> [] \<and> length name \<le> MAX_NAME \<and> list_all (name_byte (shape = Dotted)) name \<and>
     (shape = Dotted \<longrightarrow> \<not> contains_dotdot name) \<and>
     is_ascii_alphanumeric (hd name) \<and> is_ascii_alphanumeric (List.last name)"
  by (auto simp: check_name_def name_invalid_def Let_def)

lemma name_byte_not_slash: "name_byte d c \<Longrightarrow> c \<noteq> CHR ''/''"
  by (auto simp: name_byte_def is_ascii_lowercase_def is_digit_def)

lemma checked_no_slash: "check_name name shape = Inr () \<Longrightarrow> CHR ''/'' \<notin> set name"
  using name_byte_not_slash unfolding check_name_iff list_all_iff by blast

lemma split_on_end: "d \<notin> set n \<Longrightarrow> \<exists>q qs. split_on d (p @ d # n) = (q # qs) @ [n]"
proof (induction p)
  case Nil then show ?case by (simp add: split_on_single)
next
  case (Cons c p)
  then obtain q qs where "split_on d (p @ d # n) = (q # qs) @ [n]" by blast
  then show ?case by auto
qed

lemma last_split_on: "d \<notin> set n \<Longrightarrow> List.last (split_on d (p @ d # n)) = n"
  using split_on_end [of d n p] by auto

lemma resource_no_slash: "(r, row) \<in> set ALL_RESOURCES \<Longrightarrow> CHR ''/'' \<notin> set r"
  by (auto simp: ALL_RESOURCES_def)

lemma slash_cut: "d \<notin> set a \<Longrightarrow> d \<notin> set b \<Longrightarrow> a @ d # x = b @ d # y \<longleftrightarrow> a = b \<and> x = y"
proof (induction a arbitrary: b)
  case Nil then show ?case by (cases b) auto
next
  case (Cons c a) then show ?case by (cases b) auto
qed

text \<open>C16: The registry never mixes objects up. For any two registered resources and any names their shape
  accepts, two keys are equal only for the same resource and the same name; listing a resource's
  directory covers exactly that resource's keys and no heartbeat; and the name that a watch reads off
  a key is the name it was stored under.\<close>

theorem registry_keys_are_exact:
  assumes "(r, k, sh) \<in> set ALL_RESOURCES" "(r', k', sh') \<in> set ALL_RESOURCES"
    and "check_name n sh = Inr ()" "check_name n' sh' = Inr ()"
  shows "(store_key S r n = store_key S r' n' \<longleftrightarrow> r = r' \<and> n = n') \<and>
    (prefix (store_dir S r') (store_key S r n) \<longleftrightarrow> r = r') \<and>
    \<not> prefix (store_dir S r') (lease_key (st_prefix S) r n) \<and>
    List.last (split_on CHR ''/'' (store_key S r n)) = n"
proof -
  note slash = resource_no_slash [OF assms(1)] resource_no_slash [OF assms(2)]
    checked_no_slash [OF assms(3)] checked_no_slash [OF assms(4)]
  have cut: "r @ CHR ''/'' # x = r' @ CHR ''/'' # y \<longleftrightarrow> r = r' \<and> x = y" for x y
    by (rule slash_cut) (use slash in auto)
  have "List.last (split_on CHR ''/'' ((st_prefix S @ ''/registry/'' @ r) @ CHR ''/'' # n)) = n"
    by (rule last_split_on [OF slash(3)])
  moreover have "prefix (r' @ ''/'') (r @ ''/'' @ n) \<longleftrightarrow> r = r'"
    using cut by (auto simp: prefix_def)
  ultimately show ?thesis
    using cut by (simp add: store_key_def store_dir_def lease_key_def)
qed

theorem registry_keys_are_exact_witness:
  "check_name ''debian-13.raw'' Dotted = Inr () \<and> check_name ''web'' DnsLabel = Inr () \<and>
   (\<forall>S :: (nat, nat) store. store_key S ''images'' ''debian-13.raw'' \<noteq> store_key S ''vms'' ''web'')"
proof -
  have ok: "check_name ''debian-13.raw'' Dotted = Inr ()" "check_name ''web'' DnsLabel = Inr ()"
    by (simp_all add: check_name_iff MAX_NAME_def name_byte_def is_ascii_lowercase_def is_digit_def
        is_ascii_alphanumeric_def)
  have "store_key S ''images'' ''debian-13.raw'' \<noteq> store_key S ''vms'' ''web''" for S :: "(nat, nat) store"
    using registry_keys_are_exact [of "''images''" "''Image''" Dotted "''vms''" "''Vm''" DnsLabel
        "''debian-13.raw''" "''web''" S] ok
    by (simp add: ALL_RESOURCES_def)
  then show ?thesis using ok by blast
qed

end
