(* ===== verification/Etcd_Logic.thy ===== *)
theory Etcd_Logic
  imports Etcd_Io
begin

text \<open>
  Reasoning about replicas. A program is judged against what the others may do (\<open>R\<close>, reflexive and
  transitive) and promises what each of its own requests does (\<open>G\<close>); both speak of the state of the
  service together with auxiliary state \<open>g\<close> that records what the requests have achieved. If every
  promise is allowed for by everybody else, the judgements of the programs hold together in
  every run of the system, whatever the interleaving (\<open>replicas_together\<close>).
\<close>

primrec guarded ::
  "('e, 'b) etcd_ops \<Rightarrow> ('e \<times> 'g \<Rightarrow> 'e \<times> 'g \<Rightarrow> bool) \<Rightarrow> ('e \<times> 'g \<Rightarrow> 'e \<times> 'g \<Rightarrow> bool) \<Rightarrow>
   ('b, 'a) io \<Rightarrow> ('a \<Rightarrow> 'e \<times> 'g \<Rightarrow> bool) \<Rightarrow> 'e \<times> 'g \<Rightarrow> bool" where
  "guarded X R G (Done a) Q s \<longleftrightarrow> Q a s"
| "guarded X R G (Ask q k) Q s \<longleftrightarrow>
     (\<forall>e g r e'. R s (e, g) \<longrightarrow> et_serve X e q r e' \<longrightarrow>
        (\<exists>g'. G (e, g) (e', g') \<and> guarded X R G (k r) Q (e', g')))"

lemma guarded_and_then:
  "guarded X R G (and_then m f) Q s \<longleftrightarrow> guarded X R G m (\<lambda>a. guarded X R G (f a) Q) s"
  by (induction m arbitrary: s) simp_all

lemma guarded_mono:
  "guarded X R G m Q s \<Longrightarrow> (\<And>a s. Q a s \<Longrightarrow> Q' a s) \<Longrightarrow> guarded X R G m Q' s"
proof (induction m arbitrary: s)
  case (Ask q k)
  have step: "guarded X R G (k r) Q s \<Longrightarrow> guarded X R G (k r) Q' s" for r s
    using Ask.IH [OF rangeI] Ask.prems(2) by blast
  show ?case using Ask.prems(1) step by (simp, blast)
qed simp

lemma guarded_AskI:
  assumes "\<And>e g r e'. R s (e, g) \<Longrightarrow> et_serve X e q r e' \<Longrightarrow>
             \<exists>g'. G (e, g) (e', g') \<and> guarded X R G (k r) Q (e', g')"
  shows "guarded X R G (Ask q k) Q s"
  using assms by simp

theorem replicas_together:
  fixes X :: "('e, 'b) etcd_ops" and R G :: "'i \<Rightarrow> 'e \<times> 'g \<Rightarrow> 'e \<times> 'g \<Rightarrow> bool"
  assumes run: "sys_run X env (e0, ps0) (e, ps)"
    and start: "\<And>i. guarded X (R i) (G i) (ps0 i) (Q i) (e0, g0)" "\<And>i. R i (e0, g0) (e0, g0)"
    and trans: "\<And>i s1 s2 s3. R i s1 s2 \<Longrightarrow> R i s2 s3 \<Longrightarrow> R i s1 s3"
    and apart: "\<And>i j s1 s2. G i s1 s2 \<Longrightarrow> i \<noteq> j \<Longrightarrow> R j s1 s2"
    and own: "\<And>i s1 s2. G i s1 s2 \<Longrightarrow> R i s2 s2"
    and others: "\<And>e1 g1 e2. env e1 e2 \<Longrightarrow> (\<And>i. \<exists>s. R i s (e1, g1)) \<Longrightarrow>
                   \<exists>g2. \<forall>i. R i (e1, g1) (e2, g2)"
  shows "\<exists>g. \<forall>i. \<exists>s. R i s (e, g) \<and> guarded X (R i) (G i) (ps i) (Q i) s"
  using run
proof (induction "(e, ps)" arbitrary: e ps rule: rtranclp_induct)
  case base
  then show ?case using start by blast
next
  case (step y)
  obtain e1 ps1 where y: "y = (e1, ps1)" by (cases y)
  obtain g where g: "\<forall>i. \<exists>s. R i s (e1, g) \<and> guarded X (R i) (G i) (ps1 i) (Q i) s"
    using step.hyps(3) y by blast
  from step.hyps(2) show ?case unfolding y
  proof cases
    case (served i q k r)
    obtain s where s: "R i s (e1, g)" "guarded X (R i) (G i) (Ask q k) (Q i) s"
      using g served by (metis)
    then obtain g' where g': "G i (e1, g) (e, g')" "guarded X (R i) (G i) (k r) (Q i) (e, g')"
      using served by simp blast
    have "\<exists>s. R j s (e, g') \<and> guarded X (R j) (G j) (ps j) (Q j) s" for j
    proof (cases "j = i")
      case True then show ?thesis using g' own [OF g'(1)] served(1) by (simp, blast)
    next
      case False
      obtain s where "R j s (e1, g)" "guarded X (R j) (G j) (ps1 j) (Q j) s" using g by blast
      then show ?thesis using apart [OF g'(1)] False trans served by (metis fun_upd_apply)
    qed
    then show ?thesis by blast
  next
    case elsewhere
    obtain g2 where g2: "\<And>i. R i (e1, g) (e, g2)" using others [OF elsewhere(2)] g by blast
    have "\<exists>s. R j s (e, g2) \<and> guarded X (R j) (G j) (ps j) (Q j) s" for j
    proof -
      obtain s where s: "R j s (e1, g)" "guarded X (R j) (G j) (ps1 j) (Q j) s" using g by blast
      then show ?thesis using s trans [OF s(1) g2] elsewhere(1) by blast
    qed
    then show ?thesis by blast
  qed
qed

end
