(* ===== verification/Store_Rules.thy ===== *)
theory Store_Rules
  imports Etcd_Store Etcd_Logic
begin

text \<open>
  What the operations of the store do between replicas: one proof rule per operation, in the
  judgement of \<open>Etcd_Logic\<close>. Every rule lists the outcomes: an outage, in which a write has happened
  or has not, the refusals, and the success, each with the state it is judged in.
\<close>

fun unavailable :: "store_error \<Rightarrow> bool" where
  "unavailable (Timeout _ _) = True" | "unavailable (Backend _) = True" | "unavailable _ = False"

definition puts :: "('e, 'b) etcd_ops \<Rightarrow> 'e \<Rightarrow> string \<Rightarrow> 'b \<Rightarrow> 'e \<Rightarrow> bool" where
  "puts X e k v e' \<longleftrightarrow>
     et_ok X e' \<and> et_head X e' = et_head X e + 1 \<and>
     et_look X e' = (et_look X e)(k \<mapsto> put_entry (et_head X e + 1) k v (et_look X e))"

definition drops :: "('e, 'b) etcd_ops \<Rightarrow> 'e \<Rightarrow> string \<Rightarrow> 'e \<Rightarrow> bool" where
  "drops X e k e' \<longleftrightarrow>
     et_ok X e' \<and> et_head X e \<le> et_head X e' \<and> et_look X e' = (et_look X e)(k := None)"

text \<open>Every answer to a transaction carries a header with the revision. etcd sends it; where it is not
  assumed, the store's read-back of a write without a header is part of the argument.\<close>

definition always_headed :: "('e, 'b) etcd_ops \<Rightarrow> bool" where
  "always_headed X \<longleftrightarrow>
     (\<forall>e q t e'. et_ok X e \<longrightarrow> et_serve X e q (RepTxn t) e' \<longrightarrow> tr_revision t \<noteq> None)"

text \<open>What any step of anybody does to one key: revisions grow, and an entry that was not there before
  carries a revision that did not exist before. So an entry found again under its revision is the
  entry that was read.\<close>

definition key_moves :: "('e, 'b) etcd_ops \<Rightarrow> string \<Rightarrow> 'e \<Rightarrow> 'e \<Rightarrow> bool" where
  "key_moves X k e e' \<longleftrightarrow>
     et_head X e \<le> et_head X e' \<and>
     (\<forall>x. et_look X e' k = Some x \<longrightarrow> et_look X e k = Some x \<or> et_head X e < en_mod_revision x)"

lemma key_moves_trans: "key_moves X k e1 e2 \<Longrightarrow> key_moves X k e2 e3 \<Longrightarrow> key_moves X k e1 e3"
  by (force simp: key_moves_def)

lemma key_moves_same:
  "et_look X e' k = et_look X e k \<Longrightarrow> et_head X e \<le> et_head X e' \<Longrightarrow> key_moves X k e e'"
  by (simp add: key_moves_def)

lemma key_moves_found:
  assumes "key_moves X k e e'" "et_look X e k = Some x" "en_mod_revision x \<le> et_head X e"
    "et_look X e' k = Some y" "en_mod_revision y = en_mod_revision x"
  shows "y = x"
proof -
  have "et_look X e k = Some y \<or> et_head X e < en_mod_revision y"
    using assms(1,4) by (simp add: key_moves_def)
  moreover have "\<not> et_head X e < en_mod_revision y" using assms(3,5) by linarith
  ultimately show ?thesis using assms(2) by (metis option.inject)
qed

lemma puts_moves: "puts X e k v e' \<Longrightarrow> key_moves X k' e e'"
  by (auto simp: key_moves_def puts_def put_entry_def)

lemma drops_moves: "drops X e k e' \<Longrightarrow> key_moves X k' e e'"
  by (auto simp: key_moves_def drops_def)

locale replica = etcd X for X :: "('e, 'b) etcd_ops" +
  fixes R G :: "'e \<times> 'g \<Rightarrow> 'e \<times> 'g \<Rightarrow> bool"
  assumes rely_ok: "R s (e, g) \<Longrightarrow> et_ok X e"
    and rely_trans: "R s1 s2 \<Longrightarrow> R s2 s3 \<Longrightarrow> R s1 s3"
    and rely_refl: "R s1 s2 \<Longrightarrow> R s2 s2"
    and still: "R s (e, g) \<Longrightarrow> et_ok X e' \<Longrightarrow> unchanged X e e' \<Longrightarrow> R s (e', g) \<and> G (e, g) (e', g)"
begin

lemma ask_reading:
  assumes rd: "request_txn q = ([], [], [])"
    and out: "\<And>e g r. R s (e, g) \<Longrightarrow> reply_tells X e q r e \<Longrightarrow> guarded X R G (k r) Q (e, g)"
  shows "guarded X R G (Ask q k) Q s"
proof (rule guarded_AskI)
  fix e g r e'
  assume r: "R s (e, g)" and sv: "et_serve X e q r e'"
  have un: "unchanged X e e'" by (rule reads_nothing [OF rely_ok [OF r] sv rd])
  have "R s (e', g)" "G (e, g) (e', g)"
    using still [OF r ok_kept [OF rely_ok [OF r] sv] un] by auto
  moreover have "reply_tells X e' q r e'"
    using told [OF rely_ok [OF r] sv] un by (cases r; cases q) (simp_all add: unchanged_def)
  ultimately show "\<exists>g'. G (e, g) (e', g') \<and> guarded X R G (k r) Q (e', g')"
    using out by blast
qed

lemma now_rule:
  assumes "\<And>e g t. R s (e, g) \<Longrightarrow> guarded X R G (f t) Q (e, g)"
  shows "guarded X R G (and_then utc_now f) Q s"
  unfolding utc_now_def and_then.simps by (rule ask_reading) (simp_all add: assms)

lemma uid_rule:
  assumes "\<And>e g u. R s (e, g) \<Longrightarrow> guarded X R G (f u) Q (e, g)"
  shows "guarded X R G (and_then new_uid f) Q s"
  unfolding new_uid_def and_then.simps by (rule ask_reading) (simp_all add: assms)

lemma timed_reading:
  assumes rdq: "request_txn q = ([], [], [])"
    and outage: "\<And>e g err. R s (e, g) \<Longrightarrow> unavailable err \<Longrightarrow> Q (Inl err) (e, g)"
    and answered: "\<And>e g r a. R s (e, g) \<Longrightarrow> reply_tells X e q r e \<Longrightarrow> rd r = Some a \<Longrightarrow>
          guarded X R G (f a) Q (e, g)"
  shows "guarded X R G (try_then (timed what q rd) f) Q s"
  unfolding try_then_def timed_def and_then.simps
  by (rule ask_reading [OF rdq])
    (auto split: option.splits reply.splits intro: outage answered)

lemma timed_txn:
  assumes outage: "\<And>e g err. R s (e, g) \<Longrightarrow> unavailable err \<Longrightarrow> Q (Inl err) (e, g)"
    and lost: "\<And>e g e' err. R s (e, g) \<Longrightarrow> txn_runs X e cs a b e' \<Longrightarrow> et_ok X e' \<Longrightarrow>
          unavailable err \<Longrightarrow> \<exists>g'. G (e, g) (e', g') \<and> Q (Inl err) (e', g')"
    and answered: "\<And>e g t e'. R s (e, g) \<Longrightarrow> txn_runs X e cs a b e' \<Longrightarrow> et_ok X e' \<Longrightarrow>
          reply_tells X e (ReqTxn cs a b) (RepTxn t) e' \<Longrightarrow> (always_headed X \<Longrightarrow> tr_revision t \<noteq> None) \<Longrightarrow>
          \<exists>g'. G (e, g) (e', g') \<and> guarded X R G (f t) Q (e', g')"
  shows "guarded X R G (try_then (timed what (ReqTxn cs a b) rep_txn) f) Q s"
  unfolding try_then_def timed_def and_then.simps
proof (rule guarded_AskI)
  fix e g r e'
  assume r: "R s (e, g)" and sv: "et_serve X e (ReqTxn cs a b) r e'"
  note ok = rely_ok [OF r]
  have ok': "et_ok X e'" by (rule ok_kept [OF ok sv])
  have tells: "reply_tells X e (ReqTxn cs a b) r e'" by (rule told [OF ok sv])
  have quiet: "\<exists>g'. G (e, g) (e', g') \<and> Q (Inl err) (e', g')"
    if "unavailable err" and "unanswered r" for err
    using happened [OF ok sv] lost [OF r _ ok' that(1)] still [OF r ok'] outage that
    by (auto simp: request_runs_def)
  have headed: "tr_revision t \<noteq> None" if "r = RepTxn t" and "always_headed X" for t
    using that ok sv unfolding always_headed_def by metis
  show "\<exists>g'. G (e, g) (e', g') \<and> guarded X R G
          (and_then
            (case rep_txn r of
             None \<Rightarrow> (case r of RepFailed m \<Rightarrow> Done (Inl (Backend m))
                       | RepTimedOut \<Rightarrow> Done (Inl (Timeout what REQUEST_TIMEOUT))
                       | _ \<Rightarrow> Done (Inl (Backend ''unexpected reply'')))
             | Some a \<Rightarrow> Done (Inr a)) (case_sum (\<lambda>e. Done (Inl e)) f)) Q (e', g')"
    using tells quiet answered [OF r _ ok'] happened [OF ok sv] headed
    by (cases r) (auto simp: request_runs_def)
qed

lemma get_rule:
  assumes outage: "\<And>e g err. R s (e, g) \<Longrightarrow> unavailable err \<Longrightarrow> Q (Inl err) (e, g)"
    and missing: "\<And>e g. R s (e, g) \<Longrightarrow> et_look X e (store_key S (RESOURCE T) name) = None \<Longrightarrow>
          Q (Inl (NotFound (RESOURCE T @ ''/'' @ name))) (e, g)"
    and present: "\<And>e g x. R s (e, g) \<Longrightarrow> et_look X e (store_key S (RESOURCE T) name) = Some x \<Longrightarrow>
          Q (decode T (en_value x) (en_mod_revision x)) (e, g)"
  shows "guarded X R G (store_get S T name) Q s"
  unfolding store_get_def
proof (rule timed_reading)
  fix e g r a
  assume r: "R s (e, g)" and t: "reply_tells X e (ReqGet (store_key S (RESOURCE T) name)) r e"
    and a: "rep_kvs r = Some a"
  show "guarded X R G (case a of [] \<Rightarrow> Done (Inl (NotFound (RESOURCE T @ ''/'' @ name)))
          | kv # _ \<Rightarrow> Done (decode T (kv_value kv) (kv_mod_revision kv))) Q (e, g)"
    using t a missing [OF r] present [OF r]
    by (cases r) (auto simp: kv_at_def kv_of_def split: option.splits)
qed (simp_all add: outage)

lemma txn_stale:
  assumes "R s (e, g)" "et_ok X e'" "txn_runs X e cs a b e'" "\<not> list_all (compare_holds (et_look X e)) cs"
    "\<not> list_ex is_write b"
  shows "unchanged X e e'" "R s (e', g)" "G (e, g) (e', g)"
proof -
  have "apply_ops n b m = m" for n m
    using assms(5)
  proof (induction b arbitrary: m)
    case (Cons op b) then show ?case by (cases op) auto
  qed simp
  then show "unchanged X e e'"
    using assms(3-5) by (auto simp: txn_runs_def unchanged_def txn_branch_def Let_def)
  then show "R s (e', g)" "G (e, g) (e', g)" using still assms(1,2) by blast+
qed

lemma txn_put:
  assumes "et_ok X e'" "txn_runs X e cs [OpPut k v opt] b e'" "list_all (compare_holds (et_look X e)) cs"
  shows "puts X e k v e'" "opt = PutIgnoreLease \<Longrightarrow> et_look X e k \<noteq> None"
  using assms by (auto simp: txn_runs_def txn_branch_def puts_def Let_def)

lemma written_rule:
  assumes "\<And>r. tr_revision resp = Some r \<Longrightarrow> Q (decode T v r) s"
    and "tr_revision resp = None \<Longrightarrow> guarded X R G (store_get S T name) Q s"
  shows "guarded X R G (written S T name v resp) Q s"
  using assms by (auto simp: written_def split: option.splits)

text \<open>The transaction of \<open>create\<close>, \<open>update\<close> and \<open>update_if_standing\<close>: comparisons, one put, and on
  failure nothing but reads.\<close>

lemma cas_rule:
  assumes ro: "\<not> list_ex is_write b"
    and outage: "\<And>e g err. R s (e, g) \<Longrightarrow> unavailable err \<Longrightarrow> Q (Inl err) (e, g)"
    and stale: "\<And>e g t. R s (e, g) \<Longrightarrow> \<not> list_all (compare_holds (et_look X e)) cs \<Longrightarrow>
          ops_answered (et_head X e + 1) (et_look X e) b (tr_op_responses t) \<Longrightarrow> Q (F t) (e, g)"
    and lost: "\<And>e g e' err. R s (e, g) \<Longrightarrow> list_all (compare_holds (et_look X e)) cs \<Longrightarrow>
          (opt = PutIgnoreLease \<Longrightarrow> et_look X e key \<noteq> None) \<Longrightarrow> puts X e key v e' \<Longrightarrow> unavailable err \<Longrightarrow>
          \<exists>g'. G (e, g) (e', g') \<and> Q (Inl err) (e', g')"
    and stored: "\<And>e g e'. R s (e, g) \<Longrightarrow> list_all (compare_holds (et_look X e)) cs \<Longrightarrow>
          (opt = PutIgnoreLease \<Longrightarrow> et_look X e key \<noteq> None) \<Longrightarrow> puts X e key v e' \<Longrightarrow>
          \<exists>g'. G (e, g) (e', g') \<and> Q (decode T v (et_head X e')) (e', g') \<and>
               (always_headed X \<or> guarded X R G (store_get S T name) Q (e', g'))"
  shows "guarded X R G
      (try_then (timed what (ReqTxn cs [OpPut key v opt] b) rep_txn)
        (\<lambda>resp. if \<not> tr_succeeded resp then Done (F resp) else written S T name v resp)) Q s"
proof (rule timed_txn)
  fix e g e' err
  assume r: "R s (e, g)" and t: "txn_runs X e cs [OpPut key v opt] b e'"
    and ok: "et_ok X e'" and err: "unavailable err"
  show "\<exists>g'. G (e, g) (e', g') \<and> Q (Inl err) (e', g')"
  proof (cases "list_all (compare_holds (et_look X e)) cs")
    case True
    note p = txn_put [OF ok t True]
    show ?thesis by (rule lost [OF r True p(2) p(1) err])
  next
    case False
    show ?thesis using txn_stale [OF r ok t False ro] outage err by auto
  qed
next
  fix e g t e'
  assume r: "R s (e, g)" and t: "txn_runs X e cs [OpPut key v opt] b e'" and ok: "et_ok X e'"
    and tells: "reply_tells X e (ReqTxn cs [OpPut key v opt] b) (RepTxn t) e'"
    and headed: "always_headed X \<Longrightarrow> tr_revision t \<noteq> None"
  let ?after = "if \<not> tr_succeeded t then Done (F t) else written S T name v t"
  show "\<exists>g'. G (e, g) (e', g') \<and> guarded X R G ?after Q (e', g')"
  proof (cases "list_all (compare_holds (et_look X e)) cs")
    case True
    note p = txn_put [OF ok t True]
    obtain g' where "G (e, g) (e', g')" "Q (decode T v (et_head X e')) (e', g')"
        "always_headed X \<or> guarded X R G (store_get S T name) Q (e', g')"
      using stored [OF r True p(2) p(1)] by auto
    then show ?thesis using tells True headed
      by (intro exI [of _ g']) (auto intro!: written_rule split: option.splits)
  next
    case False
    note st = txn_stale [OF r ok t False ro]
    have "Q (F t) (e', g)"
      using stale [OF st(2), of t] st(1) False tells by (auto simp: unchanged_def txn_branch_def)
    then show ?thesis using st tells False by auto
  qed
qed (rule outage)

lemma update_rule:
  fixes T :: "('s, 't, 'b) resource" and S :: "('b, 'j) store" and obj :: "('s, 't) object"
  defines "name \<equiv> md_name (metadata obj)"
  defines "key \<equiv> store_key S (RESOURCE T) name"
  assumes refused: "\<And>err. Q (Inl (Invalid err)) s"
    and unwritten: "\<And>e g err. R s (e, g) \<Longrightarrow> unavailable err \<or> (\<exists>m. err = Invalid m) \<Longrightarrow> Q (Inl err) (e, g)"
    and stale: "\<And>e g. R s (e, g) \<Longrightarrow>
          (\<And>x. et_look X e key = Some x \<Longrightarrow> parse_i64 (md_resource_version (metadata obj)) \<noteq> Some (en_mod_revision x)) \<Longrightarrow>
          Q (Inl (concurrent_write (RESOURCE T) name)) (e, g)"
    and lost: "\<And>e g e' x v now err. R s (e, g) \<Longrightarrow> et_look X e key = Some x \<Longrightarrow>
          parse_i64 (md_resource_version (metadata obj)) = Some (en_mod_revision x) \<Longrightarrow>
          encode T obj now = Inr v \<Longrightarrow> puts X e key v e' \<Longrightarrow> unavailable err \<Longrightarrow>
          \<exists>g'. G (e, g) (e', g') \<and> Q (Inl err) (e', g')"
    and stored: "\<And>e g e' x v now. R s (e, g) \<Longrightarrow> et_look X e key = Some x \<Longrightarrow>
          parse_i64 (md_resource_version (metadata obj)) = Some (en_mod_revision x) \<Longrightarrow>
          encode T obj now = Inr v \<Longrightarrow> puts X e key v e' \<Longrightarrow>
          \<exists>g'. G (e, g) (e', g') \<and> Q (decode T v (et_head X e')) (e', g') \<and>
               (always_headed X \<or> guarded X R G (store_get S T name) Q (e', g'))"
  shows "guarded X R G (update S T obj) Q s"
proof -
  have run: "guarded X R G
      (try_then (timed ''update'' (ReqTxn [ModRevisionEq key rv] [OpPut key v PutIgnoreLease] []) rep_txn)
        (\<lambda>resp. if \<not> tr_succeeded resp then Done (Inl (concurrent_write (RESOURCE T) name))
                else written S T name v resp)) Q (e1, g1)"
    if rv: "parse_i64 (md_resource_version (metadata obj)) = Some rv"
      and v: "encode T obj now = Inr v" and r1: "R s (e1, g1)" for rv v now e1 g1
    by (rule cas_rule [where F = "\<lambda>_. Inl (concurrent_write (RESOURCE T) name)"])
      (use rely_trans [OF r1] rv v in \<open>auto intro: unwritten stale lost stored\<close>)
  show ?thesis
    unfolding update_def Let_def name_def [symmetric] key_def [symmetric] try_val_def parse_rev_def
    using refused run
    by (auto simp: check_name_def name_invalid_def Let_def encode_def intro!: now_rule unwritten
        split: option.splits sum.splits if_splits)
qed

lemma create_rule:
  fixes T :: "('s, 't, 'b) resource" and S :: "('b, 'j) store" and obj :: "('s, 't) object"
  defines "name \<equiv> md_name (metadata obj)"
  defines "key \<equiv> store_key S (RESOURCE T) name"
  defines "first \<equiv> obj\<lparr>metadata := metadata obj\<lparr>md_generation := 1\<rparr>\<rparr>"
  assumes refused: "\<And>err. Q (Inl (Invalid err)) s"
    and unwritten: "\<And>e g err. R s (e, g) \<Longrightarrow> unavailable err \<or> (\<exists>m. err = Invalid m) \<Longrightarrow> Q (Inl err) (e, g)"
    and taken: "\<And>e g x err. R s (e, g) \<Longrightarrow> et_look X e key = Some x \<Longrightarrow>
          err = Terminating (RESOURCE T @ ''/'' @ name) \<and> value_deleting S (en_value x) \<or>
          err = AlreadyExists (RESOURCE T @ ''/'' @ name) \<and> \<not> value_deleting S (en_value x) \<Longrightarrow>
          Q (Inl err) (e, g)"
    and lost: "\<And>e g e' v now err. R s (e, g) \<Longrightarrow> et_look X e key = None \<Longrightarrow>
          encode T first now = Inr v \<Longrightarrow> puts X e key v e' \<Longrightarrow> unavailable err \<Longrightarrow>
          \<exists>g'. G (e, g) (e', g') \<and> Q (Inl err) (e', g')"
    and stored: "\<And>e g e' v now. R s (e, g) \<Longrightarrow> et_look X e key = None \<Longrightarrow>
          check_name name (NAME_SHAPE T) = Inr () \<Longrightarrow> encode T first now = Inr v \<Longrightarrow> puts X e key v e' \<Longrightarrow>
          \<exists>g'. G (e, g) (e', g') \<and> Q (decode T v (et_head X e')) (e', g') \<and>
               (always_headed X \<or> guarded X R G (store_get S T name) Q (e', g'))"
  shows "guarded X R G (create_inner S T obj lease) Q s"
proof -
  let ?subject = "RESOURCE T @ ''/'' @ name"
  have run: "guarded X R G
      (try_then (timed ''create'' (ReqTxn [CreateRevisionEq key 0] [OpPut key v opt] [OpGet key]) rep_txn)
        (\<lambda>resp. if \<not> tr_succeeded resp
                then Done (Inl (if is_terminating S (tr_op_responses resp) then Terminating ?subject
                                else AlreadyExists ?subject))
                else written S T name v resp)) Q (e1, g1)"
    if v: "encode T first now = Inr v" and r1: "R s (e1, g1)"
      and nm: "check_name name (NAME_SHAPE T) = Inr ()" for opt v now e1 g1
  proof (rule cas_rule [where F = "\<lambda>resp. Inl (if is_terminating S (tr_op_responses resp)
                                     then Terminating ?subject else AlreadyExists ?subject)"])
    have free: "et_look X e key = None"
      if "R (e1, g1) (e, g)" "list_all (compare_holds (et_look X e)) [CreateRevisionEq key 0]" for e g
      using revisions [OF rely_ok [OF that(1)], of key] that(2) by (fastforce split: option.splits)
    show "\<exists>g'. G (e, g) (e', g') \<and> Q (Inl err) (e', g')"
      if "R (e1, g1) (e, g)" "list_all (compare_holds (et_look X e)) [CreateRevisionEq key 0]"
        "puts X e key v e'" "unavailable err" for e g e' err
      using lost [OF rely_trans [OF r1 that(1)] free [OF that(1,2)] v that(3,4)] .
    show "\<exists>g'. G (e, g) (e', g') \<and> Q (decode T v (et_head X e')) (e', g') \<and>
             (always_headed X \<or> guarded X R G (store_get S T name) Q (e', g'))"
      if "R (e1, g1) (e, g)" "list_all (compare_holds (et_look X e)) [CreateRevisionEq key 0]"
        "puts X e key v e'" for e g e'
      using stored [OF rely_trans [OF r1 that(1)] free [OF that(1,2)] nm v that(3)] .
    show "Q (Inl (if is_terminating S (tr_op_responses t) then Terminating ?subject
                  else AlreadyExists ?subject)) (e, g)"
      if c: "R (e1, g1) (e, g)" "\<not> list_all (compare_holds (et_look X e)) [CreateRevisionEq key 0]"
        "ops_answered (et_head X e + 1) (et_look X e) [OpGet key] (tr_op_responses t)" for e g t
    proof -
      obtain x where "et_look X e key = Some x" using c(2) by (auto split: option.splits)
      then show ?thesis using taken [OF rely_trans [OF r1 c(1)]] c(3)
        by (auto simp: is_terminating_def kv_at_def kv_of_def)
    qed
  qed (use unwritten rely_trans [OF r1] in auto)
  show ?thesis
    unfolding create_inner_def Let_def name_def [symmetric] key_def [symmetric] first_def [symmetric]
      try_val_def
    using refused run
    by (cases "check_name name (NAME_SHAPE T)")
      (auto simp: check_name_def name_invalid_def Let_def encode_def intro!: now_rule unwritten
        split: option.splits sum.splits if_splits)
qed

text \<open>The guarded update writes only over the object it was made from, and only while the guard is
  the one that was read.\<close>

lemma update_if_standing_rule:
  fixes T :: "('s, 't, 'b) resource" and U :: "('u, 'v, 'b) resource" and S :: "('b, 'j) store"
    and obj :: "('s, 't) object" and guard :: "('u, 'v) object"
  defines "name \<equiv> md_name (metadata obj)"
  defines "key \<equiv> store_key S (RESOURCE T) name"
  defines "guard_key \<equiv> store_key S (RESOURCE U) (md_name (metadata guard))"
  assumes refused: "\<And>err. Q (Inl (Invalid err)) s"
    and unwritten: "\<And>e g err. R s (e, g) \<Longrightarrow> unavailable err \<or> (\<exists>m. err = Invalid m) \<or> (\<exists>m. err = Conflict m) \<Longrightarrow>
          Q (Inl err) (e, g)"
    and lost: "\<And>e g e' x y v now err. R s (e, g) \<Longrightarrow> et_look X e key = Some x \<Longrightarrow>
          parse_i64 (md_resource_version (metadata obj)) = Some (en_mod_revision x) \<Longrightarrow>
          parse_i64 (md_resource_version (metadata guard)) = Some y \<Longrightarrow>
          compare_holds (et_look X e) (ModRevisionEq guard_key y) \<Longrightarrow>
          encode T obj now = Inr v \<Longrightarrow> puts X e key v e' \<Longrightarrow> unavailable err \<Longrightarrow>
          \<exists>g'. G (e, g) (e', g') \<and> Q (Inl err) (e', g')"
    and stored: "\<And>e g e' x y v now. R s (e, g) \<Longrightarrow> et_look X e key = Some x \<Longrightarrow>
          parse_i64 (md_resource_version (metadata obj)) = Some (en_mod_revision x) \<Longrightarrow>
          parse_i64 (md_resource_version (metadata guard)) = Some y \<Longrightarrow>
          compare_holds (et_look X e) (ModRevisionEq guard_key y) \<Longrightarrow>
          encode T obj now = Inr v \<Longrightarrow> puts X e key v e' \<Longrightarrow>
          \<exists>g'. G (e, g) (e', g') \<and> Q (decode T v (et_head X e')) (e', g') \<and>
               (always_headed X \<or> guarded X R G (store_get S T name) Q (e', g'))"
  shows "guarded X R G (update_if_standing S T U obj guard) Q s"
proof -
  let ?F = "\<lambda>guard_rev resp.
      let guard_stands =
                 list_ex (\<lambda>kvs. case kvs of [] \<Rightarrow> False | kv # _ \<Rightarrow> kv_mod_revision kv = guard_rev)
                   (get_responses (tr_op_responses resp))
           in Inl (if guard_stands then concurrent_write (RESOURCE T) name
                else Conflict (RESOURCE U @ ''/'' @ md_name (metadata guard) @
                       '' no longer stands as it was read; '' @ RESOURCE T @ ''/'' @ name @
                       '' was not written''))"
  have run: "guarded X R G
      (try_then (timed ''update'' (ReqTxn [ModRevisionEq key rv, ModRevisionEq guard_key y]
                     [OpPut key v PutIgnoreLease] [OpGet guard_key]) rep_txn)
        (\<lambda>resp. if \<not> tr_succeeded resp then Done (?F y resp) else written S T name v resp)) Q (e1, g1)"
    if rv: "parse_i64 (md_resource_version (metadata obj)) = Some rv"
      and y: "parse_i64 (md_resource_version (metadata guard)) = Some y"
      and v: "encode T obj now = Inr v" and r1: "R s (e1, g1)" for rv y v now e1 g1
    by (rule cas_rule [where F = "?F y"])
      (use rely_trans [OF r1] rv y v in
        \<open>auto simp: Let_def concurrent_write_def intro!: unwritten intro: lost stored\<close>)
  show ?thesis
    unfolding update_if_standing_def Let_def name_def [symmetric] key_def [symmetric]
      guard_key_def [symmetric] try_val_def parse_rev_def
    using refused run [unfolded Let_def]
    by (auto simp: check_name_def name_invalid_def Let_def encode_def intro!: now_rule unwritten
        split: option.splits sum.splits if_splits)
qed

lemma delete_if_rule:
  fixes T :: "('s, 't, 'b) resource" and S :: "('b, 'j) store" and name version :: string
  defines "key \<equiv> store_key S (RESOURCE T) name"
  assumes refused: "\<And>err. Q (Inl (Invalid err)) s"
    and unwritten: "\<And>e g err. R s (e, g) \<Longrightarrow> unavailable err \<or> (\<exists>m. err = Conflict m) \<Longrightarrow> Q (Inl err) (e, g)"
    and dropped: "\<And>e g e' rv r. R s (e, g) \<Longrightarrow> parse_i64 version = Some rv \<Longrightarrow>
          compare_holds (et_look X e) (ModRevisionEq key rv) \<Longrightarrow> drops X e key e' \<Longrightarrow>
          r = Inr () \<or> (\<exists>err. r = Inl err \<and> unavailable err) \<Longrightarrow>
          \<exists>g'. G (e, g) (e', g') \<and> Q r (e', g')"
  shows "guarded X R G (delete_if S T name version) Q s"
proof -
  have run: "guarded X R G
      (try_then (timed ''delete_if'' (ReqTxn [ModRevisionEq key rv] [OpDelete key] []) rep_txn)
        (\<lambda>resp. if \<not> tr_succeeded resp then Done (Inl (concurrent_write (RESOURCE T) name))
                else Done (Inr ()))) Q s"
    if rv: "parse_i64 version = Some rv" for rv
  proof (rule timed_txn)
    have gone: "drops X e key e'"
      if "txn_runs X e [ModRevisionEq key rv] [OpDelete key] [] e'" "et_ok X e'"
        "list_all (compare_holds (et_look X e)) [ModRevisionEq key rv]" for e e'
      using that by (auto simp: txn_runs_def txn_branch_def drops_def Let_def)
    show "\<exists>g'. G (e, g) (e', g') \<and> Q (Inl err) (e', g')"
      if c: "R s (e, g)" "txn_runs X e [ModRevisionEq key rv] [OpDelete key] [] e'" "et_ok X e'"
        "unavailable err" for e g e' err
    proof (cases "list_all (compare_holds (et_look X e)) [ModRevisionEq key rv]")
      case True then show ?thesis using dropped [OF c(1) rv _ gone [OF c(2,3) True]] c(4) by simp
    next
      case False then show ?thesis using txn_stale [OF c(1,3,2) False] unwritten c(4) by auto
    qed
    show "\<exists>g'. G (e, g) (e', g') \<and> guarded X R G
        (if \<not> tr_succeeded t then Done (Inl (concurrent_write (RESOURCE T) name)) else Done (Inr ())) Q (e', g')"
      if c: "R s (e, g)" "txn_runs X e [ModRevisionEq key rv] [OpDelete key] [] e'" "et_ok X e'"
        "reply_tells X e (ReqTxn [ModRevisionEq key rv] [OpDelete key] []) (RepTxn t) e'" for e g t e'
    proof (cases "list_all (compare_holds (et_look X e)) [ModRevisionEq key rv]")
      case True
      then show ?thesis using dropped [OF c(1) rv _ gone [OF c(2,3) True], of "Inr ()"] c(4) by simp
    next
      case False
      then show ?thesis using txn_stale [OF c(1,3,2) False] unwritten c(4)
        by (auto simp: concurrent_write_def)
    qed
  qed (use unwritten in blast)
  show ?thesis
    unfolding delete_if_def Let_def key_def [symmetric] try_val_def parse_rev_def
    using refused run by (auto split: option.splits)
qed

lemma list2_rule:
  assumes outage: "\<And>e g err. R s (e, g) \<Longrightarrow> Q (Inl err) (e, g)"
    and listed: "\<And>e g e' kvs1 kvs2. R s (e, g) \<Longrightarrow> is_range (et_look X e) (store_dir S (RESOURCE T)) kvs1 \<Longrightarrow>
          is_range (et_look X e) (store_dir S (RESOURCE U)) kvs2 \<Longrightarrow> unchanged X e e' \<Longrightarrow> et_ok X e' \<Longrightarrow>
          \<exists>g'. G (e, g) (e', g') \<and> Q (Inr (decode_range T kvs1, decode_range U kvs2)) (e', g')"
  shows "guarded X R G (list2 S T U) Q s"
  unfolding list2_def
proof (rule timed_txn)
  let ?ops = "[OpGetPrefix (store_dir S (RESOURCE T)), OpGetPrefix (store_dir S (RESOURCE U))]"
  have same: "unchanged X e e'" if "txn_runs X e [] ?ops [] e'" for e e'
    using that by (simp add: txn_runs_def txn_branch_def unchanged_def Let_def)
  show "\<exists>g'. G (e, g) (e', g') \<and> Q (Inl err) (e', g')"
    if "R s (e, g)" "txn_runs X e [] ?ops [] e'" "et_ok X e'" for e g e' err
    using still [OF that(1,3) same [OF that(2)]] outage by blast
  show "\<exists>g'. G (e, g) (e', g') \<and> guarded X R G
      (case get_responses (tr_op_responses t) of
          a # b # _ \<Rightarrow> Done (Inr (decode_range T a, decode_range U b))
        | _ \<Rightarrow> Done (Inl (Invalid (''etcd answered a read of '' @ RESOURCE T @ '' and '' @ RESOURCE U @
                 '' with fewer than two ranges'')))) Q (e', g')"
    if c: "R s (e, g)" "txn_runs X e [] ?ops [] e'" "et_ok X e'"
      "reply_tells X e (ReqTxn [] ?ops []) (RepTxn t) e'" for e g t e'
  proof -
    obtain a b where ab: "tr_op_responses t = [GetResponse a, GetResponse b]"
        "is_range (et_look X e) (store_dir S (RESOURCE T)) a" "is_range (et_look X e) (store_dir S (RESOURCE U)) b"
      using c(4) by (auto simp: txn_branch_def)
    then show ?thesis using listed [OF c(1) ab(2,3) same [OF c(2)] c(3)] by simp
  qed
qed (rule outage)

end

section \<open>Programs that stay away from some keys\<close>

fun op_writes :: "'b txn_op \<Rightarrow> string set" where
  "op_writes (OpPut k v opt) = {k}" | "op_writes (OpDelete k) = {k}" | "op_writes _ = {}"

definition request_writes :: "'b request \<Rightarrow> string set" where
  "request_writes q = (case request_txn q of (cs, a, b) \<Rightarrow> \<Union> (op_writes ` (set a \<union> set b)))"

primrec avoids :: "string set \<Rightarrow> ('b, 'a) io \<Rightarrow> bool" where
  "avoids K (Done a) = True"
| "avoids K (Ask q k) = (request_writes q \<inter> K = {} \<and> (\<forall>r. avoids K (k r)))"

lemma avoids_and_then: "avoids K m \<Longrightarrow> (\<And>a. avoids K (f a)) \<Longrightarrow> avoids K (and_then m f)"
  by (induction m) auto

lemma avoids_try_val: "(\<And>x. avoids K (f x)) \<Longrightarrow> avoids K (try_val r f)"
  by (auto simp: try_val_def split: sum.splits)

lemma avoids_try_timed:
  "request_writes q \<inter> K = {} \<Longrightarrow> (\<And>x. avoids K (f x)) \<Longrightarrow> avoids K (try_then (timed what q rd) f)"
  by (auto simp: try_then_def timed_def split: option.splits reply.splits)

lemma avoids_now: "(\<And>x. avoids K (f x)) \<Longrightarrow> avoids K (and_then utc_now f)"
  and avoids_uid: "(\<And>x. avoids K (f' x)) \<Longrightarrow> avoids K (and_then new_uid f')"
  by (simp_all add: utc_now_def new_uid_def request_writes_def)

lemma apply_ops_away: "k \<notin> \<Union> (op_writes ` set ops) \<Longrightarrow> apply_ops r ops m k = m k"
proof (induction ops arbitrary: m)
  case (Cons op ops)
  have "apply_op r op m k = m k" using Cons.prems by (cases op) auto
  then show ?case using Cons by simp
qed simp

lemma avoids_get: "avoids K (store_get S R name)"
  unfolding store_get_def by (rule avoids_try_timed) (auto simp: request_writes_def split: list.splits)

lemma avoids_written: "avoids K (written S R name value resp)"
  using avoids_get by (auto simp: written_def split: option.splits)

lemma avoids_update:
  "store_key S (RESOURCE R) (md_name (metadata obj)) \<notin> K \<Longrightarrow> avoids K (update S R obj)"
  unfolding update_def Let_def
  by (intro avoids_try_val avoids_now avoids_try_timed) (auto simp: request_writes_def avoids_written)

lemma avoids_create:
  "store_key S (RESOURCE R) (md_name (metadata obj)) \<notin> K \<Longrightarrow> avoids K (create_inner S R obj lease)"
  unfolding create_inner_def Let_def
  by (intro avoids_try_val avoids_now avoids_try_timed) (auto simp: request_writes_def avoids_written)

lemma avoids_retry:
  "avoids K m \<Longrightarrow> avoids K again \<Longrightarrow> avoids K (retry_conflict m again)"
  unfolding retry_conflict_def by (rule avoids_and_then) (auto split: sum.splits store_error.splits)

lemma avoids_mutate_loop:
  assumes "\<And>n. store_key S (RESOURCE R) n \<notin> K"
  shows "avoids K (mutate_loop n S R name f)"
proof (induction n)
  case (Suc n)
  show ?case unfolding mutate_loop.simps try_then_def
    by (intro avoids_and_then avoids_get)
      (auto split: sum.splits intro!: avoids_retry avoids_update Suc simp: assms)
qed simp

context etcd
begin

lemma serve_away:
  assumes "et_ok X e" "et_serve X e q r e'" "k \<notin> request_writes q"
  shows "et_look X e' k = et_look X e k"
  using happened [OF assms(1,2)] assms(3)
  by (auto simp: request_runs_def txn_runs_def unchanged_def Let_def request_writes_def txn_branch_def
      intro!: apply_ops_away split: prod.splits if_splits)

end

context replica
begin

lemma avoiding_rule:
  assumes away: "\<And>s e g e'. R s (e, g) \<Longrightarrow> outside X K e e' \<Longrightarrow> (\<And>k. key_moves X k e e') \<Longrightarrow>
          \<exists>g'. G (e, g) (e', g') \<and> R s (e', g')"
    and post: "\<And>a e g. R s (e, g) \<Longrightarrow> Q a (e, g)" and here: "R s s"
  shows "avoids K m \<Longrightarrow> guarded X R G m Q s"
  using post here
proof (induction m arbitrary: s)
  case (Done a) then show ?case by (cases s) simp
next
  case (Ask q k)
  show ?case
  proof (rule guarded_AskI)
    fix e g r e'
    assume r: "R s (e, g)" and sv: "et_serve X e q r e'"
    note ok = rely_ok [OF r]
    have "outside X K e e'"
      using serve_away [OF ok sv] ok_kept [OF ok sv] head_mono [OF ok sv] Ask.prems(1)
      by (auto simp: outside_def)
    moreover have "key_moves X j e e'" for j
      using entry_after [OF ok sv, of j] head_mono [OF ok sv] unfolding key_moves_def by (metis zless_add1_eq)
    ultimately obtain g' where g': "G (e, g) (e', g')" "R s (e', g')" using away [OF r] by blast
    moreover have "guarded X R G (k r) Q (e', g')"
      by (rule Ask.IH [OF rangeI])
        (use Ask.prems(1,2) rely_trans [OF g'(2)] rely_refl [OF g'(2)] in auto)
    ultimately show "\<exists>g'. G (e, g) (e', g') \<and> guarded X R G (k r) Q (e', g')" by blast
  qed
qed

end

section \<open>How many requests an operation makes\<close>

lemma asks_try_val: "(\<And>x. asks_at_most n (f x)) \<Longrightarrow> asks_at_most n (try_val r f)"
  by (auto simp: try_val_def split: sum.splits)

lemma asks_timed: "asks_at_most (Suc 0) (timed what q rd)"
  by (auto simp: timed_def asks_at_most.simps(2) split: option.splits reply.splits)

lemma asks_try_timed:
  "(\<And>x. asks_at_most n (f x)) \<Longrightarrow> asks_at_most (Suc n) (try_then (timed what q rd) f)"
  using asks_and_then [OF asks_timed, of n "case_sum (\<lambda>e. Done (Inl e)) f"]
  by (auto simp: try_then_def split: sum.splits)

lemma asks_now: "(\<And>x. asks_at_most n (f x)) \<Longrightarrow> asks_at_most (Suc n) (and_then utc_now f)"
  and asks_uid: "(\<And>x. asks_at_most n (f' x)) \<Longrightarrow> asks_at_most (Suc n) (and_then new_uid f')"
  by (simp_all add: utc_now_def new_uid_def asks_at_most.simps(2))

lemma asks_get: "asks_at_most (Suc 0) (store_get S R name)"
  unfolding store_get_def by (rule asks_try_timed) (auto split: list.splits)

lemma asks_written: "asks_at_most (Suc 0) (written S R name value resp)"
  using asks_get by (auto simp: written_def split: option.splits)

lemma asks_update: "asks_at_most 3 (update S R obj)"
  unfolding update_def Let_def numeral_3_eq_3
  by (intro asks_try_val asks_now asks_try_timed) (auto intro: asks_written)

lemma asks_create: "asks_at_most 3 (create_inner S R obj lease)"
  unfolding create_inner_def Let_def numeral_3_eq_3
  by (intro asks_try_val asks_now asks_try_timed) (auto intro: asks_written)

lemma asks_retry:
  "asks_at_most n m \<Longrightarrow> asks_at_most n' again \<Longrightarrow> asks_at_most (n + n') (retry_conflict m again)"
  unfolding retry_conflict_def by (rule asks_and_then) (auto split: sum.splits store_error.splits)

lemma asks_mutate_loop: "asks_at_most (n * 4) (mutate_loop n S R name f)"
proof (induction n)
  case (Suc n)
  have "asks_at_most (3 + n * 4) (retry_conflict (update S R (f obj)) (mutate_loop n S R name f))" for obj
    by (rule asks_retry [OF asks_update Suc])
  then have "asks_at_most (Suc 0 + (3 + n * 4)) (mutate_loop (Suc n) S R name f)"
    unfolding mutate_loop.simps try_then_def
    by (intro asks_and_then asks_get) (auto split: sum.splits)
  then show ?case by (simp add: numeral_eq_Suc)
qed simp

lemma asks_mutate_if_loop:
  assumes f: "\<And>obj. asks_at_most (Suc 0) (f obj)"
  shows "asks_at_most (n * 5) (mutate_if_loop n S R name uid f)"
proof (induction n)
  case (Suc n)
  have "asks_at_most (3 + n * 5) (retry_conflict (update S R obj) (mutate_if_loop n S R name uid f))" for obj
    by (rule asks_retry [OF asks_update Suc])
  then have "asks_at_most (Suc 0 + (3 + n * 5)) (and_then (f obj) (\<lambda>obj'.
      retry_conflict (update S R obj') (mutate_if_loop n S R name uid f)))" for obj
    by (intro asks_and_then f)
  then have "asks_at_most (Suc 0 + (Suc 0 + (3 + n * 5))) (mutate_if_loop (Suc n) S R name uid f)"
    unfolding mutate_if_loop.simps try_then_def
    by (intro asks_and_then asks_get) (auto split: sum.splits)
  then show ?case by (simp add: numeral_eq_Suc)
qed simp

section \<open>Documents that read back\<close>

text \<open>What is relied on of \<open>serde_json\<close>: a value that was serialized deserializes to itself.\<close>

locale codec =
  fixes T :: "('s, 't, 'b) resource"
  assumes reads_back: "to_vec T obj = Inr b \<Longrightarrow> from_slice T b = Inr obj"
begin

lemma decode_encode:
  assumes "encode T obj now = Inr v"
  shows "decode T v r =
    (let clean = settle T now (obj\<lparr>metadata := metadata obj\<lparr>md_resource_version := []\<rparr>\<rparr>)
     in Inr (clean\<lparr>metadata := metadata clean\<lparr>md_resource_version := int_display r\<rparr>\<rparr>))"
  using assms reads_back by (auto simp: encode_def decode_def Let_def split: sum.splits)

end

lemma decode_version: "decode T v r = Inr obj \<Longrightarrow> md_resource_version (metadata obj) = int_display r"
  by (auto simp: decode_def split: sum.splits)

lemma decode_Inl: "decode T v r = Inl err \<Longrightarrow> \<exists>m. err = Invalid m"
  by (auto simp: decode_def split: sum.splits)

lemma parse_int_display: "0 \<le> r \<Longrightarrow> r < 2 ^ 63 \<Longrightarrow> parse_i64 (int_display r) = Some r"
proof -
  assume r: "0 \<le> r" "r < 2 ^ 63"
  have "nat r < 2 ^ 63" using r by (simp add: nat_less_iff)
  then show ?thesis using parse_i64_dec [of "nat r"] r by (simp add: int_display_def)
qed

end
