(* ===== verification/Vni_Alloc.thy ===== *)
theory Vni_Alloc
  imports Vni Store_Rules
begin

text \<open>
  \<open>peek\<close> and \<open>allocate\<close> of \<open>shared/controller-api/src/vni.rs\<close> over the store, with the counter object
  of \<open>resources/counter.rs\<close>. The serialization of counters is a parameter of the resource.
\<close>

record counter_spec =
  cs_next :: u32

type_synonym counter = "(counter_spec, unit) object"

definition COUNTER_VNI :: string where "COUNTER_VNI = ''vni''"

definition counter_resource ::
  "(counter \<Rightarrow> string + 'b) \<Rightarrow> ('b \<Rightarrow> string + counter) \<Rightarrow> (counter_spec, unit, 'b) resource" where
  "counter_resource tv fs =
     \<lparr>RESOURCE = ''counters'', KIND = ''Counter'', NAME_SHAPE = DnsLabel,
      settle = (\<lambda>_ obj. obj), to_vec = tv, from_slice = fs\<rparr>"

definition peek ::
  "('b, 'j) store \<Rightarrow> (counter_spec, unit, 'b) resource \<Rightarrow> u32 \<Rightarrow> ('b, store_error + u32) io" where
  "peek S T base =
     and_then (store_get S T COUNTER_VNI) (\<lambda>r.
       let result = (\<lambda>current. Done (map_sum Invalid fst (next_vni current base))) in
       case r of
         Inr counter \<Rightarrow> result (Some (cs_next (spec counter)))
       | Inl (NotFound _) \<Rightarrow> result None
       | Inl e \<Rightarrow> Done (Inl e))"

text \<open>One round of the loop of \<open>allocate\<close>, with the next round as an argument.\<close>

definition alloc_update ::
  "('b, 'j) store \<Rightarrow> (counter_spec, unit, 'b) resource \<Rightarrow> u32 \<Rightarrow> counter \<Rightarrow> ('b, store_error + u32) io \<Rightarrow>
   ('b, store_error + u32) io" where
  "alloc_update S T base counter again =
     (case next_vni (Some (cs_next (spec counter))) base of
        Inl why \<Rightarrow> Done (Inl (Invalid why))
      | Inr (issued, nxt) \<Rightarrow>
          and_then (update S T (counter\<lparr>spec := (spec counter)\<lparr>cs_next := nxt\<rparr>\<rparr>)) (\<lambda>r.
            case r of
              Inr _ \<Rightarrow> Done (Inr issued)
            | Inl (Conflict _) \<Rightarrow> again
            | Inl e \<Rightarrow> Done (Inl e)))"

definition alloc_create ::
  "('b, 'j) store \<Rightarrow> (counter_spec, unit, 'b) resource \<Rightarrow> u32 \<Rightarrow> ('b, store_error + u32) io \<Rightarrow>
   ('b, store_error + u32) io" where
  "alloc_create S T base again =
     (case next_vni None base of
        Inl why \<Rightarrow> Done (Inl (Invalid why))
      | Inr (issued, nxt) \<Rightarrow>
          and_then new_uid (\<lambda>uid. and_then utc_now (\<lambda>now.
          and_then (create S T (declare_object (KIND T) COUNTER_VNI \<lparr>cs_next = nxt\<rparr> () uid now)) (\<lambda>r.
            case r of
              Inr _ \<Rightarrow> Done (Inr issued)
            | Inl (AlreadyExists _) \<Rightarrow> again
            | Inl e \<Rightarrow> Done (Inl e)))))"

primrec alloc_loop ::
  "nat \<Rightarrow> ('b, 'j) store \<Rightarrow> (counter_spec, unit, 'b) resource \<Rightarrow> u32 \<Rightarrow> ('b, store_error + u32) io" where
  "alloc_loop 0 S T base = Done (Inl (retries_exhausted (RESOURCE T) COUNTER_VNI))"
| "alloc_loop (Suc n) S T base =
     and_then (store_get S T COUNTER_VNI) (\<lambda>r.
       case r of
         Inr counter \<Rightarrow> alloc_update S T base counter (alloc_loop n S T base)
       | Inl (NotFound _) \<Rightarrow> alloc_create S T base (alloc_loop n S T base)
       | Inl e \<Rightarrow> Done (Inl e))"

definition allocate ::
  "('b, 'j) store \<Rightarrow> (counter_spec, unit, 'b) resource \<Rightarrow> u32 \<Rightarrow> ('b, store_error + u32) io" where
  "allocate S T base = alloc_loop 16 S T base"

section \<open>No identifier is handed out twice\<close>

text \<open>The auxiliary state records which identifier each replica's request has taken out of the
  counter. The invariant: the taken identifiers are different, not below \<open>L\<close>, and below the stored
  counter.\<close>

abbreviation vni_key :: "('b, 'j) store \<Rightarrow> (counter_spec, unit, 'b) resource \<Rightarrow> string" where
  "vni_key S T \<equiv> store_key S (RESOURCE T) COUNTER_VNI"

definition counter_next :: "(counter_spec, unit, 'b) resource \<Rightarrow> 'b entry \<Rightarrow> u32 option" where
  "counter_next T x =
     (case decode T (en_value x) (en_mod_revision x) of Inr c \<Rightarrow> Some (cs_next (spec c)) | Inl _ \<Rightarrow> None)"

definition vni_inv ::
  "('e, 'b) etcd_ops \<Rightarrow> ('b, 'j) store \<Rightarrow> (counter_spec, unit, 'b) resource \<Rightarrow> u32 \<Rightarrow>
   'e \<times> ('i \<Rightarrow> u32 option) \<Rightarrow> bool" where
  "vni_inv X S T L s \<longleftrightarrow>
     (case s of (e, g) \<Rightarrow>
        et_ok X e \<and>
        (\<forall>i j v. g i = Some v \<longrightarrow> g j = Some v \<longrightarrow> i = j) \<and>
        (\<forall>i v. g i = Some v \<longrightarrow> L \<le> v \<and>
           (\<exists>x n. et_look X e (vni_key S T) = Some x \<and> counter_next T x = Some n \<and> v < n)) \<and>
        (\<forall>x n. et_look X e (vni_key S T) = Some x \<longrightarrow> counter_next T x = Some n \<longrightarrow> L \<le> n) \<and>
        (\<forall>x c. et_look X e (vni_key S T) = Some x \<longrightarrow>
           decode T (en_value x) (en_mod_revision x) = Inr c \<longrightarrow> md_name (metadata c) = COUNTER_VNI) \<and>
        (et_look X e (vni_key S T) = None \<longrightarrow> L = 0))"

definition vni_rely where
  "vni_rely X S T L i s s' \<longleftrightarrow>
     vni_inv X S T L s' \<and> snd s' i = snd s i \<and> key_moves X (vni_key S T) (fst s) (fst s')"

definition vni_guar where
  "vni_guar X S T L i s s' \<longleftrightarrow>
     vni_inv X S T L s' \<and> (\<forall>j. j \<noteq> i \<longrightarrow> snd s' j = snd s j) \<and> key_moves X (vni_key S T) (fst s) (fst s')"

lemma vni_inv_same:
  "vni_inv X S T L (e, g) \<Longrightarrow> et_ok X e' \<Longrightarrow>
   et_look X e' (vni_key S T) = et_look X e (vni_key S T) \<Longrightarrow> vni_inv X S T L (e', g)"
  by (simp add: vni_inv_def)

lemma vni_invD:
  assumes "vni_inv X S T L (e, g)"
  shows "et_ok X e" and "g i = Some v \<Longrightarrow> g j = Some v \<Longrightarrow> i = j" and "g i = Some v \<Longrightarrow> L \<le> v"
    and "g i = Some v \<Longrightarrow> \<exists>x n. et_look X e (vni_key S T) = Some x \<and> counter_next T x = Some n \<and> v < n"
    and "et_look X e (vni_key S T) = Some x \<Longrightarrow> counter_next T x = Some n \<Longrightarrow> L \<le> n"
    and "et_look X e (vni_key S T) = Some x \<Longrightarrow>
         decode T (en_value x) (en_mod_revision x) = Inr c \<Longrightarrow> md_name (metadata c) = COUNTER_VNI"
    and "et_look X e (vni_key S T) = None \<Longrightarrow> L = 0"
  using assms unfolding vni_inv_def prod.case by blast+

lemma vni_rely_trans:
  "vni_rely X S T L i s1 s2 \<Longrightarrow> vni_rely X S T L i s2 s3 \<Longrightarrow> vni_rely X S T L i s1 s3"
  unfolding vni_rely_def by (metis key_moves_trans)

lemma vni_rely_refl: "vni_inv X S T L s \<Longrightarrow> vni_rely X S T L i s s"
  unfolding vni_rely_def by (simp add: key_moves_same)

locale vni_replica = etcd X for X :: "('e, 'b) etcd_ops" +
  fixes S :: "('b, 'j) store" and T :: "(counter_spec, unit, 'b) resource" and L :: u32 and i :: 'i
    and tv :: "counter \<Rightarrow> string + 'b" and fs :: "'b \<Rightarrow> string + counter"
  assumes counters: "T = counter_resource tv fs"
    and reads: "tv c = Inr b \<Longrightarrow> fs b = Inr c"

sublocale vni_replica \<subseteq> codec T
  by unfold_locales (simp add: counters counter_resource_def reads)

sublocale vni_replica \<subseteq> replica X "vni_rely X S T L i" "vni_guar X S T L i"
proof
  fix s e g e'
  assume r: "vni_rely X S T L i s (e, g)" and ok: "et_ok X e'" and un: "unchanged X e e'"
  have m: "key_moves X (vni_key S T) e e'" using un by (intro key_moves_same) (auto simp: unchanged_def)
  have inv: "vni_inv X S T L (e', g)"
    using r ok un by (auto simp: vni_rely_def unchanged_def intro: vni_inv_same)
  show "vni_rely X S T L i s (e', g) \<and> vni_guar X S T L i (e, g) (e', g)"
    using r m inv key_moves_trans [OF _ m] by (simp add: vni_rely_def vni_guar_def)
next
  fix s e g
  assume "vni_rely X S T L i s (e, g)"
  then show "et_ok X e" by (simp add: vni_rely_def vni_inv_def)
next
  fix s1 s2
  assume "vni_rely X S T L i s1 s2"
  then show "vni_rely X S T L i s2 s2" by (intro vni_rely_refl) (simp add: vni_rely_def)
qed (rule vni_rely_trans)

text \<open>The two writes of a round: a put of a counter above everything taken so far takes the
  identifier below it for the replica.\<close>

lemma vni_taken:
  assumes inv: "vni_inv X S T L (e, g)" and put: "puts X e (vni_key S T) v e'"
    and new: "counter_next T (put_entry (et_head X e + 1) (vni_key S T) v (et_look X e)) = Some nxt"
      "\<And>c. decode T v (et_head X e + 1) = Inr c \<Longrightarrow> md_name (metadata c) = COUNTER_VNI"
    and nxt: "unat nxt = Suc (unat issued)"
    and above: "\<And>x. et_look X e (vni_key S T) = Some x \<Longrightarrow> \<exists>n. counter_next T x = Some n \<and> n \<le> issued"
  shows "vni_guar X S T L i (e, g) (e', g(i \<mapsto> issued))"
proof -
  have less: "issued < nxt" using nxt by (simp add: word_less_nat_alt)
  have look: "et_look X e' (vni_key S T) =
      Some (put_entry (et_head X e + 1) (vni_key S T) v (et_look X e))"
    using put by (simp add: puts_def)
  have old: "w < issued \<and> L \<le> w" if w: "g j = Some w" for j w
  proof -
    obtain x n where "et_look X e (vni_key S T) = Some x" "counter_next T x = Some n" "w < n"
      using vni_invD(4) [OF inv w] by blast
    then show ?thesis using above [of x] vni_invD(3) [OF inv w] by auto
  qed
  have floor: "L \<le> issued"
  proof (cases "et_look X e (vni_key S T)")
    case None then show ?thesis using vni_invD(7) [OF inv] by simp
  next
    case (Some x) then show ?thesis using above [OF Some] vni_invD(5) [OF inv] order_trans by blast
  qed
  have inj: "a = b" if "(g(i \<mapsto> issued)) a = Some w" "(g(i \<mapsto> issued)) b = Some w" for a b w
    using that old vni_invD(2) [OF inv, of a w b] by (auto split: if_splits)
  have bnd: "L \<le> w \<and> w < nxt" if "(g(i \<mapsto> issued)) a = Some w" for a w
    using that old [of a w] less floor by (auto split: if_splits)
  have fl: "L \<le> nxt" using floor less by simp
  have "vni_inv X S T L (e', g(i \<mapsto> issued))"
    unfolding vni_inv_def prod.case look
  proof (intro conjI allI impI, goal_cases)
    case 1 then show ?case using put by (simp add: puts_def)
  next
    case 2 then show ?case by (rule inj)
  next
    case 3 then show ?case using bnd by blast
  next
    case 4 then show ?case using bnd new(1) by blast
  next
    case 5 then show ?case using new(1) fl by simp
  next
    case 6 then show ?case using new(2) by (auto simp: put_entry_def)
  qed simp
  then show ?thesis
    using put look by (auto simp: vni_guar_def key_moves_def puts_def put_entry_def)
qed

context vni_replica
begin

abbreviation taken where
  "taken base r s \<equiv> (\<forall>v. r = Inr v \<longrightarrow> snd s i = Some v \<and> 1 \<le> v \<and> base \<le> v \<and> v \<le> VNI_MAX)"

lemma counters_settle: "settle T now c = c"
  by (simp add: counters counter_resource_def)

lemma counter_next_put:
  "encode T c now = Inr v \<Longrightarrow> counter_next T (put_entry r k v m) = Some (cs_next (spec c))"
  by (simp add: counter_next_def put_entry_def decode_encode Let_def counters_settle)

text \<open>Once the identifier is taken, reading the counter back cannot lose it.\<close>

lemma after_write:
  assumes g: "snd s i = Some issued" and v: "next_vni cur base = Inr (issued, nxt)"
    and Q: "\<And>r. f (Inr r) = Done (Inr issued)" "\<And>err. unavailable err \<Longrightarrow> f (Inl err) = Done (Inl err)"
      "\<And>m. f (Inl (Invalid m)) = Done (Inl (Invalid m))" "\<And>m. f (Inl (NotFound m)) = Done (Inl (NotFound m))"
  shows "guarded X (vni_rely X S T L i) (vni_guar X S T L i) (store_get S T name)
      (\<lambda>r. guarded X (vni_rely X S T L i) (vni_guar X S T L i) (f r) (taken base)) s"
proof (rule get_rule)
  fix e g x
  assume "vni_rely X S T L i s (e, g)"
  then have "g i = Some issued" using g by (simp add: vni_rely_def)
  then show "guarded X (vni_rely X S T L i) (vni_guar X S T L i)
      (f (decode T (en_value x) (en_mod_revision x))) (taken base) (e, g)"
    using Q next_vni_bounds [OF v] decode_Inl [of T "en_value x" "en_mod_revision x"]
    by (cases "decode T (en_value x) (en_mod_revision x)") auto
qed (use Q in auto)

lemma read_version:
  assumes "vni_inv X S T L s" "et_look X (fst s) (vni_key S T) = Some x"
    "decode T (en_value x) (en_mod_revision x) = Inr c"
  shows "parse_i64 (md_resource_version (metadata c)) = Some (en_mod_revision x)"
    and "en_mod_revision x \<le> et_head X (fst s)" and "md_name (metadata c) = COUNTER_VNI"
proof -
  have ok: "et_ok X (fst s)" using assms(1) by (auto simp: vni_inv_def split: prod.splits)
  note r = revisions [OF ok assms(2)] head_i64 [OF ok]
  show "en_mod_revision x \<le> et_head X (fst s)" using r by simp
  show "parse_i64 (md_resource_version (metadata c)) = Some (en_mod_revision x)"
    unfolding decode_version [OF assms(3)] by (rule parse_int_display) (use r in linarith)+
  show "md_name (metadata c) = COUNTER_VNI"
    using assms by (auto simp: vni_inv_def split: prod.splits)
qed

lemma update_takes:
  assumes inv: "vni_inv X S T L s"
    and read: "et_look X (fst s) (vni_key S T) = Some x" "decode T (en_value x) (en_mod_revision x) = Inr counter"
    and v: "next_vni (Some (cs_next (spec counter))) base = Inr (issued, nxt)"
    and r: "vni_rely X S T L i s (e, g)" and y: "et_look X e (vni_key S T) = Some y"
      "parse_i64 (md_resource_version (metadata counter)) = Some (en_mod_revision y)"
    and w: "encode T (counter\<lparr>spec := (spec counter)\<lparr>cs_next := nxt\<rparr>\<rparr>) now = Inr w"
    and put: "puts X e (vni_key S T) w e'"
  shows "vni_guar X S T L i (e, g) (e', g(i \<mapsto> issued))"
proof -
  note rv = read_version [OF inv read]
  have "y = x" using r y rv(1,2) read(1) by (auto simp: vni_rely_def key_moves_def)
  then have above: "\<exists>n. counter_next T z = Some n \<and> n \<le> issued" if "et_look X e (vni_key S T) = Some z" for z
    using that y(1) read(2) next_vni_bounds(5) [OF v] by (simp add: counter_next_def)
  show ?thesis
    by (rule vni_taken [OF _ put counter_next_put [OF w]])
      (use r next_vni_bounds(4) [OF v] above rv(3) in
        \<open>auto simp: vni_rely_def decode_encode [OF w] Let_def counters_settle\<close>)
qed

lemma update_round:
  assumes none: "snd s i = None" and inv: "vni_inv X S T L s"
    and read: "et_look X (fst s) (vni_key S T) = Some x" "decode T (en_value x) (en_mod_revision x) = Inr counter"
    and again: "\<And>s'. snd s' i = None \<Longrightarrow>
          guarded X (vni_rely X S T L i) (vni_guar X S T L i) again (taken base) s'"
  shows "guarded X (vni_rely X S T L i) (vni_guar X S T L i) (alloc_update S T base counter again) (taken base) s"
proof (cases "next_vni (Some (cs_next (spec counter))) base")
  case (Inr p)
  obtain issued nxt where p: "p = (issued, nxt)" by (cases p)
  note v = Inr [unfolded p]
  let ?c = "counter\<lparr>spec := (spec counter)\<lparr>cs_next := nxt\<rparr>\<rparr>"
  have nm: "md_name (metadata ?c) = COUNTER_VNI" using read_version(3) [OF inv read] by simp
  note takes = update_takes [OF inv read v]
  show ?thesis
    unfolding alloc_update_def v prod.case sum.case guarded_and_then
  proof (rule update_rule, goal_cases)
    case (3 e g)
    then show ?case using again [of "(e, g)"] none by (simp add: concurrent_write_def vni_rely_def)
  next
    case (4 e g e' y w now err)
    then show ?case using takes [of e g y now w e'] nm by (cases err) auto
  next
    case (5 e g e' y w now)
    have "vni_guar X S T L i (e, g) (e', g(i \<mapsto> issued))"
      using takes [of e g y now w e'] 5 nm by simp
    then show ?case
      using next_vni_bounds [OF v] decode_encode [OF 5(4)]
      by (intro exI [of _ "g(i \<mapsto> issued)"] conjI disjI2 [OF after_write, OF _ v])
        (auto simp: Let_def split: store_error.splits)
  qed (auto split: store_error.splits)
qed (simp add: alloc_update_def)

lemma create_takes:
  assumes v: "next_vni None base = Inr (issued, nxt)"
    and r: "vni_rely X S T L i s (e, g)" and free: "et_look X e (vni_key S T) = None"
    and w: "encode T (obj\<lparr>metadata := metadata obj\<lparr>md_generation := 1\<rparr>\<rparr>) now = Inr w"
    and obj: "obj = declare_object (KIND T) COUNTER_VNI \<lparr>cs_next = nxt\<rparr> () uid t"
    and put: "puts X e (vni_key S T) w e'"
  shows "vni_guar X S T L i (e, g) (e', g(i \<mapsto> issued))"
  by (rule vni_taken [OF _ put counter_next_put [OF w]])
    (use r free next_vni_bounds(4) [OF v] in
      \<open>auto simp: vni_rely_def decode_encode [OF w] Let_def counters_settle obj declare_object_def object_new_def\<close>)

lemma create_round:
  assumes none: "snd s i = None"
    and again: "\<And>s'. snd s' i = None \<Longrightarrow>
          guarded X (vni_rely X S T L i) (vni_guar X S T L i) again (taken base) s'"
  shows "guarded X (vni_rely X S T L i) (vni_guar X S T L i) (alloc_create S T base again) (taken base) s"
proof (cases "next_vni None base")
  case (Inr p)
  obtain issued nxt where p: "p = (issued, nxt)" by (cases p)
  note v = Inr [unfolded p]
  have made: "guarded X (vni_rely X S T L i) (vni_guar X S T L i)
      (and_then (create S T obj) (\<lambda>r. case r of Inr _ \<Rightarrow> Done (Inr issued)
            | Inl (AlreadyExists _) \<Rightarrow> again | Inl e \<Rightarrow> Done (Inl e))) (taken base) s1"
    if obj: "obj = declare_object (KIND T) COUNTER_VNI \<lparr>cs_next = nxt\<rparr> () uid t"
      and none1: "snd s1 i = None" for obj uid t s1
    unfolding guarded_and_then create_def
  proof (rule create_rule, goal_cases)
    case (3 e g x err)
    then show ?case using again [of "(e, g)"] none1 by (auto simp: vni_rely_def)
  next
    case (4 e g e' w now err)
    have "vni_guar X S T L i (e, g) (e', g(i \<mapsto> issued))"
      using create_takes [OF v 4(1) _ 4(3) obj] 4 obj by (simp add: declare_object_def object_new_def)
    then show ?case using 4(5) by (cases err) auto
  next
    case (5 e g e' w now)
    have "vni_guar X S T L i (e, g) (e', g(i \<mapsto> issued))"
      using create_takes [OF v 5(1) _ 5(4) obj] 5 obj by (simp add: declare_object_def object_new_def)
    then show ?case
      using next_vni_bounds [OF v] decode_encode [OF 5(4)]
      by (intro exI [of _ "g(i \<mapsto> issued)"] conjI disjI2 [OF after_write, OF _ v])
        (auto simp: Let_def split: store_error.splits)
  qed (auto split: store_error.splits)
  show ?thesis
    unfolding alloc_create_def v prod.case sum.case
    by (intro uid_rule now_rule made refl) (use none in \<open>auto simp: vni_rely_def\<close>)
qed (simp add: alloc_create_def)

lemma alloc_safe:
  "snd s i = None \<Longrightarrow>
   guarded X (vni_rely X S T L i) (vni_guar X S T L i) (alloc_loop n S T base) (taken base) s"
proof (induction n arbitrary: s)
  case (Suc n)
  show ?case
    unfolding alloc_loop.simps guarded_and_then
  proof (rule get_rule, goal_cases)
    case (2 e g)
    have "g i = None" using 2(1) Suc.prems by (simp add: vni_rely_def)
    then show ?case using create_round [of "(e, g)"] Suc.IH by simp
  next
    case (3 e g x)
    have "g i = None" "vni_inv X S T L (e, g)" using 3(1) Suc.prems by (simp_all add: vni_rely_def)
    note here = this
    show ?case
    proof (cases "decode T (en_value x) (en_mod_revision x)")
      case (Inl err) then show ?thesis using decode_Inl [OF Inl] by auto
    next
      case (Inr c)
      show ?thesis unfolding Inr sum.case
        by (rule update_round [OF _ _ _ Inr]) (use 3(2) here Suc.IH in auto)
    qed
  qed (auto split: store_error.splits)
qed simp

end

definition sample_store :: "('b, json) store" where
  "sample_store = \<lparr>st_prefix = ''/m'', st_bytes = (\<lambda>_. undefined), st_json = tree_ops,
     st_value = (\<lambda>_. None), st_lease_to = (\<lambda>_. Inl []), st_lease_from = (\<lambda>_. None)\<rparr>"

definition fresh_mem :: "'b mem" where "fresh_mem = \<lparr>mem_keys = [], mem_revision = 1\<rparr>"

lemma fresh_mem_ok: "et_ok mem_etcd fresh_mem"
  by (simp add: mem_etcd_def mem_ok_def fresh_mem_def)

interpretation counters: vni_replica mem_etcd sample_store "counter_resource Inr Inr" 0 "0 :: nat" Inr Inr
  by unfold_locales auto

lemma allocate_round:
  "allocate S T base =
     and_then (store_get S T COUNTER_VNI) (\<lambda>r.
       case r of
         Inr counter \<Rightarrow> alloc_update S T base counter (alloc_loop 15 S T base)
       | Inl (NotFound _) \<Rightarrow> alloc_create S T base (alloc_loop 15 S T base)
       | Inl e \<Rightarrow> Done (Inl e))"
  using alloc_loop.simps(2) [of 15 S T base] by (simp add: allocate_def)

lemma vni_name_ok: "check_name ''vni'' DnsLabel = Inr ()"
  by (simp add: check_name_def MAX_NAME_def name_byte_def is_ascii_lowercase_def
      is_ascii_alphanumeric_def)

lemma next_vni_samples: "next_vni None 5 = Inr (5, 6)" "next_vni (Some 6) 7 = Inr (7, 8)"
  by (simp_all add: next_vni_def VNI_MAX_def max_def word_le_nat_alt word_less_nat_alt)

lemma dec_samples: "dec (Suc 0) = ''1''" "int_display 2 = ''2''" "parse_i64 ''2'' = Some 2"
proof -
  have chars: "char_of (49 :: nat) = CHR ''1''" "char_of (50 :: nat) = CHR ''2''" by code_simp+
  show "dec (Suc 0) = ''1''" by (subst dec.simps) (simp add: digit_char_def chars)
  show two: "int_display 2 = ''2''"
    by (simp add: int_display_def) (subst dec.simps, simp add: digit_char_def chars)
  show "parse_i64 ''2'' = Some 2" using parse_int_display [of 2] two by simp
qed

text \<open>The service after the first allocation, and the two allocations of the example run.\<close>

definition one_counter :: "counter mem" where
  "one_counter =
     \<lparr>mem_keys =
        [(''/m/registry/counters/vni'',
          \<lparr>en_value =
             \<lparr>api_version = ''meister.io/v1'', obj_kind = ''Counter'',
              metadata = metadata_default\<lparr>md_name := ''vni'', md_uid := ''1'', md_generation := 1,
                           md_creation_timestamp := Some 1\<rparr>,
              spec = \<lparr>cs_next = 6\<rparr>, status = ()\<rparr>,
           en_create_revision = 2, en_mod_revision = 2\<rparr>)],
      mem_revision = 2\<rparr>"

lemma mem_headed: "always_headed mem_etcd"
  unfolding always_headed_def
proof (intro allI impI)
  fix e :: "'b mem" and q t e'
  assume "et_serve mem_etcd e q (RepTxn t) e'"
  then have "mem_run e q = (RepTxn t, e')" by (simp add: mem_etcd_def)
  then show "tr_revision t \<noteq> None" by (cases q) (auto simp: mem_run_def Let_def split: if_splits)
qed

lemmas mem_eval = drive.simps mem_run_def Let_def mem_after_def txn_branch_def kv_at_def kv_of_def
  put_entry_def

lemmas store_eval = store_get_def update_def create_def create_inner_def try_then_def try_val_def timed_def
  store_key_def written_def encode_def decode_def parse_rev_def utc_now_def new_uid_def

lemma first_allocation:
  "drive (Suc (Suc (Suc (Suc (Suc (Suc 0)))))) fresh_mem
     (allocate sample_store (counter_resource Inr Inr) 5) = (one_counter, Done (Inr 5))"
  unfolding allocate_round one_counter_def
  by (simp add: mem_eval store_eval fresh_mem_def sample_store_def counter_resource_def alloc_create_def
      vni_name_ok next_vni_samples dec_samples declare_object_def object_new_def metadata_default_def
      API_VERSION_def COUNTER_VNI_def)

lemma second_allocation:
  "snd (drive (Suc (Suc (Suc (Suc (Suc (Suc 0)))))) one_counter
     (allocate sample_store (counter_resource Inr Inr) 7)) = Done (Inr 7)"
  unfolding allocate_round one_counter_def
  by (simp add: mem_eval store_eval sample_store_def counter_resource_def alloc_update_def
      vni_name_ok next_vni_samples dec_samples COUNTER_VNI_def metadata_default_def)

text \<open>C9: No two allocations ever hand out the same tenant network identifier. Any number of replicas run
  allocate, each with its own configured floor, over one etcd; their requests interleave in any order,
  any request may fail or time out before or after it took effect, and anything may happen to the
  other keys. Two replicas that return a number return different ones; each number is at least the
  replica's floor and at least 1, at most the largest 24-bit identifier, and not below the counter
  that was stored when the run began, so numbers from before are not handed out again.\<close>

theorem vnis_are_never_issued_twice:
  fixes X :: "('e, 'b) etcd_ops" and ps :: "'i \<Rightarrow> ('b, store_error + u32) io"
  defines "T \<equiv> counter_resource"
  assumes service: "etcd X" and documents: "\<And>c b. tv c = Inr b \<Longrightarrow> fs b = Inr c"
    and ok: "et_ok X e0"
    and named: "\<And>x c. et_look X e0 (vni_key S (T tv fs)) = Some x \<Longrightarrow>
         decode (T tv fs) (en_value x) (en_mod_revision x) = Inr c \<Longrightarrow> md_name (metadata c) = COUNTER_VNI"
    and run: "sys_run X (outside X {vni_key S (T tv fs)}) (e0, \<lambda>i. allocate S (T tv fs) (base i)) (e, ps)"
    and returned: "ps i = Done (Inr v)"
  shows "1 \<le> v \<and> base i \<le> v \<and> v \<le> VNI_MAX \<and>
    (\<forall>x n. et_look X e0 (vni_key S (T tv fs)) = Some x \<longrightarrow> counter_next (T tv fs) x = Some n \<longrightarrow> n \<le> v) \<and>
    (\<forall>j w. j \<noteq> i \<longrightarrow> ps j = Done (Inr w) \<longrightarrow> w \<noteq> v)"
proof -
  define L where "L = (case Option.bind (et_look X e0 (vni_key S (T tv fs))) (counter_next (T tv fs)) of
      None \<Rightarrow> 0 | Some n \<Rightarrow> n)"
  let ?R = "vni_rely X S (T tv fs) L :: 'i \<Rightarrow> _" and ?G = "vni_guar X S (T tv fs) L :: 'i \<Rightarrow> _"
  let ?Q = "\<lambda>i r s. \<forall>v. r = Inr v \<longrightarrow> snd s i = Some v \<and> 1 \<le> v \<and> base i \<le> v \<and> v \<le> VNI_MAX"
  have rep: "vni_replica X (T tv fs) tv fs"
    using service documents by (simp add: vni_replica_def vni_replica_axioms_def T_def)
  have inv0: "vni_inv X S (T tv fs) L (e0, \<lambda>_. None)"
    using ok named by (auto simp: vni_inv_def L_def split: option.splits)
  have "\<exists>g. \<forall>i. \<exists>s. ?R i s (e, g) \<and> guarded X (?R i) (?G i) (ps i) (?Q i) s"
  proof (rule replicas_together [OF run, where ?g0.0 = "\<lambda>_. None"], goal_cases)
    case (1 i) then show ?case
      unfolding allocate_def using vni_replica.alloc_safe [OF rep, of "(e0, \<lambda>_. None)" i] by simp
  next
    case (2 i) then show ?case by (rule vni_rely_refl [OF inv0])
  next
    case (3 i s1 s2 s3) then show ?case by (rule vni_rely_trans)
  next
    case (4 i j s1 s2) then show ?case by (auto simp: vni_rely_def vni_guar_def)
  next
    case (5 i s1 s2) then show ?case by (auto simp: vni_guar_def intro: vni_rely_refl)
  next
    case (6 e1 g1 e2)
    then have "\<forall>i. ?R i (e1, g1) (e2, g1)"
      by (auto simp: vni_rely_def outside_def intro: key_moves_same vni_inv_same)
    then show ?case by blast
  qed
  then obtain g where g: "\<And>i. \<exists>s. ?R i s (e, g) \<and> guarded X (?R i) (?G i) (ps i) (?Q i) s" by blast
  have took: "g j = Some w \<and> 1 \<le> w \<and> base j \<le> w \<and> w \<le> VNI_MAX" if "ps j = Done (Inr w)" for j w
    using g [of j] that by (auto simp: vni_rely_def)
  have inv: "vni_inv X S (T tv fs) L (e, g)" using g [of i] by (auto simp: vni_rely_def)
  have "L \<le> v" using vni_invD(3) [OF inv] took [OF returned] by blast
  then show ?thesis
    using took [OF returned] took vni_invD(2) [OF inv] by (auto simp: L_def)
qed

theorem vnis_are_never_issued_twice_witness:
  "\<exists>e ps. sys_run mem_etcd (outside mem_etcd {vni_key sample_store (counter_resource Inr Inr)})
       (fresh_mem, \<lambda>i. allocate sample_store (counter_resource Inr Inr) (if i then 5 else 7)) (e, ps) \<and>
     ps True = Done (Inr 5) \<and> ps False = Done (Inr 7) \<and> (5 :: u32) \<noteq> 7 \<and> (5 :: u32) \<le> VNI_MAX"
proof -
  let ?T = "counter_resource Inr Inr" and ?base = "\<lambda>i. if i then 5 else 7 :: u32"
  let ?ps = "\<lambda>i. allocate sample_store ?T (?base i)"
  let ?n = "Suc (Suc (Suc (Suc (Suc (Suc 0)))))"
  let ?K = "{vni_key sample_store ?T}"
  obtain e where e: "drive ?n one_counter (?ps False) = (e, Done (Inr 7))"
    using second_allocation by (metis prod.collapse)
  have one: "sys_run mem_etcd (outside mem_etcd ?K) (fresh_mem, ?ps) (one_counter, ?ps(True := Done (Inr 5)))"
    by (rule drive_runs [where n = ?n]) (use first_allocation in simp)
  have two: "sys_run mem_etcd (outside mem_etcd ?K) (one_counter, ?ps(True := Done (Inr 5)))
      (e, ?ps(True := Done (Inr 5), False := Done (Inr 7)))"
    by (rule drive_runs [where n = ?n]) (use e in simp)
  note run = rtranclp_trans [OF one two]
  have "(7 :: u32) \<noteq> 5 \<and> (5 :: u32) \<le> VNI_MAX"
    using vnis_are_never_issued_twice [OF mem.etcd_axioms _ fresh_mem_ok _ run, of True 5]
    by (simp add: mem_etcd_def fresh_mem_def)
  then show ?thesis using run by fastforce
qed

section \<open>The retry loops end\<close>

lemma asks_alloc_loop: "asks_at_most (n * 6) (alloc_loop n S T base)"
proof (induction n)
  case (Suc n)
  have u: "asks_at_most (5 + n * 6) (alloc_update S T base c (alloc_loop n S T base))" for c
    unfolding alloc_update_def
    by (auto split: sum.splits prod.splits store_error.splits
        intro!: asks_mono [OF asks_and_then [OF asks_update, of "n * 6"]] intro: Suc)
  have c: "asks_at_most (5 + n * 6) (alloc_create S T base (alloc_loop n S T base))"
  proof -
    have "asks_at_most (3 + n * 6) (and_then (create S T obj) (\<lambda>r.
        case r of Inr _ \<Rightarrow> Done (Inr issued) | Inl (AlreadyExists _) \<Rightarrow> alloc_loop n S T base
                | Inl e \<Rightarrow> Done (Inl e)))" for obj issued
      unfolding create_def
      by (rule asks_and_then [OF asks_create]) (auto split: sum.splits store_error.splits intro: Suc)
    then have "asks_at_most (Suc (Suc (3 + n * 6))) (alloc_create S T base (alloc_loop n S T base))"
      unfolding alloc_create_def
      by (cases "next_vni None base") (simp, simp only: sum.case split_beta, intro asks_uid asks_now)
    then show ?thesis by (simp add: numeral_eq_Suc)
  qed
  have "asks_at_most (Suc 0 + (5 + n * 6)) (alloc_loop (Suc n) S T base)"
    unfolding alloc_loop.simps
    by (intro asks_and_then asks_get) (auto split: sum.splits store_error.splits intro: u c)
  then show ?case by (simp add: numeral_eq_Suc)
qed simp

text \<open>C17: The optimistic retry loops end, whatever the store answers: mutate makes at most 32 requests,
  mutate_if at most 40 with a closure that reads the clock at most once, and allocate at most 96,
  counting readings of the clock and the uid source, however many writers they lose to and whichever
  requests fail.\<close>

theorem retry_loops_end:
  "asks_at_most 32 (mutate S R name f) \<and>
   ((\<forall>obj. asks_at_most 1 (g obj)) \<longrightarrow> asks_at_most 40 (mutate_if S R name uid g)) \<and>
   asks_at_most 96 (allocate S T base)"
  using asks_mutate_loop [of 8 S R name f] asks_mutate_if_loop [of g 8 S R name uid]
    asks_alloc_loop [of 16 S T base]
  by (simp add: mutate_def mutate_if_def allocate_def)

definition touch_counter :: "counter \<Rightarrow> (counter, counter) io" where
  "touch_counter c =
     and_then utc_now (\<lambda>now. Done (c\<lparr>metadata := metadata c\<lparr>md_creation_timestamp := Some now\<rparr>\<rparr>))"

theorem retry_loops_end_witness:
  "asks_at_most 40 (mutate_if sample_store (counter_resource Inr Inr) ''vni'' ''u'' touch_counter)"
proof -
  have "asks_at_most 1 (touch_counter c)" for c
    unfolding One_nat_def touch_counter_def by (intro asks_now) simp
  then show ?thesis
    using retry_loops_end [of sample_store "counter_resource Inr Inr" "''vni''" id touch_counter] by blast
qed

end
