(* ===== verification/Store_Mutate.thy ===== *)
theory Store_Mutate
  imports Vni_Alloc
begin

text \<open>
  Concurrent read-modify-write through \<open>EtcdStore::mutate\<close>: no edit is lost and none is applied
  twice. The auxiliary state is the log of the edits that took effect, each with the time it was
  settled at and the revision it got.
\<close>

definition edited ::
  "('s, 't, 'b) resource \<Rightarrow> ('i \<Rightarrow> ('s, 't) object \<Rightarrow> ('s, 't) object) \<Rightarrow> 'i \<times> instant \<times> int \<Rightarrow>
   ('s, 't) object \<Rightarrow> ('s, 't) object" where
  "edited T f entry obj =
     (case entry of (i, now, r) \<Rightarrow>
        let clean = settle T now ((f i obj)\<lparr>metadata := metadata (f i obj)\<lparr>md_resource_version := []\<rparr>\<rparr>)
        in clean\<lparr>metadata := metadata clean\<lparr>md_resource_version := int_display r\<rparr>\<rparr>)"

definition replay ::
  "('s, 't, 'b) resource \<Rightarrow> ('i \<Rightarrow> ('s, 't) object \<Rightarrow> ('s, 't) object) \<Rightarrow> ('i \<times> instant \<times> int) list \<Rightarrow>
   ('s, 't) object \<Rightarrow> ('s, 't) object" where
  "replay T f log obj = fold (edited T f) log obj"

definition mutate_inv where
  "mutate_inv X S T f name obj0 s \<longleftrightarrow>
     (case s of (e, log) \<Rightarrow>
        et_ok X e \<and> distinct (map fst log) \<and>
        md_name (metadata (replay T f log obj0)) = name \<and>
        (\<exists>x. et_look X e (store_key S (RESOURCE T) name) = Some x \<and>
             decode T (en_value x) (en_mod_revision x) = Inr (replay T f log obj0)))"

abbreviation logged :: "'i \<Rightarrow> 'e \<times> ('i \<times> instant \<times> int) list \<Rightarrow> bool" where
  "logged i s \<equiv> i \<in> fst ` set (snd s)"

definition mutate_rely where
  "mutate_rely X S T f name obj0 i s s' \<longleftrightarrow>
     mutate_inv X S T f name obj0 s' \<and> (logged i s' \<longleftrightarrow> logged i s) \<and>
     key_moves X (store_key S (RESOURCE T) name) (fst s) (fst s')"

definition mutate_guar where
  "mutate_guar X S T f name obj0 i s s' \<longleftrightarrow>
     mutate_inv X S T f name obj0 s' \<and> (\<forall>j. j \<noteq> i \<longrightarrow> (logged j s' \<longleftrightarrow> logged j s)) \<and>
     key_moves X (store_key S (RESOURCE T) name) (fst s) (fst s')"

lemma mutate_rely_trans:
  "mutate_rely X S T f name obj0 i s1 s2 \<Longrightarrow> mutate_rely X S T f name obj0 i s2 s3 \<Longrightarrow>
   mutate_rely X S T f name obj0 i s1 s3"
  unfolding mutate_rely_def by (metis key_moves_trans)

lemma mutate_rely_refl:
  "mutate_inv X S T f name obj0 s \<Longrightarrow> mutate_rely X S T f name obj0 i s s"
  unfolding mutate_rely_def by (simp add: key_moves_same)

lemma mutate_inv_same:
  "mutate_inv X S T f name obj0 (e, g) \<Longrightarrow> et_ok X e' \<Longrightarrow>
   et_look X e' (store_key S (RESOURCE T) name) = et_look X e (store_key S (RESOURCE T) name) \<Longrightarrow>
   mutate_inv X S T f name obj0 (e', g)"
  by (simp add: mutate_inv_def)

locale mutator = etcd X + codec T
  for X :: "('e, 'b) etcd_ops" and T :: "('s, 't, 'b) resource" +
  fixes S :: "('b, 'j) store" and f :: "'i \<Rightarrow> ('s, 't) object \<Rightarrow> ('s, 't) object"
    and name :: string and obj0 :: "('s, 't) object" and i :: 'i
  assumes edits_keep: "md_name (metadata (f j obj)) = md_name (metadata obj)"
      "md_resource_version (metadata (f j obj)) = md_resource_version (metadata obj)"
    and settle_keeps: "md_name (metadata (settle T now obj)) = md_name (metadata obj)"

sublocale mutator \<subseteq> replica X "mutate_rely X S T f name obj0 i" "mutate_guar X S T f name obj0 i"
proof
  fix s e g e'
  assume r: "mutate_rely X S T f name obj0 i s (e, g)" and ok: "et_ok X e'" and un: "unchanged X e e'"
  have m: "key_moves X (store_key S (RESOURCE T) name) e e'"
    using un by (intro key_moves_same) (auto simp: unchanged_def)
  have inv: "mutate_inv X S T f name obj0 (e', g)"
    using r ok un by (auto simp: mutate_rely_def unchanged_def intro: mutate_inv_same)
  show "mutate_rely X S T f name obj0 i s (e', g) \<and> mutate_guar X S T f name obj0 i (e, g) (e', g)"
    using r m inv key_moves_trans [OF _ m] by (simp add: mutate_rely_def mutate_guar_def)
next
  fix s e g
  assume "mutate_rely X S T f name obj0 i s (e, g)"
  then show "et_ok X e" by (simp add: mutate_rely_def mutate_inv_def)
next
  fix s1 s2
  assume "mutate_rely X S T f name obj0 i s1 s2"
  then show "mutate_rely X S T f name obj0 i s2 s2"
    by (intro mutate_rely_refl) (simp add: mutate_rely_def)
qed (rule mutate_rely_trans)

context mutator
begin

abbreviation settled where
  "settled r s \<equiv> (\<forall>obj. r = Inr obj \<longrightarrow> logged i s) \<and> (\<forall>m. r = Inl (Conflict m) \<longrightarrow> \<not> logged i s)"

lemma edit_logged:
  assumes inv: "mutate_inv X S T f name obj0 (e, log)" and new: "\<not> logged i (e, log)"
    and w: "encode T (f i (replay T f log obj0)) now = Inr w"
    and put: "puts X e (store_key S (RESOURCE T) name) w e'"
  shows "mutate_guar X S T f name obj0 i (e, log) (e', log @ [(i, now, et_head X e')])"
proof -
  have dec: "decode T w (et_head X e') = Inr (edited T f (i, now, et_head X e') (replay T f log obj0))"
    using decode_encode [OF w] by (simp add: edited_def Let_def)
  have nm: "md_name (metadata (edited T f (i, now, r) obj)) = md_name (metadata obj)" for r obj
    by (simp add: edited_def Let_def settle_keeps edits_keep)
  have "mutate_inv X S T f name obj0 (e', log @ [(i, now, et_head X e')])"
    using inv new put dec by (auto simp: mutate_inv_def puts_def put_entry_def replay_def nm)
  then show ?thesis
    using puts_moves [OF put] by (auto simp: mutate_guar_def)
qed

text \<open>Once the edit is logged, reading the object back cannot turn the answer into a conflict.\<close>

lemma after_edit:
  assumes g: "logged i s"
  shows "guarded X (mutate_rely X S T f name obj0 i) (mutate_guar X S T f name obj0 i) (store_get S T n)
      (\<lambda>r. guarded X (mutate_rely X S T f name obj0 i) (mutate_guar X S T f name obj0 i)
        (case r of Inl (Conflict m) \<Rightarrow> again | Inl e \<Rightarrow> Done (Inl e) | Inr o1 \<Rightarrow> Done (Inr o1)) settled) s"
proof (rule get_rule, goal_cases)
  case (3 e g x)
  have "logged i (e, g)" using 3(1) assms by (simp add: mutate_rely_def)
  then show ?case using decode_Inl [of T "en_value x" "en_mod_revision x"]
    by (cases "decode T (en_value x) (en_mod_revision x)") auto
qed (auto split: store_error.splits)

lemma current_version:
  assumes inv: "mutate_inv X S T f name obj0 (e, g)"
    and x: "et_look X e (store_key S (RESOURCE T) name) = Some x"
  shows "decode T (en_value x) (en_mod_revision x) = Inr (replay T f g obj0)"
    and "md_name (metadata (f i (replay T f g obj0))) = name"
    and "parse_i64 (md_resource_version (metadata (f i (replay T f g obj0)))) = Some (en_mod_revision x)"
    and "en_mod_revision x \<le> et_head X e"
proof -
  show obj: "decode T (en_value x) (en_mod_revision x) = Inr (replay T f g obj0)"
    and "md_name (metadata (f i (replay T f g obj0))) = name"
    using inv x by (auto simp: mutate_inv_def edits_keep)
  have ok: "et_ok X e" using inv by (simp add: mutate_inv_def)
  note r = revisions [OF ok x] head_i64 [OF ok]
  show "en_mod_revision x \<le> et_head X e" using r by simp
  show "parse_i64 (md_resource_version (metadata (f i (replay T f g obj0)))) = Some (en_mod_revision x)"
    unfolding edits_keep decode_version [OF obj] using r by (intro parse_int_display) linarith+
qed

text \<open>A compare-and-swap that succeeds replaces the object the edit was made from.\<close>

lemma update_logs:
  assumes inv: "mutate_inv X S T f name obj0 (e, g)" and new: "\<not> logged i (e, g)"
    and x: "et_look X e (store_key S (RESOURCE T) name) = Some x"
    and r: "mutate_rely X S T f name obj0 i (e, g) (e1, g1)"
    and y: "et_look X e1 (store_key S (RESOURCE T) name) = Some y"
      "parse_i64 (md_resource_version (metadata (f i (replay T f g obj0)))) = Some (en_mod_revision y)"
    and w: "encode T (f i (replay T f g obj0)) now = Inr w"
    and put: "puts X e1 (store_key S (RESOURCE T) name) w e'"
  shows "mutate_guar X S T f name obj0 i (e1, g1) (e', g1 @ [(i, now, et_head X e')])"
proof -
  note cur = current_version [OF inv x]
  have "y = x"
    by (rule key_moves_found [of X "store_key S (RESOURCE T) name" e e1])
      (use r y cur x in \<open>auto simp: mutate_rely_def\<close>)
  moreover have "decode T (en_value y) (en_mod_revision y) = Inr (replay T f g1 obj0)"
    using r y(1) by (auto simp: mutate_rely_def mutate_inv_def)
  ultimately have same: "replay T f g1 obj0 = replay T f g obj0" using cur(1) by simp
  show ?thesis
    by (rule edit_logged [where w = w]) (use r new same w put in \<open>auto simp: mutate_rely_def\<close>)
qed

lemma mutate_safe:
  "\<not> logged i s \<Longrightarrow>
   guarded X (mutate_rely X S T f name obj0 i) (mutate_guar X S T f name obj0 i)
     (mutate_loop n S T name (f i)) settled s"
proof (induction n arbitrary: s)
  case (Suc n)
  show ?case
    unfolding mutate_loop.simps try_then_def guarded_and_then
  proof (rule get_rule, goal_cases)
    case (3 e g x)
    have inv: "mutate_inv X S T f name obj0 (e, g)" and new: "\<not> logged i (e, g)"
      using 3(1) Suc.prems by (simp_all add: mutate_rely_def)
    note cur = current_version [OF inv 3(2)] and logs = update_logs [OF inv new 3(2)]
    show ?case
      unfolding cur(1) sum.case retry_conflict_def guarded_and_then
    proof (rule update_rule, goal_cases)
      case (3 e1 g1)
      have "\<not> logged i (e1, g1)" using 3(1) new by (simp add: mutate_rely_def)
      then show ?case using Suc.IH [of "(e1, g1)"] by (simp add: concurrent_write_def)
    next
      case (4 e1 g1 e' y w now err)
      then show ?case using logs [of e1 g1 y now w e'] cur(2) by (cases err) auto
    next
      case (5 e1 g1 e' y w now)
      have "mutate_guar X S T f name obj0 i (e1, g1) (e', g1 @ [(i, now, et_head X e')])"
        using logs [of e1 g1 y now w e'] 5 cur(2) by simp
      then show ?case
        using decode_encode [OF 5(4)]
        by (intro exI [of _ "g1 @ [(i, now, et_head X e')]"] conjI disjI2 [OF after_edit]) (auto simp: Let_def)
    qed (auto split: store_error.splits)
  qed (use Suc.prems in \<open>auto simp: mutate_rely_def split: store_error.splits\<close>)
qed (simp add: retries_exhausted_def)

end

section \<open>Two replicas and a counter\<close>

abbreviation counter_store :: "(counter, json) store" where "counter_store \<equiv> sample_store"

definition sample_edit :: "bool \<Rightarrow> counter \<Rightarrow> counter" where
  "sample_edit i c = c\<lparr>spec := (spec c)\<lparr>cs_next := if i then 9 else 11\<rparr>\<rparr>"

definition sample_counter :: counter where
  "sample_counter =
     (let c = en_value (snd (hd (mem_keys one_counter)))
      in c\<lparr>metadata := metadata c\<lparr>md_resource_version := ''2''\<rparr>\<rparr>)"

interpretation edits: mutator mem_etcd "counter_resource Inr Inr" counter_store sample_edit
    "''vni''" sample_counter True
  by unfold_locales (auto simp: sample_edit_def counter_resource_def)

lemma mutate_round:
  "mutate S T name g =
     try_then (store_get S T name) (\<lambda>obj. retry_conflict (update S T (g obj)) (mutate_loop 7 S T name g))"
  using mutate_loop.simps(2) [of 7 S T name g] by (simp add: mutate_def)

lemma sample_mutation:
  "\<exists>obj. snd (drive (Suc (Suc (Suc (Suc 0)))) one_counter
     (mutate counter_store (counter_resource Inr Inr) ''vni'' (sample_edit True))) = Done (Inr obj)"
  unfolding mutate_round one_counter_def
  by (simp add: mem_eval store_eval retry_conflict_def sample_store_def counter_resource_def sample_edit_def
      vni_name_ok dec_samples metadata_default_def)

lemma one_counter_start:
  "et_ok mem_etcd one_counter"
  "et_look mem_etcd one_counter (store_key counter_store (RESOURCE (counter_resource Inr Inr)) ''vni'')
     = Some (snd (hd (mem_keys one_counter)))"
  "decode (counter_resource Inr Inr) (en_value (snd (hd (mem_keys one_counter))))
     (en_mod_revision (snd (hd (mem_keys one_counter)))) = Inr sample_counter"
  "md_name (metadata sample_counter) = ''vni''"
  by (simp_all add: mem_etcd_def mem_ok_def one_counter_def sample_store_def store_key_def
      counter_resource_def decode_def sample_counter_def dec_samples metadata_default_def)

text \<open>C8: Concurrent read-modify-write loses no update and applies none twice. Any number of replicas mutate
  the same object, their requests interleaving in any order, any request failing or timing out before
  or after it took effect. At every moment the stored object is the initial one with a sequence of
  the replicas' edits applied one after the other, each settled and stamped with its revision, in
  which no replica's edit occurs twice; the edit of every replica that returned an object is in it,
  and the edit of a replica that returned a conflict is not.\<close>

theorem mutate_loses_no_update:
  fixes X :: "('e, 'b) etcd_ops" and T :: "('s, 't, 'b) resource"
    and f :: "'i \<Rightarrow> ('s, 't) object \<Rightarrow> ('s, 't) object"
  assumes service: "etcd X" and documents: "codec T"
    and edits: "\<And>j obj. md_name (metadata (f j obj)) = md_name (metadata obj) \<and>
          md_resource_version (metadata (f j obj)) = md_resource_version (metadata obj)"
    and settles: "\<And>now obj. md_name (metadata (settle T now obj)) = md_name (metadata obj)"
    and start: "et_ok X e0" "et_look X e0 (store_key S (RESOURCE T) name) = Some x"
      "decode T (en_value x) (en_mod_revision x) = Inr obj0" "md_name (metadata obj0) = name"
    and run: "sys_run X (outside X {store_key S (RESOURCE T) name}) (e0, \<lambda>i. mutate S T name (f i)) (e, ps)"
  shows "\<exists>log y. et_look X e (store_key S (RESOURCE T) name) = Some y \<and>
      decode T (en_value y) (en_mod_revision y) = Inr (replay T f log obj0) \<and>
      distinct (map fst log) \<and>
      (\<forall>i obj. ps i = Done (Inr obj) \<longrightarrow> i \<in> fst ` set log) \<and>
      (\<forall>i m. ps i = Done (Inl (Conflict m)) \<longrightarrow> i \<notin> fst ` set log)"
proof -
  let ?R = "mutate_rely X S T f name obj0" and ?G = "mutate_guar X S T f name obj0"
  let ?Q = "\<lambda>i r s. (\<forall>obj. r = Inr obj \<longrightarrow> logged i s) \<and> (\<forall>m. r = Inl (Conflict m) \<longrightarrow> \<not> logged i s)"
  have rep: "mutator X T f"
    using service documents edits settles by (simp add: mutator_def mutator_axioms_def)
  have inv0: "mutate_inv X S T f name obj0 (e0, [])"
    using start by (simp add: mutate_inv_def replay_def)
  have "\<exists>g. \<forall>i. \<exists>s. ?R i s (e, g) \<and> guarded X (?R i) (?G i) (ps i) (?Q i) s"
  proof (rule replicas_together [OF run, where ?g0.0 = "[]"], goal_cases)
    case (1 i) then show ?case
      unfolding mutate_def using mutator.mutate_safe [OF rep, of i "(e0, [])"] by simp
  next
    case (2 i) then show ?case by (rule mutate_rely_refl [OF inv0])
  next
    case (3 i s1 s2 s3) then show ?case by (rule mutate_rely_trans)
  next
    case (4 i j s1 s2) then show ?case by (auto simp: mutate_rely_def mutate_guar_def)
  next
    case (5 i s1 s2) then show ?case by (auto simp: mutate_guar_def intro: mutate_rely_refl)
  next
    case (6 e1 g1 e2)
    then have "\<forall>i. ?R i (e1, g1) (e2, g1)"
      by (auto simp: mutate_rely_def outside_def intro: key_moves_same mutate_inv_same)
    then show ?case by blast
  qed
  then obtain g where g: "\<And>i. \<exists>s. ?R i s (e, g) \<and> guarded X (?R i) (?G i) (ps i) (?Q i) s" by blast
  have q: "?Q i r (e, g)" if "ps i = Done r" for i r
    using g [of i] that by (auto simp: mutate_rely_def)
  have "mutate_inv X S T f name obj0 (e, g)" using g [of undefined] by (auto simp: mutate_rely_def)
  then obtain y where "et_look X e (store_key S (RESOURCE T) name) = Some y"
      "decode T (en_value y) (en_mod_revision y) = Inr (replay T f g obj0)" "distinct (map fst g)"
    by (auto simp: mutate_inv_def)
  then show ?thesis using q by (intro exI [of _ g] exI [of _ y]) auto
qed

theorem mutate_loses_no_update_witness:
  "\<exists>e ps obj log y. sys_run mem_etcd (outside mem_etcd {store_key counter_store ''counters'' ''vni''})
       (one_counter, \<lambda>i. mutate counter_store (counter_resource Inr Inr) ''vni'' (sample_edit i)) (e, ps) \<and>
     ps True = Done (Inr obj) \<and> True \<in> fst ` set log \<and> distinct (map fst log) \<and>
     et_look mem_etcd e (store_key counter_store ''counters'' ''vni'') = Some y \<and>
     decode (counter_resource Inr Inr) (en_value y) (en_mod_revision y) =
       Inr (replay (counter_resource Inr Inr) sample_edit log sample_counter)"
proof -
  let ?T = "counter_resource Inr Inr"
  let ?ps = "\<lambda>i. mutate counter_store ?T ''vni'' (sample_edit i)"
  have res: "RESOURCE ?T = ''counters''" by (simp add: counter_resource_def)
  obtain e obj where d: "drive (Suc (Suc (Suc (Suc 0)))) one_counter (?ps True) = (e, Done (Inr obj))"
    using sample_mutation by (metis prod.collapse)
  have run: "sys_run mem_etcd (outside mem_etcd {store_key counter_store (RESOURCE ?T) ''vni''}) (one_counter, ?ps)
      (e, ?ps(True := Done (Inr obj)))"
    by (rule drive_runs [where n = "Suc (Suc (Suc (Suc 0)))"]) (rule d)
  have docs: "codec ?T" by unfold_locales (simp add: counter_resource_def)
  have ed: "md_name (metadata (sample_edit j c)) = md_name (metadata c) \<and>
      md_resource_version (metadata (sample_edit j c)) = md_resource_version (metadata c)" for j c
    by (simp add: sample_edit_def)
  have st: "md_name (metadata (settle ?T now c)) = md_name (metadata c)" for now c
    by (simp add: counter_resource_def)
  obtain log y where y: "et_look mem_etcd e (store_key counter_store (RESOURCE ?T) ''vni'') = Some y"
      "decode ?T (en_value y) (en_mod_revision y) = Inr (replay ?T sample_edit log sample_counter)"
      "distinct (map fst log)" "\<forall>i o1. (?ps(True := Done (Inr obj))) i = Done (Inr o1) \<longrightarrow> i \<in> fst ` set log"
    using mutate_loses_no_update [OF mem.etcd_axioms docs ed st one_counter_start run] by blast
  have "True \<in> fst ` set log" using y(4) by (metis fun_upd_same)
  then show ?thesis using run y unfolding res
    by (intro exI [of _ e] exI [of _ "?ps(True := Done (Inr obj))"] exI [of _ obj] exI [of _ log] exI [of _ y])
      simp
qed

end
