(* ===== verification/Migration_Resource.thy ===== *)
theory Migration_Resource
  imports Object_Model
begin

text \<open>
  \<open>resources/migration.rs\<close>: the record of one live migration of one VM, and the phase derived
  from what was last established about it.
\<close>

datatype vm_migration_reason =
    MR_Unrecorded | MR_AwaitingTarget | MR_Dispatched | MR_Abandoned | MR_Reported

definition vm_migration_reason_all :: "vm_migration_reason list" where
  "vm_migration_reason_all =
     [MR_Unrecorded, MR_AwaitingTarget, MR_Dispatched, MR_Abandoned, MR_Reported]"

fun vm_migration_reason_str :: "vm_migration_reason \<Rightarrow> string" where
  "vm_migration_reason_str MR_Unrecorded = ''Unrecorded''"
| "vm_migration_reason_str MR_AwaitingTarget = ''AwaitingTarget''"
| "vm_migration_reason_str MR_Dispatched = ''Dispatched''"
| "vm_migration_reason_str MR_Abandoned = ''Abandoned''"
| "vm_migration_reason_str MR_Reported = ''Reported''"

datatype vm_migration_phase_kind =
    MP_Pending | MP_Preparing | MP_Running | MP_Succeeded | MP_Failed

definition vm_migration_phase_kind_all :: "vm_migration_phase_kind list" where
  "vm_migration_phase_kind_all =
     [MP_Pending, MP_Preparing, MP_Running, MP_Succeeded, MP_Failed]"

fun vm_migration_phase_kind_str :: "vm_migration_phase_kind \<Rightarrow> string" where
  "vm_migration_phase_kind_str MP_Pending = ''Pending''"
| "vm_migration_phase_kind_str MP_Preparing = ''Preparing''"
| "vm_migration_phase_kind_str MP_Running = ''Running''"
| "vm_migration_phase_kind_str MP_Succeeded = ''Succeeded''"
| "vm_migration_phase_kind_str MP_Failed = ''Failed''"

definition vm_migration_vocab :: "(vm_migration_phase_kind, vm_migration_reason) vocab" where
  "vm_migration_vocab =
     \<lparr>vc_kinds = vm_migration_phase_kind_all, vc_kind_str = vm_migration_phase_kind_str,
      vc_has_reason = (\<lambda>k. k \<notin> {MP_Succeeded}),
      vc_reasons = vm_migration_reason_all, vc_reason_str = vm_migration_reason_str,
      vc_unrecorded = MR_Unrecorded\<rparr>"

interpretation vm_migration_reason_words: closed_words vm_migration_reason_all vm_migration_reason_str
proof
  show "x \<in> set vm_migration_reason_all" for x
    by (cases x) (simp_all add: vm_migration_reason_all_def)
  show "distinct (map vm_migration_reason_str vm_migration_reason_all)"
    by (simp add: vm_migration_reason_all_def)
qed

interpretation vm_migration_kind_words: closed_words vm_migration_phase_kind_all vm_migration_phase_kind_str
proof
  show "x \<in> set vm_migration_phase_kind_all" for x
    by (cases x) (simp_all add: vm_migration_phase_kind_all_def)
  show "distinct (map vm_migration_phase_kind_str vm_migration_phase_kind_all)"
    by (simp add: vm_migration_phase_kind_all_def)
qed

interpretation vm_migration_phases: phase_vocab vm_migration_vocab
proof
  show "vc_reason_str vm_migration_vocab r \<noteq> []" for r
    by (cases r) (simp_all add: vm_migration_vocab_def)
qed (simp_all add: vm_migration_vocab_def vm_migration_kind_words.all_UNIV vm_migration_kind_words.distinct_words
      vm_migration_reason_words.all_UNIV vm_migration_reason_words.distinct_words)

lemma vm_migration_vocab_simps [simp]:
  "vc_has_reason vm_migration_vocab k \<longleftrightarrow> k \<notin> {MP_Succeeded}"
  "vc_unrecorded vm_migration_vocab = MR_Unrecorded"
  "vc_kind_str vm_migration_vocab = vm_migration_phase_kind_str"
  "vc_reason_str vm_migration_vocab = vm_migration_reason_str"
  by (simp_all add: vm_migration_vocab_def)

definition migration_is_final :: "vm_migration_phase_kind \<Rightarrow> bool" where
  "migration_is_final k \<longleftrightarrow> k \<in> {MP_Succeeded, MP_Failed}"

definition migration_is_terminal :: "vm_migration_phase_kind \<Rightarrow> bool" where
  "migration_is_terminal k \<longleftrightarrow> migration_is_final k"

record vm_migration_spec =
  ms_tenant :: string
  ms_vm :: string
  ms_target_node :: "string option"

record vm_migration_status =
  mt_migration_id :: "string option"
  mt_vm_uid :: "string option"
  mt_recovery_required :: bool
  mt_cancelling :: bool
  mt_phase :: "(vm_migration_phase_kind, vm_migration_reason) phase"
  mt_reported :: "(vm_migration_phase_kind, vm_migration_reason) said option"
  mt_observed_generation :: u64
  mt_source_node :: "string option"
  mt_target_node :: "string option"
  mt_peer :: "string option"
  mt_started_at :: "instant option"
  mt_finished_at :: "instant option"
  mt_target_reported :: "string option"
  mt_source_reported :: "string option"
  mt_source_message :: "string option"

type_synonym vm_migration = "(vm_migration_spec, vm_migration_status) object"

definition settle_vm_migration ::
  "vm_migration_status \<Rightarrow> (vm_migration_phase_kind, vm_migration_reason) phase" where
  "settle_vm_migration t =
     (case Option.bind (mt_reported t) (said_phase vm_migration_vocab) of
        Some phase \<Rightarrow> phase
      | None \<Rightarrow> phase_new vm_migration_vocab MP_Pending MR_AwaitingTarget
                 (Some ''no target chosen yet'') UNSTAMPED)"

text \<open>A migration is recorded as succeeded only on the word of a machine.\<close>

lemma settle_vm_migration_succeeded:
  assumes "ph_kind (settle_vm_migration t) = MP_Succeeded"
  shows "\<exists>r. mt_reported t = Some r \<and> sa_phase r = MP_Succeeded \<and> sa_node r \<noteq> []"
proof -
  obtain r where "mt_reported t = Some r" "said_phase vm_migration_vocab r = Some (settle_vm_migration t)"
    using assms by (auto simp: settle_vm_migration_def bind_eq_Some_conv split: option.splits)
  then show ?thesis
    using assms said_phase_resting [of vm_migration_vocab r] said_phase_kind [of vm_migration_vocab r]
    by auto
qed

end
