(* ===== verification/Storage_Resource.thy ===== *)
theory Storage_Resource
  imports Object_Model Capability Migration_Resource
begin

text \<open>
  \<open>resources/volume.rs\<close> and \<open>resources/pool.rs\<close>: volumes with their attachment claims, snapshots,
  and the pools they come out of. The backend options of a pool are documents of the third-party
  JSON crate that the sources only compare; their type is a parameter.
\<close>

section \<open>Volumes\<close>

datatype volume_mode = VolBlock | VolFilesystem

datatype access_mode = ReadWriteOnce

datatype volume_reason =
    LR_Unrecorded | LR_AwaitingNode | LR_Unplaced | LR_Following | LR_Dispatched
  | LR_Undeliverable | LR_SourceMissing | LR_HeldBy | LR_Working | LR_DriverRefused
  | LR_NotOnBackend | LR_Deprovisioned

definition volume_reason_all :: "volume_reason list" where
  "volume_reason_all =
     [LR_Unrecorded, LR_AwaitingNode, LR_Unplaced, LR_Following, LR_Dispatched,
      LR_Undeliverable, LR_SourceMissing, LR_HeldBy, LR_Working, LR_DriverRefused,
      LR_NotOnBackend, LR_Deprovisioned]"

fun volume_reason_str :: "volume_reason \<Rightarrow> string" where
  "volume_reason_str LR_Unrecorded = ''Unrecorded''"
| "volume_reason_str LR_AwaitingNode = ''AwaitingNode''"
| "volume_reason_str LR_Unplaced = ''Unplaced''"
| "volume_reason_str LR_Following = ''Following''"
| "volume_reason_str LR_Dispatched = ''Dispatched''"
| "volume_reason_str LR_Undeliverable = ''Undeliverable''"
| "volume_reason_str LR_SourceMissing = ''SourceMissing''"
| "volume_reason_str LR_HeldBy = ''HeldBy''"
| "volume_reason_str LR_Working = ''Working''"
| "volume_reason_str LR_DriverRefused = ''DriverRefused''"
| "volume_reason_str LR_NotOnBackend = ''NotOnBackend''"
| "volume_reason_str LR_Deprovisioned = ''Deprovisioned''"

datatype volume_phase_kind =
    LP_Pending | LP_Provisioning | LP_Ready | LP_Releasing | LP_Failed

definition volume_phase_kind_all :: "volume_phase_kind list" where
  "volume_phase_kind_all =
     [LP_Pending, LP_Provisioning, LP_Ready, LP_Releasing, LP_Failed]"

fun volume_phase_kind_str :: "volume_phase_kind \<Rightarrow> string" where
  "volume_phase_kind_str LP_Pending = ''Pending''"
| "volume_phase_kind_str LP_Provisioning = ''Provisioning''"
| "volume_phase_kind_str LP_Ready = ''Ready''"
| "volume_phase_kind_str LP_Releasing = ''Releasing''"
| "volume_phase_kind_str LP_Failed = ''Failed''"

definition volume_vocab :: "(volume_phase_kind, volume_reason) vocab" where
  "volume_vocab =
     \<lparr>vc_kinds = volume_phase_kind_all, vc_kind_str = volume_phase_kind_str,
      vc_has_reason = (\<lambda>k. k \<notin> {LP_Ready}),
      vc_reasons = volume_reason_all, vc_reason_str = volume_reason_str,
      vc_unrecorded = LR_Unrecorded\<rparr>"

interpretation volume_reason_words: closed_words volume_reason_all volume_reason_str
proof
  show "x \<in> set volume_reason_all" for x
    by (cases x) (simp_all add: volume_reason_all_def)
  show "distinct (map volume_reason_str volume_reason_all)"
    by (simp add: volume_reason_all_def)
qed

interpretation volume_kind_words: closed_words volume_phase_kind_all volume_phase_kind_str
proof
  show "x \<in> set volume_phase_kind_all" for x
    by (cases x) (simp_all add: volume_phase_kind_all_def)
  show "distinct (map volume_phase_kind_str volume_phase_kind_all)"
    by (simp add: volume_phase_kind_all_def)
qed

interpretation volume_phases: phase_vocab volume_vocab
proof
  show "vc_reason_str volume_vocab r \<noteq> []" for r
    by (cases r) (simp_all add: volume_vocab_def)
qed (simp_all add: volume_vocab_def volume_kind_words.all_UNIV volume_kind_words.distinct_words
      volume_reason_words.all_UNIV volume_reason_words.distinct_words)

lemma volume_vocab_simps [simp]:
  "vc_has_reason volume_vocab k \<longleftrightarrow> k \<notin> {LP_Ready}"
  "vc_unrecorded volume_vocab = LR_Unrecorded"
  "vc_kind_str volume_vocab = volume_phase_kind_str"
  "vc_reason_str volume_vocab = volume_reason_str"
  by (simp_all add: volume_vocab_def)

definition volume_is_terminal :: "volume_phase_kind \<Rightarrow> bool" where
  "volume_is_terminal k \<longleftrightarrow> k = LP_Ready"

record volume_spec =
  ls_tenant :: string
  ls_pool :: string
  ls_size_gib :: u64
  ls_mode :: volume_mode
  ls_access_mode :: access_mode
  ls_base_image :: "string option"
  ls_from_snapshot :: "string option"
  ls_description :: string

record volume_status =
  lt_phase :: "(volume_phase_kind, volume_reason) phase"
  lt_reported :: "(volume_phase_kind, volume_reason) said option"
  lt_holder :: "string option"
  lt_claimant_gone :: bool
  lt_backend :: string
  lt_node :: "string option"
  lt_open_on :: "string list"
  lt_cluster :: "string option"
  lt_attached_to :: "string option"
  lt_attached_uid :: "string option"
  lt_size_gib :: u64
  lt_untold_gib :: u64
  lt_observed_generation :: u64
  lt_observed_at :: "instant option"
  lt_requeue_attempts :: u32
  lt_last_requeue :: "instant option"

type_synonym volume = "(volume_spec, volume_status) object"

definition volume_status_default :: volume_status where
  "volume_status_default =
     \<lparr>lt_phase = phase_default volume_vocab, lt_reported = None, lt_holder = None,
      lt_claimant_gone = False, lt_backend = [], lt_node = None, lt_open_on = [],
      lt_cluster = None, lt_attached_to = None, lt_attached_uid = None, lt_size_gib = 0,
      lt_untold_gib = 0, lt_observed_generation = 0, lt_observed_at = None,
      lt_requeue_attempts = 0, lt_last_requeue = None\<rparr>"

definition VOLUME_RELEASE_FINALIZER :: string where
  "VOLUME_RELEASE_FINALIZER = ''meister.io/release''"

definition new_volume :: "string \<Rightarrow> volume_spec \<Rightarrow> string \<Rightarrow> instant \<Rightarrow> volume" where
  "new_volume name spc uid now =
     (let v = declare_object ''Volume'' name spc volume_status_default uid now
      in v\<lparr>metadata := (metadata v)
             \<lparr>md_finalizers := md_finalizers (metadata v) @ [VOLUME_RELEASE_FINALIZER]\<rparr>\<rparr>)"

definition volume_claim_holds :: "volume_status \<Rightarrow> bool" where
  "volume_claim_holds t =
     (case lt_attached_to t of
        None \<Rightarrow> True
      | Some _ \<Rightarrow> \<not> lt_claimant_gone t \<or> lt_open_on t \<noteq> [])"

definition settle_volume :: "bool \<Rightarrow> volume_status \<Rightarrow> (volume_phase_kind, volume_reason) phase" where
  "settle_volume deleting t =
     (let said = lt_reported t in
      if deleting then
        (case lt_holder t of
           Some holder \<Rightarrow> phase_new volume_vocab LP_Releasing LR_HeldBy (Some holder) UNSTAMPED
         | None \<Rightarrow>
             (let gone = (case said of Some r \<Rightarrow> sa_reason r = LR_Deprovisioned | None \<Rightarrow> False) in
              phase_new volume_vocab LP_Releasing
                (if gone then LR_Deprovisioned else LR_Dispatched)
                (or_else (Option.bind said sa_message)
                         (Some ''waiting for the node to say the bytes are gone'')) UNSTAMPED))
      else case Option.bind said (said_phase volume_vocab) of
        Some phase \<Rightarrow> phase
      | None \<Rightarrow>
          phase_new volume_vocab LP_Pending LR_AwaitingNode
            (Some (case lt_node t of
                     Some node \<Rightarrow> node @ '' was chosen; the provision has not gone out yet''
                   | None \<Rightarrow> ''not placed yet'')) UNSTAMPED)"

definition volume_settle :: "instant \<Rightarrow> volume \<Rightarrow> volume" where
  "volume_settle now v =
     (let t = (if volume_claim_holds (status v) then status v
               else (status v)\<lparr>lt_attached_to := None, lt_attached_uid := None,
                               lt_claimant_gone := False\<rparr>)
      in v\<lparr>status := t\<lparr>lt_phase := stamp volume_vocab (lt_phase t)
                                    (settle_volume (is_deleting v) t) now\<rparr>\<rparr>)"

definition claimed_by :: "volume_status \<Rightarrow> string \<Rightarrow> bool" where
  "claimed_by t uid \<longleftrightarrow> lt_attached_to t \<noteq> None \<and> lt_attached_uid t = Some uid"

definition held_by :: "volume_status \<Rightarrow> string \<Rightarrow> string \<Rightarrow> bool" where
  "held_by t name uid =
     (case lt_attached_uid t of
        Some held \<Rightarrow> held = uid
      | None \<Rightarrow> lt_attached_to t = Some name)"

text \<open>\<open>binary_search_by\<close> of the standard library, as its slices do it: the part that may hold the name is
  halved until one element is left. \<open>Inr\<close> is a position where the name stands, \<open>Inl\<close> the one where
  it would have to be inserted. \<open>open_on\<close> is kept sorted and without repetitions.\<close>

function bisect :: "string list \<Rightarrow> string \<Rightarrow> nat \<Rightarrow> nat \<Rightarrow> nat" where
  "bisect xs x base left =
     (if left \<le> 1 then base
      else let half = left div 2; mid = base + half
           in bisect xs x (if x < xs ! mid then base else mid) (left - half))"
  by pat_completeness auto
termination by (relation "measure (\<lambda>(_, _, _, left). left)") auto

declare bisect.simps [simp del]

definition binary_search :: "string list \<Rightarrow> string \<Rightarrow> nat + nat" where
  "binary_search xs x =
     (if xs = [] then Inl 0
      else let base = bisect xs x 0 (length xs)
           in if xs ! base = x then Inr base else Inl (base + (if xs ! base < x then 1 else 0)))"

definition open_here :: "volume_status \<Rightarrow> string \<Rightarrow> volume_status \<times> bool" where
  "open_here t node =
     (case binary_search (lt_open_on t) node of
        Inr _ \<Rightarrow> (t, False)
      | Inl at \<Rightarrow> (t\<lparr>lt_open_on := take at (lt_open_on t) @ node # drop at (lt_open_on t)\<rparr>, True))"

definition closed_here :: "volume_status \<Rightarrow> string \<Rightarrow> volume_status \<times> bool" where
  "closed_here t node =
     (case binary_search (lt_open_on t) node of
        Inr at \<Rightarrow> (t\<lparr>lt_open_on := take at (lt_open_on t) @ drop (Suc at) (lt_open_on t)\<rparr>, True)
      | Inl _ \<Rightarrow> (t, False))"

definition open_elsewhere :: "volume_status \<Rightarrow> string \<Rightarrow> string option" where
  "open_elsewhere t node = find (\<lambda>open. open \<noteq> node) (lt_open_on t)"

definition second_open_is_a_migration :: "vm_migration_phase_kind option \<Rightarrow> bool" where
  "second_open_is_a_migration phase \<longleftrightarrow> phase \<in> {Some MP_Preparing, Some MP_Running}"

section \<open>Snapshots\<close>

datatype volume_snapshot_reason =
    NR_Unrecorded | NR_AwaitingNode | NR_Dispatched | NR_Requeued | NR_SourceGone
  | NR_Undeliverable | NR_Working | NR_DriverRefused | NR_Dropped

definition volume_snapshot_reason_all :: "volume_snapshot_reason list" where
  "volume_snapshot_reason_all =
     [NR_Unrecorded, NR_AwaitingNode, NR_Dispatched, NR_Requeued, NR_SourceGone,
      NR_Undeliverable, NR_Working, NR_DriverRefused, NR_Dropped]"

fun volume_snapshot_reason_str :: "volume_snapshot_reason \<Rightarrow> string" where
  "volume_snapshot_reason_str NR_Unrecorded = ''Unrecorded''"
| "volume_snapshot_reason_str NR_AwaitingNode = ''AwaitingNode''"
| "volume_snapshot_reason_str NR_Dispatched = ''Dispatched''"
| "volume_snapshot_reason_str NR_Requeued = ''Requeued''"
| "volume_snapshot_reason_str NR_SourceGone = ''SourceGone''"
| "volume_snapshot_reason_str NR_Undeliverable = ''Undeliverable''"
| "volume_snapshot_reason_str NR_Working = ''Working''"
| "volume_snapshot_reason_str NR_DriverRefused = ''DriverRefused''"
| "volume_snapshot_reason_str NR_Dropped = ''Dropped''"

datatype volume_snapshot_phase_kind =
    NP_Pending | NP_Creating | NP_Ready | NP_Failed

definition volume_snapshot_phase_kind_all :: "volume_snapshot_phase_kind list" where
  "volume_snapshot_phase_kind_all =
     [NP_Pending, NP_Creating, NP_Ready, NP_Failed]"

fun volume_snapshot_phase_kind_str :: "volume_snapshot_phase_kind \<Rightarrow> string" where
  "volume_snapshot_phase_kind_str NP_Pending = ''Pending''"
| "volume_snapshot_phase_kind_str NP_Creating = ''Creating''"
| "volume_snapshot_phase_kind_str NP_Ready = ''Ready''"
| "volume_snapshot_phase_kind_str NP_Failed = ''Failed''"

definition volume_snapshot_vocab :: "(volume_snapshot_phase_kind, volume_snapshot_reason) vocab" where
  "volume_snapshot_vocab =
     \<lparr>vc_kinds = volume_snapshot_phase_kind_all, vc_kind_str = volume_snapshot_phase_kind_str,
      vc_has_reason = (\<lambda>k. k \<notin> {NP_Ready}),
      vc_reasons = volume_snapshot_reason_all, vc_reason_str = volume_snapshot_reason_str,
      vc_unrecorded = NR_Unrecorded\<rparr>"

interpretation volume_snapshot_reason_words: closed_words volume_snapshot_reason_all volume_snapshot_reason_str
proof
  show "x \<in> set volume_snapshot_reason_all" for x
    by (cases x) (simp_all add: volume_snapshot_reason_all_def)
  show "distinct (map volume_snapshot_reason_str volume_snapshot_reason_all)"
    by (simp add: volume_snapshot_reason_all_def)
qed

interpretation volume_snapshot_kind_words: closed_words volume_snapshot_phase_kind_all volume_snapshot_phase_kind_str
proof
  show "x \<in> set volume_snapshot_phase_kind_all" for x
    by (cases x) (simp_all add: volume_snapshot_phase_kind_all_def)
  show "distinct (map volume_snapshot_phase_kind_str volume_snapshot_phase_kind_all)"
    by (simp add: volume_snapshot_phase_kind_all_def)
qed

interpretation volume_snapshot_phases: phase_vocab volume_snapshot_vocab
proof
  show "vc_reason_str volume_snapshot_vocab r \<noteq> []" for r
    by (cases r) (simp_all add: volume_snapshot_vocab_def)
qed (simp_all add: volume_snapshot_vocab_def volume_snapshot_kind_words.all_UNIV volume_snapshot_kind_words.distinct_words
      volume_snapshot_reason_words.all_UNIV volume_snapshot_reason_words.distinct_words)

lemma volume_snapshot_vocab_simps [simp]:
  "vc_has_reason volume_snapshot_vocab k \<longleftrightarrow> k \<notin> {NP_Ready}"
  "vc_unrecorded volume_snapshot_vocab = NR_Unrecorded"
  "vc_kind_str volume_snapshot_vocab = volume_snapshot_phase_kind_str"
  "vc_reason_str volume_snapshot_vocab = volume_snapshot_reason_str"
  by (simp_all add: volume_snapshot_vocab_def)

definition volume_snapshot_is_terminal :: "volume_snapshot_phase_kind \<Rightarrow> bool" where
  "volume_snapshot_is_terminal k \<longleftrightarrow> k = NP_Ready"

record volume_snapshot_spec =
  nss_tenant :: string
  nss_volume :: string
  nss_description :: string

record volume_snapshot_status =
  nt_phase :: "(volume_snapshot_phase_kind, volume_snapshot_reason) phase"
  nt_reported :: "(volume_snapshot_phase_kind, volume_snapshot_reason) said option"
  nt_node :: "string option"
  nt_backend :: string
  nt_size_gib :: u64
  nt_observed_at :: "instant option"
  nt_requeue_attempts :: u32
  nt_last_requeue :: "instant option"

definition settle_volume_snapshot ::
  "volume_snapshot_status \<Rightarrow> (volume_snapshot_phase_kind, volume_snapshot_reason) phase" where
  "settle_volume_snapshot t =
     (case Option.bind (nt_reported t) (said_phase volume_snapshot_vocab) of
        Some phase \<Rightarrow> phase
      | None \<Rightarrow> phase_new volume_snapshot_vocab NP_Pending NR_AwaitingNode
                 (Some ''no node has been told to take it yet'') UNSTAMPED)"

section \<open>Pools\<close>

datatype storage_pool_reason =
    SR_Unrecorded | SR_AwaitingNode | SR_Disagreement | SR_ClusterSilent
  | SR_ClusterHasNoPool

definition storage_pool_reason_all :: "storage_pool_reason list" where
  "storage_pool_reason_all =
     [SR_Unrecorded, SR_AwaitingNode, SR_Disagreement, SR_ClusterSilent, SR_ClusterHasNoPool]"

fun storage_pool_reason_str :: "storage_pool_reason \<Rightarrow> string" where
  "storage_pool_reason_str SR_Unrecorded = ''Unrecorded''"
| "storage_pool_reason_str SR_AwaitingNode = ''AwaitingNode''"
| "storage_pool_reason_str SR_Disagreement = ''Disagreement''"
| "storage_pool_reason_str SR_ClusterSilent = ''ClusterSilent''"
| "storage_pool_reason_str SR_ClusterHasNoPool = ''ClusterHasNoPool''"

datatype storage_pool_phase_kind =
    SP_Pending | SP_Ready | SP_Failed

definition storage_pool_phase_kind_all :: "storage_pool_phase_kind list" where
  "storage_pool_phase_kind_all =
     [SP_Pending, SP_Ready, SP_Failed]"

fun storage_pool_phase_kind_str :: "storage_pool_phase_kind \<Rightarrow> string" where
  "storage_pool_phase_kind_str SP_Pending = ''Pending''"
| "storage_pool_phase_kind_str SP_Ready = ''Ready''"
| "storage_pool_phase_kind_str SP_Failed = ''Failed''"

definition storage_pool_vocab :: "(storage_pool_phase_kind, storage_pool_reason) vocab" where
  "storage_pool_vocab =
     \<lparr>vc_kinds = storage_pool_phase_kind_all, vc_kind_str = storage_pool_phase_kind_str,
      vc_has_reason = (\<lambda>k. k \<notin> {SP_Ready}),
      vc_reasons = storage_pool_reason_all, vc_reason_str = storage_pool_reason_str,
      vc_unrecorded = SR_Unrecorded\<rparr>"

interpretation storage_pool_reason_words: closed_words storage_pool_reason_all storage_pool_reason_str
proof
  show "x \<in> set storage_pool_reason_all" for x
    by (cases x) (simp_all add: storage_pool_reason_all_def)
  show "distinct (map storage_pool_reason_str storage_pool_reason_all)"
    by (simp add: storage_pool_reason_all_def)
qed

interpretation storage_pool_kind_words: closed_words storage_pool_phase_kind_all storage_pool_phase_kind_str
proof
  show "x \<in> set storage_pool_phase_kind_all" for x
    by (cases x) (simp_all add: storage_pool_phase_kind_all_def)
  show "distinct (map storage_pool_phase_kind_str storage_pool_phase_kind_all)"
    by (simp add: storage_pool_phase_kind_all_def)
qed

interpretation storage_pool_phases: phase_vocab storage_pool_vocab
proof
  show "vc_reason_str storage_pool_vocab r \<noteq> []" for r
    by (cases r) (simp_all add: storage_pool_vocab_def)
qed (simp_all add: storage_pool_vocab_def storage_pool_kind_words.all_UNIV storage_pool_kind_words.distinct_words
      storage_pool_reason_words.all_UNIV storage_pool_reason_words.distinct_words)

lemma storage_pool_vocab_simps [simp]:
  "vc_has_reason storage_pool_vocab k \<longleftrightarrow> k \<notin> {SP_Ready}"
  "vc_unrecorded storage_pool_vocab = SR_Unrecorded"
  "vc_kind_str storage_pool_vocab = storage_pool_phase_kind_str"
  "vc_reason_str storage_pool_vocab = storage_pool_reason_str"
  by (simp_all add: storage_pool_vocab_def)

definition storage_pool_is_terminal :: "storage_pool_phase_kind \<Rightarrow> bool" where
  "storage_pool_is_terminal k \<longleftrightarrow> k = SP_Ready"

record 'j storage_pool_spec =
  ps_driver :: string
  ps_nodes :: "string list"
  ps_params :: "'j option"
  ps_default :: bool
  ps_quota :: "(string, u64) bmap"
  ps_cluster :: string
  ps_clusters :: "string list"
  ps_description :: string

record 'j pool_at_cluster =
  pc_cluster :: string
  pc_phase :: storage_pool_phase_kind
  pc_reason :: storage_pool_reason
  pc_locality :: "locality option"
  pc_nodes :: "string list"
  pc_params :: "'j option"
  pc_message :: "string option"

record pool_disagreement =
  pd_node :: string
  pd_says :: locality
  pd_other :: string
  pd_other_says :: locality

record pool_pointer =
  pp_cluster :: string
  pp_reported_at :: instant

record 'j storage_pool_status =
  pt_phase :: "(storage_pool_phase_kind, storage_pool_reason) phase"
  pt_locality :: "locality option"
  pt_nodes :: "string list"
  pt_claims :: "(string, string) bmap"
  pt_clusters :: "'j pool_at_cluster list"
  pt_disagreement :: "pool_disagreement option"
  pt_pointer_target :: "pool_pointer option"

type_synonym 'j storage_pool = "('j storage_pool_spec, 'j storage_pool_status) object"

definition DEFAULT_QUOTA_STORAGE_GIB :: u64 where "DEFAULT_QUOTA_STORAGE_GIB = 100"
definition QUOTA_EVERYONE :: string where "QUOTA_EVERYONE = ''*''"

definition quota_for :: "'j storage_pool_spec \<Rightarrow> string \<Rightarrow> u64" where
  "quota_for s tenant =
     unwrap_or DEFAULT_QUOTA_STORAGE_GIB
       (or_else (map_of (ps_quota s) tenant) (map_of (ps_quota s) QUOTA_EVERYONE))"

definition state_default_quota :: "'j storage_pool_spec \<Rightarrow> 'j storage_pool_spec" where
  "state_default_quota s =
     (if map_of (ps_quota s) QUOTA_EVERYONE = None
      then s\<lparr>ps_quota := bm_insert QUOTA_EVERYONE DEFAULT_QUOTA_STORAGE_GIB (ps_quota s)\<rparr>
      else s)"

definition pool_reaches :: "'j storage_pool_spec \<Rightarrow> string \<Rightarrow> bool" where
  "pool_reaches s node \<longleftrightarrow> ps_nodes s = [] \<or> node \<in> set (ps_nodes s)"

definition served_by :: "'j storage_pool_spec \<Rightarrow> string list" where
  "served_by s =
     foldl (\<lambda>out c. if c \<noteq> [] \<and> c \<notin> set out then out @ [c] else out)
       (if ps_cluster s \<noteq> [] then [ps_cluster s] else []) (ps_clusters s)"

definition pool_home :: "'j storage_pool_spec \<Rightarrow> string option" where
  "pool_home s = (case served_by s of [] \<Rightarrow> None | c # _ \<Rightarrow> Some c)"

definition pool_serves :: "'j storage_pool_spec \<Rightarrow> string \<Rightarrow> bool" where
  "pool_serves s cluster \<longleftrightarrow> cluster \<in> set (served_by s)"

definition disagreeing :: "'j storage_pool_status \<Rightarrow> (string \<times> string) option" where
  "disagreeing t =
     (case pt_clusters t of
        [] \<Rightarrow> None
      | first # rest \<Rightarrow>
          map_option (\<lambda>e. (pc_cluster first, pc_cluster e))
            (find (\<lambda>e. pc_params first \<noteq> pc_params e) rest))"

definition settle_storage_pool ::
  "string \<Rightarrow> 'j storage_pool_spec \<Rightarrow> 'j storage_pool_status
     \<Rightarrow> (storage_pool_phase_kind, storage_pool_reason) phase" where
  "settle_storage_pool name s t =
     (case pool_home s of
        Some home \<Rightarrow>
          (case find (\<lambda>e. pc_cluster e = home) (pt_clusters t) of
             Some e \<Rightarrow> phase_new storage_pool_vocab (pc_phase e) (pc_reason e) (pc_message e) UNSTAMPED
           | None \<Rightarrow>
               (let spoken = (case pt_pointer_target t of Some p \<Rightarrow> pp_cluster p = home | None \<Rightarrow> False)
                in phase_new storage_pool_vocab SP_Pending
                     (if spoken then SR_ClusterHasNoPool else SR_ClusterSilent)
                     (Some (if spoken then home @ '' reports no pool named '' @ name
                            else home @ '' has not reported'')) UNSTAMPED))
      | None \<Rightarrow>
          (case pt_disagreement t of
             Some d \<Rightarrow>
               phase_new storage_pool_vocab SP_Failed SR_Disagreement
                 (Some (''nodes disagree about storage driver '' @ ps_driver s @ '': '' @ pd_other d
                        @ '' says '' @ locality_as_str (pd_other_says d) @ '', '' @ pd_node d
                        @ '' says '' @ locality_as_str (pd_says d)
                        @ ''; that is a version mix, not a setting'')) UNSTAMPED
           | None \<Rightarrow>
               (case pt_locality t of
                  Some _ \<Rightarrow> phase_said storage_pool_vocab SP_Ready None UNSTAMPED
                | None \<Rightarrow>
                    phase_new storage_pool_vocab SP_Pending SR_AwaitingNode
                      (Some (''no node serving '' @ name @ '' has said anything about driver ''
                             @ ps_driver s @ '' yet'')) UNSTAMPED)))"

section \<open>Facts\<close>

lemma settle_volume_deleting: "ph_kind (settle_volume True t) = LP_Releasing"
  by (simp add: settle_volume_def Let_def split: option.splits)

lemma settle_volume_ready:
  assumes "ph_kind (settle_volume deleting t) = LP_Ready"
  shows "\<not> deleting \<and> (\<exists>r. lt_reported t = Some r \<and> sa_phase r = LP_Ready \<and> sa_node r \<noteq> [])"
proof -
  have nd: "\<not> deleting"
    using assms settle_volume_deleting [of t] by (cases deleting) auto
  then obtain r where "lt_reported t = Some r" "said_phase volume_vocab r = Some (settle_volume deleting t)"
    using assms by (auto simp: settle_volume_def Let_def bind_eq_Some_conv split: option.splits)
  then show ?thesis
    using nd assms said_phase_resting [of volume_vocab r] said_phase_kind [of volume_vocab r] by auto
qed

lemma volume_claim_holds_iff:
  "volume_claim_holds t \<longleftrightarrow> lt_attached_to t = None \<or> \<not> lt_claimant_gone t \<or> lt_open_on t \<noteq> []"
  by (auto simp: volume_claim_holds_def split: option.splits)

lemma volume_settle_claim:
  "lt_attached_to (status (volume_settle now v)) =
     (if lt_claimant_gone (status v) \<and> lt_open_on (status v) = [] then None
      else lt_attached_to (status v))"
  by (auto simp: volume_settle_def Let_def volume_claim_holds_iff)

lemma settle_volume_irrelevant [simp]:
  "settle_volume d (t\<lparr>lt_phase := p\<rparr>) = settle_volume d t"
  "settle_volume d (t\<lparr>lt_attached_to := a, lt_attached_uid := u, lt_claimant_gone := g\<rparr>)
     = settle_volume d t"
  "settle_volume d (t\<lparr>lt_phase := p, lt_attached_to := a, lt_attached_uid := u, lt_claimant_gone := g\<rparr>)
     = settle_volume d t"
  by (simp_all add: settle_volume_def Let_def cong: option.case_cong)

lemma volume_settle_twice:
  assumes "now \<noteq> UNSTAMPED"
  shows "volume_settle later (volume_settle now v) = volume_settle now v"
  using assms
  by (simp add: volume_settle_def Let_def is_deleting_def volume_claim_holds_iff stamp_again)

subsection \<open>Bisection\<close>

lemma bisect_stop: "left \<le> 1 \<Longrightarrow> bisect xs x base left = base"
  by (subst bisect.simps) (rule if_P)

lemma bisect_step:
  "\<not> left \<le> 1 \<Longrightarrow> bisect xs x base left =
     bisect xs x (if x < xs ! (base + left div 2) then base else base + left div 2) (left - left div 2)"
  by (subst bisect.simps) (simp only: if_False Let_def)

lemma bisect_within: "1 \<le> left \<Longrightarrow> base \<le> bisect xs x base left \<and> bisect xs x base left < base + left"
proof (induction xs x base left rule: bisect.induct)
  case (1 xs x base left)
  show ?case
  proof (cases "left \<le> 1")
    case True
    then show ?thesis using 1(2) by (simp add: bisect_stop)
  next
    case False
    then have "1 \<le> left - left div 2" by simp
    from 1(1) [OF False refl refl this] show ?thesis
      unfolding bisect_step [OF False] by (auto split: if_splits)
  qed
qed

text \<open>On a sorted list everything behind the position found is greater than the name, and what stands there
  is not, unless the search never left the front.\<close>

lemma bisect_sorted:
  assumes "sorted_wrt (<) xs"
  shows "1 \<le> left \<Longrightarrow> base + left \<le> length xs \<Longrightarrow> \<forall>i. base + left \<le> i \<longrightarrow> i < length xs \<longrightarrow> x < xs ! i \<Longrightarrow>
    base = 0 \<or> xs ! base \<le> x \<Longrightarrow>
    (\<forall>i. bisect xs x base left < i \<longrightarrow> i < length xs \<longrightarrow> x < xs ! i)
    \<and> (bisect xs x base left = 0 \<or> xs ! bisect xs x base left \<le> x)"
proof (induction left arbitrary: base rule: less_induct)
  case (less left)
  show ?case
  proof (cases "left \<le> 1")
    case True
    then have "left = 1" using less.prems(1) by simp
    then show ?thesis using less.prems(3,4) by (simp add: bisect_stop Suc_le_eq)
  next
    case False
    define half where "half = left div 2"
    define mid where "mid = (if x < xs ! (base + half) then base else base + half)"
    have half: "half < left" "1 \<le> left - half" "left - half \<le> left" "half \<le> left - half" "1 \<le> half"
      using False by (auto simp: half_def)
    have "mid + (left - half) \<le> length xs" using half(1) less.prems(2) by (auto simp: mid_def)
    moreover have "x < xs ! i" if i: "mid + (left - half) \<le> i" "i < length xs" for i
    proof (cases "x < xs ! (base + half)")
      case True
      then have "base + half \<le> i" using i(1) half(4) by (simp add: mid_def)
      then have "base + half = i \<or> xs ! (base + half) < xs ! i"
        using sorted_wrt_nth_less [OF assms _ i(2)] by (auto simp: le_less)
      with True show ?thesis by auto
    next
      case False
      then have "base + left \<le> i" using i(1) half(1) by (simp add: mid_def)
      then show ?thesis using less.prems(3) i(2) by blast
    qed
    moreover have "mid = 0 \<or> xs ! mid \<le> x" using less.prems(4) by (simp add: mid_def not_less)
    moreover have step: "bisect xs x base left = bisect xs x mid (left - half)"
      unfolding mid_def half_def by (rule bisect_step [OF False])
    ultimately show ?thesis
      using less.IH [of "left - half" mid] half unfolding step by simp
  qed
qed

lemma binary_search_within:
  "case binary_search xs x of Inr at \<Rightarrow> at < length xs \<and> xs ! at = x | Inl at \<Rightarrow> at \<le> length xs"
  using bisect_within [of "length xs" 0 xs x] by (auto simp: binary_search_def Let_def Suc_le_eq)

lemma binary_search_misses:
  assumes "sorted_wrt (<) xs" and "binary_search xs x = Inl at"
  shows "(\<forall>y\<in>set (take at xs). y < x) \<and> (\<forall>y\<in>set (drop at xs). x < y)"
proof (cases "xs = []")
  case False
  let ?b = "bisect xs x 0 (length xs)"
  have b: "?b < length xs" using bisect_within [of "length xs" 0 xs x] False by (simp add: Suc_le_eq)
  have s: "\<forall>i. ?b < i \<longrightarrow> i < length xs \<longrightarrow> x < xs ! i" "?b = 0 \<or> xs ! ?b \<le> x"
    using bisect_sorted [OF assms(1), of "length xs" 0 x] False by (simp_all add: Suc_le_eq)
  have at: "xs ! ?b \<noteq> x" "at = ?b + (if xs ! ?b < x then 1 else 0)"
    using assms(2) False by (auto simp: binary_search_def Let_def split: if_splits)
  have "xs ! i < x" if "i < at" for i
  proof -
    have "xs ! ?b < x" "i \<le> ?b" using at s(2) that by (auto split: if_splits)
    then show ?thesis using sorted_wrt_nth_less [OF assms(1), of i ?b] b by (cases "i = ?b") auto
  qed
  moreover have "x < xs ! i" if "at \<le> i" "i < length xs" for i
    using that at s by (cases "?b = i") (auto split: if_splits)
  ultimately show ?thesis by (auto simp: in_set_conv_nth)
qed simp

lemma set_take_drop: "set (take n xs) \<union> set (drop n xs) = set xs"
  by (simp flip: set_append)

lemma binary_search_finds:
  assumes "sorted_wrt (<) xs"
  shows "(\<exists>at. binary_search xs x = Inr at) \<longleftrightarrow> x \<in> set xs"
proof (cases "binary_search xs x")
  case (Inl at)
  then have "x \<notin> set (take at xs) \<union> set (drop at xs)"
    using binary_search_misses [OF assms Inl] by auto
  with Inl show ?thesis by (simp add: set_take_drop)
next
  case (Inr at)
  then show ?thesis using binary_search_within [of xs x] by auto
qed

lemma strictly_sorted_distinct: "sorted_wrt (<) xs \<Longrightarrow> distinct xs" for xs :: "string list"
  by (induction xs) auto

lemma open_here_set: "set (lt_open_on (fst (open_here t node))) = insert node (set (lt_open_on t))"
proof (cases "binary_search (lt_open_on t) node")
  case (Inl at)
  have "set (take at (lt_open_on t)) \<union> set (drop at (lt_open_on t)) = set (lt_open_on t)"
    by (rule set_take_drop)
  with Inl show ?thesis by (auto simp: open_here_def)
next
  case (Inr at)
  then show ?thesis using binary_search_within [of "lt_open_on t" node] by (auto simp: open_here_def)
qed

lemma closed_here_found:
  assumes "binary_search (lt_open_on t) node = Inr at"
  shows "lt_open_on t = take at (lt_open_on t) @ node # drop (Suc at) (lt_open_on t)"
  using binary_search_within [of "lt_open_on t" node] assms id_take_nth_drop [of at "lt_open_on t"] by simp

lemma closed_here_set:
  assumes "sorted_wrt (<) (lt_open_on t)"
  shows "set (lt_open_on (fst (closed_here t node))) = set (lt_open_on t) - {node}"
proof (cases "binary_search (lt_open_on t) node")
  case (Inl at)
  then have "node \<notin> set (lt_open_on t)" using binary_search_finds [OF assms, of node] by auto
  with Inl show ?thesis by (simp add: closed_here_def)
next
  case (Inr at)
  let ?rest = "take at (lt_open_on t) @ drop (Suc at) (lt_open_on t)"
  have "distinct (take at (lt_open_on t) @ node # drop (Suc at) (lt_open_on t))"
    using closed_here_found [OF Inr] strictly_sorted_distinct [OF assms] by simp
  moreover have "set (lt_open_on t) = set (take at (lt_open_on t) @ node # drop (Suc at) (lt_open_on t))"
    using closed_here_found [OF Inr] by simp
  ultimately have "set (lt_open_on t) = insert node (set ?rest)" "node \<notin> set ?rest" by auto
  with Inr show ?thesis by (simp add: closed_here_def)
qed

lemma open_on_sorted:
  assumes "sorted_wrt (<) (lt_open_on t)"
  shows "sorted_wrt (<) (lt_open_on (fst (open_here t node)))"
    and "sorted_wrt (<) (lt_open_on (fst (closed_here t node)))"
proof -
  show "sorted_wrt (<) (lt_open_on (fst (open_here t node)))"
  proof (cases "binary_search (lt_open_on t) node")
    case (Inl at)
    have "sorted_wrt (<) (take at (lt_open_on t) @ drop at (lt_open_on t))" using assms by simp
    with Inl binary_search_misses [OF assms Inl] show ?thesis
      by (auto simp: open_here_def sorted_wrt_append) (meson less_trans)
  qed (simp add: open_here_def assms)
  show "sorted_wrt (<) (lt_open_on (fst (closed_here t node)))"
  proof (cases "binary_search (lt_open_on t) node")
    case (Inr at)
    have "sorted_wrt (<) (take at (lt_open_on t) @ node # drop (Suc at) (lt_open_on t))"
      using assms closed_here_found [OF Inr] by simp
    with Inr show ?thesis by (simp add: closed_here_def sorted_wrt_append)
  qed (simp add: closed_here_def assms)
qed

lemma open_elsewhere_None: "open_elsewhere t node = None \<longleftrightarrow> set (lt_open_on t) \<subseteq> {node}"
  by (auto simp: open_elsewhere_def find_None_iff)

lemma served_by_foldl:
  "distinct out \<Longrightarrow> [] \<notin> set out \<Longrightarrow>
   let r = foldl (\<lambda>out c. if c \<noteq> [] \<and> c \<notin> set out then out @ [c] else out) out cs
   in distinct r \<and> [] \<notin> set r \<and> set r = set out \<union> (set cs - {[]})"
  by (induction cs arbitrary: out) (auto simp: Let_def)

lemma served_by_set:
  "distinct (served_by s)" "set (served_by s) = insert (ps_cluster s) (set (ps_clusters s)) - {[]}"
  using served_by_foldl [of "if ps_cluster s \<noteq> [] then [ps_cluster s] else []" "ps_clusters s"]
  by (auto simp: served_by_def Let_def)

lemma quota_for_stated: "quota_for (state_default_quota s) tenant = quota_for s tenant"
  by (cases "map_of (ps_quota s) tenant"; cases "map_of (ps_quota s) QUOTA_EVERYONE")
    (auto simp: quota_for_def state_default_quota_def)

lemma disagreeing_None:
  "disagreeing t = None \<longleftrightarrow> (\<exists>p. \<forall>e\<in>set (pt_clusters t). pc_params e = p)"
  by (auto simp: disagreeing_def find_None_iff split: list.splits)

section \<open>What storage promises\<close>

datatype open_event = Opened string | Closed string

fun apply_open_event :: "volume_status \<Rightarrow> open_event \<Rightarrow> volume_status" where
  "apply_open_event t (Opened node) = fst (open_here t node)"
| "apply_open_event t (Closed node) = fst (closed_here t node)"

fun open_event_set :: "string set \<Rightarrow> open_event \<Rightarrow> string set" where
  "open_event_set ns (Opened node) = insert node ns"
| "open_event_set ns (Closed node) = ns - {node}"

lemma apply_open_event_refines:
  assumes "sorted_wrt (<) (lt_open_on t)"
  shows "sorted_wrt (<) (lt_open_on (apply_open_event t e))"
    and "set (lt_open_on (apply_open_event t e)) = open_event_set (set (lt_open_on t)) e"
  using open_on_sorted [OF assms] open_here_set closed_here_set [OF assms] by (cases e; simp)+

text \<open>C22: The list of nodes that have a volume open is a set, kept sorted: after any sequence of openings and
  closings, in any order and with any repetition, it holds exactly the nodes whose last event was
  an opening, once each and in order, and a second holder is found exactly when there is one.\<close>

theorem open_on_refines_a_set:
  assumes "sorted_wrt (<) (lt_open_on t)"
  shows "let t' = foldl apply_open_event t events in
      sorted_wrt (<) (lt_open_on t')
      \<and> set (lt_open_on t') = foldl open_event_set (set (lt_open_on t)) events
      \<and> (open_elsewhere t' node = None \<longleftrightarrow> foldl open_event_set (set (lt_open_on t)) events \<subseteq> {node})"
proof -
  have "sorted_wrt (<) (lt_open_on (foldl apply_open_event t events))
      \<and> set (lt_open_on (foldl apply_open_event t events)) = foldl open_event_set (set (lt_open_on t)) events"
    using assms
  proof (induction events arbitrary: t)
    case (Cons e events)
    from Cons.IH [OF apply_open_event_refines(1) [OF Cons.prems]] show ?case
      using apply_open_event_refines(2) [OF Cons.prems] by simp
  qed simp
  then show ?thesis by (simp add: Let_def open_elsewhere_None)
qed

theorem open_on_refines_a_set_witness:
  "set (lt_open_on (foldl apply_open_event volume_status_default [Opened ''b'', Opened ''a'', Opened ''b'', Closed ''b'']))
     = {''a''}"
  using open_on_refines_a_set [of volume_status_default "[Opened ''b'', Opened ''a'', Opened ''b'', Closed ''b'']" "[]"]
  by (simp add: volume_status_default_def Let_def) blast

text \<open>C23: Settling a volume gives a claim up only when it is safe: the claim goes exactly when its claimant
  is known to be gone and no node has the volume open, and otherwise stands unchanged. A volume
  that is being deleted is releasing, never anything else, and a volume is ready only on the word
  of a node.\<close>

theorem volume_settles_safely:
  "lt_attached_to (status (volume_settle now v)) =
     (if lt_claimant_gone (status v) \<and> lt_open_on (status v) = [] then None else lt_attached_to (status v))
   \<and> (is_deleting v \<longrightarrow> ph_kind (lt_phase (status (volume_settle now v))) = LP_Releasing)
   \<and> (ph_kind (lt_phase (status (volume_settle now v))) = LP_Ready \<longrightarrow>
        \<not> is_deleting v \<and> (\<exists>r. lt_reported (status v) = Some r \<and> sa_phase r = LP_Ready \<and> sa_node r \<noteq> []))"
proof -
  have k: "ph_kind (lt_phase (status (volume_settle now v))) = ph_kind (settle_volume (is_deleting v) (status v))"
    by (simp add: volume_settle_def Let_def)
  show ?thesis
    using volume_settle_claim [of now v] settle_volume_deleting [of "status v"]
      settle_volume_ready [of "is_deleting v" "status v"] unfolding k by auto
qed

definition sample_volume :: volume where
  "sample_volume =
     (let v = new_volume ''disk'' \<lparr>ls_tenant = ''t'', ls_pool = ''p'', ls_size_gib = 1, ls_mode = VolBlock,
                ls_access_mode = ReadWriteOnce, ls_base_image = None, ls_from_snapshot = None,
                ls_description = []\<rparr> ''u1'' 5
      in v\<lparr>status := (status v)\<lparr>lt_attached_to := Some ''vm'', lt_claimant_gone := True\<rparr>\<rparr>)"

theorem volume_settles_safely_witness:
  "lt_attached_to (status sample_volume) = Some ''vm'' \<and> lt_attached_to (status (volume_settle 9 sample_volume)) = None"
  using volume_settles_safely [of 9 sample_volume]
  by (simp add: sample_volume_def new_volume_def declare_object_def object_new_def volume_status_default_def)

text \<open>A pool whose first cluster has not said its parameters is reported as disagreeing with a cluster that
  has: missing evidence counts as a difference.\<close>

lemma missing_evidence_disagrees:
  "pt_clusters t = [e, e'] \<Longrightarrow> pc_params e = None \<Longrightarrow> pc_params e' = Some x \<Longrightarrow>
   disagreeing t = Some (pc_cluster e, pc_cluster e')"
  by (simp add: disagreeing_def)

end
