(* ===== verification/Volume_Placement.thy ===== *)
theory Volume_Placement
  imports Scheduler Storage_Resource
begin

text \<open>
  Placement under storage constraints: the provisioning half of \<open>scheduler.rs\<close>
  (\<open>StoragePolicy\<close>, \<open>VolumeBinding\<close> and the functions over them) and the decision
  \<open>components/cluster-controller/src/reconcile/placement.rs\<close> makes with them. The decision is
  proved against the contract \<open>scheduler\<close>, so it holds for every strategy.
\<close>

section \<open>Provisioning a volume\<close>

record storage_policy =
  sp_driver :: string
  sp_nodes :: "string list"

definition storage_policy_of :: "'j storage_pool \<Rightarrow> storage_policy" where
  "storage_policy_of pool = \<lparr>sp_driver = ps_driver (spec pool), sp_nodes = ps_nodes (spec pool)\<rparr>"

definition sp_wanted :: "storage_policy \<Rightarrow> string" where
  "sp_wanted p = entry VOLUME (Some (sp_driver p))"

definition sp_reaches :: "storage_policy \<Rightarrow> string \<Rightarrow> bool" where
  "sp_reaches p name \<longleftrightarrow> sp_nodes p = [] \<or> name \<in> set (sp_nodes p)"

definition sp_met_by :: "storage_policy \<Rightarrow> candidate \<Rightarrow> bool" where
  "sp_met_by p c \<longleftrightarrow> sp_reaches p (c_name c) \<and> offers (c_catalogue c) VOLUME (Some (sp_driver p))"

definition feasible_for_storage :: "storage_policy \<Rightarrow> candidate list \<Rightarrow> candidate list" where
  "feasible_for_storage p candidates = filter (sp_met_by p) (filter is_usable candidates)"

definition prefer_local :: "candidate list \<Rightarrow> string list \<Rightarrow> candidate list" where
  "prefer_local feas holders =
     (if holders = [] then feas
      else let here = filter (\<lambda>c. c_name c \<in> set holders) feas in
           if here = [] then feas else here)"

definition storage_pending_reason :: "storage_policy \<Rightarrow> string \<Rightarrow> candidate list \<Rightarrow> verdict" where
  "storage_pending_reason p pool candidates =
     (if candidates = [] then (NoCandidates, ''no candidates are known here yet'')
      else let usable = filter is_usable candidates in
        if usable = [] then
          (let w = wedged_sentence candidates in
           if w \<noteq> [] then
             (NodeUnhealthy,
              ''every candidate that is up and willing says something is wrong with itself: '' @ w)
           else
             (NoneUsable, ''none of the '' @ dec (length candidates)
                          @ '' known candidates is both connected and schedulable''))
        else let with_driver = filter (\<lambda>c. offers (c_catalogue c) VOLUME (Some (sp_driver p))) usable in
          if with_driver = [] then
            (Unserved, ''no connected candidate offers ['' @ sp_wanted p @ ''], which storage pool ''
                       @ pool @ '' is made of'')
          else
            (Unserved, ''storage pool '' @ pool @ '' names ['' @ join '', '' (sp_nodes p)
               @ ''], and none of them is a connected candidate that offers '' @ sp_wanted p))"

section \<open>Referenced volumes\<close>

record volume_binding =
  vb_volume :: string
  vb_node :: "string option"
  vb_locality :: "locality option"
  vb_pool_nodes :: "string list"
  vb_driver :: "string option"

definition vb_required :: "volume_binding \<Rightarrow> string list option" where
  "vb_required b =
     (case vb_locality b of
        Some NodeLocal \<Rightarrow> map_option (\<lambda>n. [n]) (vb_node b)
      | Some Shared \<Rightarrow> if vb_pool_nodes b \<noteq> [] then Some (vb_pool_nodes b) else None
      | Some Networked \<Rightarrow> None
      | None \<Rightarrow> None)"

definition vb_claim :: "volume_binding \<Rightarrow> string option" where
  "vb_claim b =
     (if vb_locality b = Some Networked then
        (case vb_driver b of Some d \<Rightarrow> if d \<noteq> [] then Some d else None | None \<Rightarrow> None)
      else None)"

definition pins_elsewhere :: "volume_binding \<Rightarrow> string \<Rightarrow> bool" where
  "pins_elsewhere b node =
     (case vb_required b of Some allowed \<Rightarrow> node \<notin> set allowed | None \<Rightarrow> False)"

definition retain_for :: "volume_binding \<Rightarrow> candidate list \<Rightarrow> candidate list" where
  "retain_for b allowed =
     (let claimed = (case vb_claim b of
                       Some claim \<Rightarrow> filter (\<lambda>c. offers (c_catalogue c) VOLUME (Some claim)) allowed
                     | None \<Rightarrow> allowed)
      in case vb_required b of
           None \<Rightarrow> claimed
         | Some nodes \<Rightarrow> filter (\<lambda>c. c_name c \<in> set nodes) claimed)"

definition feasible_for_volumes :: "volume_binding list \<Rightarrow> candidate list \<Rightarrow> candidate list" where
  "feasible_for_volumes bindings candidates = foldl (\<lambda>allowed b. retain_for b allowed) candidates bindings"

definition preferred_for_volumes :: "volume_binding list \<Rightarrow> candidate list \<Rightarrow> candidate list" where
  "preferred_for_volumes bindings feas =
     prefer_local feas
       (List.map_filter vb_node (filter (\<lambda>b. vb_required b = None) bindings))"

definition volume_pending_reason :: "volume_binding list \<Rightarrow> candidate list \<Rightarrow> verdict" where
  "volume_pending_reason bindings candidates =
     (case find_map (\<lambda>b. case vb_required b of
              None \<Rightarrow> None
            | Some nodes \<Rightarrow>
                if list_ex (\<lambda>c. c_name c \<in> set nodes) candidates then None
                else Some (NoNodeForVolume,
                   ''volume '' @ vb_volume b @ '' is ''
                   @ (case vb_locality b of Some l \<Rightarrow> locality_as_str l | None \<Rightarrow> ''of unknown locality'')
                   @ '' and lives on ['' @ join '', '' nodes
                   @ '']; none of them is a candidate that can also run this vm'')) bindings of
        Some verdict \<Rightarrow> verdict
      | None \<Rightarrow> (Split, ''no single candidate can reach all '' @ dec (length bindings)
                       @ '' of this vm's volumes at once''))"

definition unusable_state :: "candidate \<Rightarrow> string" where
  "unusable_state c =
     (if \<not> c_connected c then ''not connected''
      else if \<not> c_schedulable c then ''drained''
      else ''reporting '' @ join '', '' (c_unhealthy c))"

definition volume_nodes_unusable :: "volume_binding list \<Rightarrow> candidate list \<Rightarrow> verdict option" where
  "volume_nodes_unusable bindings allowed =
     (if list_all (\<lambda>b. vb_required b = None) bindings then None
      else case allowed of
        [] \<Rightarrow> None
      | c0 # cs \<Rightarrow>
          if list_ex is_usable allowed then None
          else
            (let first = unusable_state c0; names = map c_name allowed in
             Some (NoNodeForVolume,
               if list_all (\<lambda>c. unusable_state c = first) allowed then
                 (if cs = [] then ''the node holding this vm's volumes ('' @ c_name c0 @ '') is '' @ first
                  else ''the nodes holding this vm's volumes ('' @ join '', '' names @ '') are '' @ first)
               else
                 ''no node holding this vm's volumes can take it: ''
                 @ join '', '' (map (\<lambda>c. c_name c @ '' is '' @ unusable_state c) allowed))))"

section \<open>The decision\<close>

definition decide ::
  "'j json_ops \<Rightarrow> 'j strategy \<Rightarrow> 'j vm \<Rightarrow> volume_binding list \<Rightarrow> candidate list \<Rightarrow> candidate list
     \<Rightarrow> candidate list \<Rightarrow> (nat \<times> verdict) + string" where
  "decide J assign v bindings allowed here nodes =
     (case or_else (assign v here) (assign v allowed) of
        Some node \<Rightarrow> Inr node
      | None \<Rightarrow>
          if bindings \<noteq> [] \<and> allowed = [] \<and> nodes \<noteq> [] then
            Inl (length nodes, volume_pending_reason bindings nodes)
          else
            Inl (length nodes,
                 unwrap_or (pending_reason_of J v (if bindings = [] then nodes else allowed))
                   (volume_nodes_unusable bindings allowed)))"

text \<open>How a pass calls it, once the refusing nodes are cut: hard volume rules, then the soft ones.\<close>

definition decide_among ::
  "'j json_ops \<Rightarrow> 'j strategy \<Rightarrow> 'j vm \<Rightarrow> volume_binding list \<Rightarrow> candidate list \<Rightarrow> candidate list
     \<Rightarrow> (nat \<times> verdict) + string" where
  "decide_among J assign v bindings candidates nodes =
     (let allowed = feasible_for_volumes bindings candidates;
          here = preferred_for_volumes bindings allowed
      in decide J assign v bindings allowed here nodes)"

definition widen_to_fleet :: "candidate list \<Rightarrow> node list \<Rightarrow> candidate list" where
  "widen_to_fleet fleet nodes =
     map (\<lambda>c. c\<lparr>c_connected := c_connected c
                \<or> list_ex (\<lambda>n. md_name (metadata n) = c_name c \<and> nst_ready (status n)
                               \<and> nst_session_endpoint (status n) \<noteq> None) nodes\<rparr>) fleet"

section \<open>Facts\<close>

lemma prefer_local_subset: "set (prefer_local feas holders) \<subseteq> set feas"
  by (auto simp: prefer_local_def Let_def)

lemma prefer_local_Nil: "prefer_local feas holders = [] \<longleftrightarrow> feas = []"
  by (auto simp: prefer_local_def Let_def)

definition binding_allows :: "volume_binding \<Rightarrow> candidate \<Rightarrow> bool" where
  "binding_allows b c \<longleftrightarrow>
     (\<forall>claim. vb_claim b = Some claim \<longrightarrow> offers (c_catalogue c) VOLUME (Some claim))
     \<and> \<not> pins_elsewhere b (c_name c)"

lemma retain_for_eq: "retain_for b allowed = filter (binding_allows b) allowed"
  by (auto simp: retain_for_def binding_allows_def pins_elsewhere_def Let_def conj_commute
      split: option.splits intro!: filter_cong)

lemma feasible_for_volumes_eq:
  "feasible_for_volumes bindings candidates = filter (\<lambda>c. \<forall>b\<in>set bindings. binding_allows b c) candidates"
  unfolding feasible_for_volumes_def
proof (induction bindings arbitrary: candidates)
  case (Cons b bindings)
  then show ?case
    by (auto simp: retain_for_eq intro!: filter_cong)
qed simp

lemma node_local_pins:
  "vb_locality b = Some NodeLocal \<Longrightarrow> vb_node b = Some n \<Longrightarrow> binding_allows b c \<longleftrightarrow> c_name c = n"
  by (simp add: binding_allows_def pins_elsewhere_def vb_required_def vb_claim_def)

text \<open>Hard rules do not depend on the order in which the volumes are listed.\<close>

lemma feasible_for_volumes_perm:
  "set bindings = set bindings' \<Longrightarrow> feasible_for_volumes bindings cs = feasible_for_volumes bindings' cs"
  by (simp add: feasible_for_volumes_eq)

context scheduler
begin

lemma decide_sound:
  assumes "decide J assign v bindings allowed here nodes = Inr n" and "set here \<subseteq> set allowed"
  shows "\<exists>c\<in>set (feasible J v allowed). c_name c = n"
proof (cases "assign v here")
  case None
  with assms(1) have "assign v allowed = Some n"
    by (auto simp: decide_def split: option.splits if_splits)
  then show ?thesis by (rule assign_feasible)
next
  case (Some m)
  with assms(1) have "assign v here = Some n" by (simp add: decide_def)
  then obtain c where "c \<in> set (feasible J v here)" "c_name c = n"
    using assign_feasible by blast
  then have "c \<in> set (feasible J v allowed)" using assms(2) by (auto simp: in_feasible)
  then show ?thesis using \<open>c_name c = n\<close> by blast
qed

lemma decide_complete:
  assumes "set here \<subseteq> set allowed"
  shows "(\<exists>e. decide J assign v bindings allowed here nodes = Inl e) \<longleftrightarrow> feasible J v allowed = []"
proof -
  have "feasible J v here = []" if "feasible J v allowed = []"
    using that assms by (auto simp: feasible_eq filter_empty_conv)
  then have "or_else (assign v here) (assign v allowed) = None \<longleftrightarrow> feasible J v allowed = []"
    using assign_total [of v here] assign_total [of v allowed]
    by (cases "assign v here"; cases "assign v allowed") auto
  moreover have "(\<exists>e. decide J assign v bindings allowed here nodes = Inl e)
      \<longleftrightarrow> or_else (assign v here) (assign v allowed) = None"
    by (auto simp: decide_def split: option.splits)
  ultimately show ?thesis by simp
qed

lemma decide_among_sound:
  assumes "decide_among J assign v bindings candidates nodes = Inr n"
  shows "\<exists>c\<in>set candidates. c_name c = n \<and> is_usable c \<and> demand_met J v c
           \<and> (\<forall>b\<in>set bindings. binding_allows b c)"
proof -
  let ?allowed = "feasible_for_volumes bindings candidates"
  have "set (preferred_for_volumes bindings ?allowed) \<subseteq> set ?allowed"
    unfolding preferred_for_volumes_def by (rule prefer_local_subset)
  with assms have "\<exists>c\<in>set (feasible J v ?allowed). c_name c = n"
    by (intro decide_sound) (simp_all add: decide_among_def Let_def)
  then show ?thesis by (auto simp: in_feasible feasible_for_volumes_eq)
qed

lemma decide_among_complete:
  assumes "c \<in> set candidates" and "is_usable c" and "demand_met J v c"
    and "\<forall>b\<in>set bindings. binding_allows b c"
  shows "\<exists>n. decide_among J assign v bindings candidates nodes = Inr n"
proof -
  let ?allowed = "feasible_for_volumes bindings candidates"
  have "set (preferred_for_volumes bindings ?allowed) \<subseteq> set ?allowed"
    unfolding preferred_for_volumes_def by (rule prefer_local_subset)
  moreover have "c \<in> set (feasible J v ?allowed)"
    using assms by (auto simp: in_feasible feasible_for_volumes_eq)
  then have "feasible J v ?allowed \<noteq> []" by auto
  ultimately have "\<not> (\<exists>e. decide_among J assign v bindings candidates nodes = Inl e)"
    using decide_complete unfolding decide_among_def Let_def by blast
  then show ?thesis by (cases "decide_among J assign v bindings candidates nodes") auto
qed

end

section \<open>What the decision promises\<close>

text \<open>C10: A placement pass puts a guest on a node exactly when it can: the decision names a node if and only
  if some offered candidate is usable, meets all of the guest's constraints and is allowed by every
  volume the guest references, and the node it names is such a candidate. In particular a guest
  never lands away from a node-local volume.\<close>

theorem decision_sound_and_complete:
  assumes "into_scheduler J this = Inr assign"
  shows "((\<exists>n. decide_among J assign v bindings candidates nodes = Inr n) \<longleftrightarrow>
      (\<exists>c\<in>set candidates. is_usable c \<and> demand_met J v c \<and> (\<forall>b\<in>set bindings. binding_allows b c)))
    \<and> (\<forall>n. decide_among J assign v bindings candidates nodes = Inr n \<longrightarrow>
      (\<exists>c\<in>set candidates. c_name c = n \<and> is_usable c \<and> demand_met J v c
        \<and> (\<forall>b\<in>set bindings. binding_allows b c
             \<and> (vb_locality b = Some NodeLocal \<longrightarrow> (\<forall>holder. vb_node b = Some holder \<longrightarrow> n = holder)))))"
proof -
  note contract = into_scheduler_contract [OF assms]
  have sound: "\<exists>c\<in>set candidates. c_name c = n \<and> is_usable c \<and> demand_met J v c
      \<and> (\<forall>b\<in>set bindings. binding_allows b c
           \<and> (vb_locality b = Some NodeLocal \<longrightarrow> (\<forall>holder. vb_node b = Some holder \<longrightarrow> n = holder)))"
    if d: "decide_among J assign v bindings candidates nodes = Inr n" for n
  proof -
    obtain c where c: "c \<in> set candidates" "c_name c = n" "is_usable c" "demand_met J v c"
      "\<forall>b\<in>set bindings. binding_allows b c"
      using scheduler.decide_among_sound [OF contract d] by blast
    have "n = holder" if "b \<in> set bindings" "vb_locality b = Some NodeLocal" "vb_node b = Some holder" for b holder
      using node_local_pins [OF that(2,3), of c] c(2,5) that(1) by simp
    then show ?thesis using c by blast
  qed
  moreover have "\<exists>n. decide_among J assign v bindings candidates nodes = Inr n"
    if "\<exists>c\<in>set candidates. is_usable c \<and> demand_met J v c \<and> (\<forall>b\<in>set bindings. binding_allows b c)"
    using that scheduler.decide_among_complete [OF contract] by blast
  ultimately show ?thesis by blast
qed

definition sample_binding :: volume_binding where
  "sample_binding = \<lparr>vb_volume = ''disk'', vb_node = Some ''n2'', vb_locality = Some NodeLocal,
     vb_pool_nodes = [], vb_driver = None\<rparr>"

theorem decision_sound_and_complete_witness:
  "\<exists>n. decide_among tree_ops (first_fit_assign tree_ops) (sample_vm ''a'' 2 512) [sample_binding]
         [sample_candidate ''n1'' 4 1024, sample_candidate ''n2'' 4 1024] [] = Inr n \<and> n = ''n2''"
proof -
  let ?cs = "[sample_candidate ''n1'' 4 1024, sample_candidate ''n2'' 4 1024]"
  note decides = decision_sound_and_complete [OF sample_scheduler [of tree_ops], of "sample_vm ''a'' 2 512"
      "[sample_binding]" ?cs "[]"]
  have "binding_allows sample_binding (sample_candidate ''n2'' 4 1024)"
    by (subst node_local_pins [of _ "''n2''"]) (simp_all add: sample_binding_def sample_candidate_def)
  moreover have "is_usable (sample_candidate ''n2'' 4 1024) \<and> demand_met tree_ops (sample_vm ''a'' 2 512) (sample_candidate ''n2'' 4 1024)"
    by (rule sample_takes) simp_all
  ultimately obtain n where "decide_among tree_ops (first_fit_assign tree_ops) (sample_vm ''a'' 2 512) [sample_binding] ?cs [] = Inr n"
    using decides by auto
  moreover from this have "n = ''n2''"
    using decides by (auto simp: sample_binding_def)
  ultimately show ?thesis by blast
qed

end
