(* ===== verification/Reservation.thy ===== *)
theory Reservation
  imports Scheduler Migration_Resource
begin

text \<open>
  \<open>resources/reservation.rs\<close>, the reservation half of \<open>scheduler.rs\<close> and the decision half of
  \<open>capacity.rs\<close>: room promised on a node to a guest that is not bound there yet, and who may keep
  it when several writers promised the same room.
\<close>

definition STALE_PLACEMENT_AFTER_SECS :: int where "STALE_PLACEMENT_AFTER_SECS = 60"
definition PLACEMENT_CLAIM_PREFIX :: string where "PLACEMENT_CLAIM_PREFIX = ''place.''"

datatype claimant = ClaimMigration | ClaimPlacement

record capacity_reservation_spec =
  cr_node :: string
  cr_vm :: string
  cr_vm_uid :: string
  cr_claimant :: claimant
  cr_migration :: string
  cr_migration_uid :: string
  cr_vcpus :: u32
  cr_mem_mib :: u64

type_synonym capacity_reservation = "(capacity_reservation_spec, unit) object"

definition cr_size :: "capacity_reservation_spec \<Rightarrow> capacity" where
  "cr_size s = \<lparr>vcpus = cr_vcpus s, mem_mib = cr_mem_mib s\<rparr>"

definition reservation_of ::
  "'j json_ops \<Rightarrow> vm_migration \<Rightarrow> 'j vm \<Rightarrow> string \<Rightarrow> string \<Rightarrow> instant \<Rightarrow> capacity_reservation" where
  "reservation_of J migration v node uid now =
     (let sz = wanted_by J v in
      declare_object ''CapacityReservation'' (md_name (metadata migration))
        \<lparr>cr_node = node, cr_vm = md_name (metadata v), cr_vm_uid = md_uid (metadata v),
         cr_claimant = ClaimMigration, cr_migration = md_name (metadata migration),
         cr_migration_uid = md_uid (metadata migration), cr_vcpus = vcpus sz,
         cr_mem_mib = mem_mib sz\<rparr> () uid now)"

definition for_placement ::
  "'j json_ops \<Rightarrow> 'j vm \<Rightarrow> string \<Rightarrow> string \<Rightarrow> instant \<Rightarrow> capacity_reservation" where
  "for_placement J v node uid now =
     (let sz = wanted_by J v in
      declare_object ''CapacityReservation'' (PLACEMENT_CLAIM_PREFIX @ md_uid (metadata v))
        \<lparr>cr_node = node, cr_vm = md_name (metadata v), cr_vm_uid = md_uid (metadata v),
         cr_claimant = ClaimPlacement, cr_migration = [], cr_migration_uid = [],
         cr_vcpus = vcpus sz, cr_mem_mib = mem_mib sz\<rparr> () uid now)"

definition belongs_to :: "capacity_reservation \<Rightarrow> vm_migration \<Rightarrow> bool" where
  "belongs_to r m \<longleftrightarrow> cr_claimant (spec r) = ClaimMigration
     \<and> cr_migration (spec r) = md_name (metadata m)
     \<and> cr_migration_uid (spec r) = md_uid (metadata m)"

definition is_placement_of :: "capacity_reservation \<Rightarrow> 'j vm \<Rightarrow> bool" where
  "is_placement_of r v \<longleftrightarrow>
     cr_claimant (spec r) = ClaimPlacement \<and> cr_vm_uid (spec r) = md_uid (metadata v)"

definition is_live ::
  "capacity_reservation \<Rightarrow> vm_migration list \<Rightarrow> 'j vm list \<Rightarrow> instant \<Rightarrow> bool" where
  "is_live r migrations vms now =
     (case cr_claimant (spec r) of
        ClaimMigration \<Rightarrow>
          list_ex (\<lambda>m. belongs_to r m \<and> md_deletion_timestamp (metadata m) = None
                       \<and> \<not> migration_is_final (ph_kind (mt_phase (status m)))) migrations
      | ClaimPlacement \<Rightarrow>
          (case md_creation_timestamp (metadata r) of
             Some made \<Rightarrow> num_seconds (now - made) \<le> STALE_PLACEMENT_AFTER_SECS
           | None \<Rightarrow> False)
          \<and> list_ex (\<lambda>v. md_uid (metadata v) = cr_vm_uid (spec r)
                         \<and> md_deletion_timestamp (metadata v) = None
                         \<and> vs_node_name (spec v) = None) vms)"

definition orphaned_reservations ::
  "capacity_reservation list \<Rightarrow> vm_migration list \<Rightarrow> 'j vm list \<Rightarrow> instant \<Rightarrow> capacity_reservation list" where
  "orphaned_reservations held migrations vms now =
     filter (\<lambda>r. \<not> is_live r migrations vms now) held"

section \<open>Counting promises\<close>

definition reserved_on :: "string \<Rightarrow> capacity_reservation list \<Rightarrow> capacity" where
  "reserved_on node held =
     sum_caps (map (\<lambda>r. cr_size (spec r)) (filter (\<lambda>r. cr_node (spec r) = node) held))"

definition hold :: "candidate list \<Rightarrow> capacity_reservation list \<Rightarrow> candidate list" where
  "hold candidates held =
     map (\<lambda>c. c\<lparr>c_free := minus_cap (c_free c) (reserved_on (c_name c) held)\<rparr>) candidates"

definition made_at :: "capacity_reservation \<Rightarrow> int \<times> string" where
  "made_at r = (unwrap_or (2 ^ 63 - 1) (parse_i64 (md_resource_version (metadata r))), md_name (metadata r))"

definition ahead_of :: "capacity_reservation \<Rightarrow> capacity_reservation list \<Rightarrow> capacity_reservation list" where
  "ahead_of mine held =
     filter (\<lambda>r. made_at r < made_at mine)
       (filter (\<lambda>r. cr_node (spec r) = cr_node (spec mine)
                    \<and> md_name (metadata r) \<noteq> md_name (metadata mine)) held)"

definition reservation_holds ::
  "capacity \<Rightarrow> capacity_reservation \<Rightarrow> capacity_reservation list \<Rightarrow> bool" where
  "reservation_holds room mine held =
     (let ahead = sum_caps (map (\<lambda>r. cr_size (spec r)) (ahead_of mine held))
      in fits_in (cr_size (spec mine)) (minus_cap room ahead))"

section \<open>Confirming a claim\<close>

text \<open>The two readings arrive as results; a reading that failed carries the sentence of its error.\<close>

definition confirmed ::
  "'j json_ops \<Rightarrow> string + node \<Rightarrow> string + ('j vm list \<times> capacity_reservation list)
     \<Rightarrow> capacity_reservation \<Rightarrow> overcommit \<Rightarrow> string + bool" where
  "confirmed J nd seen mine oc =
     (case nd of
        Inl e \<Rightarrow> Inl (''node '' @ cr_node (spec mine) @ '' could not be read to confirm its room: '' @ e)
      | Inr n \<Rightarrow>
          (case seen of
             Inl e \<Rightarrow> Inl (''the vms and reservations could not be listed to confirm the room on ''
                           @ cr_node (spec mine) @ '': '' @ e)
           | Inr (vms, held) \<Rightarrow>
               (let room = free_on J (cr_node (spec mine)) (nst_capacity (status n)) vms oc
                in Inr (reservation_holds room mine held))))"

section \<open>The last of the winners fits\<close>

text \<open>The arithmetic behind the queue, for one dimension: if every member of a set of claims that takes
  anything at all fitted into the room behind the claims ahead of it, then together they fit.\<close>

lemma queue_fits:
  fixes key :: "'a \<Rightarrow> 'k::linorder" and sz :: "'a \<Rightarrow> nat"
  assumes "finite A" and "W \<subseteq> A" and "inj_on key A"
    and wins: "\<And>w. w \<in> W \<Longrightarrow> 0 < sz w \<Longrightarrow> sz w + (\<Sum>a | a \<in> A \<and> key a < key w. sz a) \<le> R"
  shows "(\<Sum>w\<in>W. sz w) \<le> R"
proof (cases "{w \<in> W. 0 < sz w} = {}")
  case True
  then have "\<forall>w\<in>W. sz w = 0" by simp
  then have "(\<Sum>w\<in>W. sz w) = 0" by simp
  then show ?thesis by simp
next
  case False
  define P where "P = {w \<in> W. 0 < sz w}"
  have finW: "finite W" using assms(2,1) by (rule finite_subset)
  have fin: "finite P" "finite W" "P \<noteq> {}" "P \<subseteq> A" "P \<subseteq> W"
    using finW assms(2) False by (auto simp: P_def)
  have "Max (key ` P) \<in> key ` P"
    using fin by (intro Max_in) simp_all
  then obtain m where key_m: "Max (key ` P) = key m" and mP: "m \<in> P"
    by (rule imageE)
  have top: "key w \<le> key m" if "w \<in> P" for w
    unfolding key_m [symmetric] using fin(1) that by (intro Max_ge finite_imageI imageI)
  define ahead where "ahead = {a \<in> A. key a < key m}"
  have fa: "finite ahead" "m \<notin> ahead" using assms(1) by (simp_all add: ahead_def)
  have sub: "P \<subseteq> insert m ahead"
  proof
    fix w assume w: "w \<in> P"
    then have "key w \<le> key m" by (rule top)
    moreover have "w \<in> A" "m \<in> A" using w mP fin(4) by blast+
    moreover from this have "key w = key m \<Longrightarrow> w = m"
      using assms(3) by (metis inj_onD)
    ultimately show "w \<in> insert m ahead"
      unfolding ahead_def using order_le_less by blast
  qed
  have "(\<Sum>w\<in>W. sz w) = (\<Sum>w\<in>P. sz w)"
    by (rule sum.mono_neutral_right [OF fin(2) fin(5)]) (simp add: P_def)
  also have "\<dots> \<le> (\<Sum>w\<in>insert m ahead. sz w)"
    using fa by (intro sum_mono2 sub) simp_all
  also have "\<dots> = sz m + (\<Sum>a\<in>ahead. sz a)"
    using fa by simp
  also have "\<dots> \<le> R" using wins [of m] mP by (simp add: P_def ahead_def)
  finally show ?thesis .
qed

lemma fits_minus_sum:
  assumes "fits_in sz (minus_cap room (sum_caps sizes))"
  shows "0 < unat (vcpus sz) \<Longrightarrow> unat (vcpus sz) + (\<Sum>s\<leftarrow>sizes. unat (vcpus s)) \<le> unat (vcpus room)"
    and "0 < unat (mem_mib sz) \<Longrightarrow> unat (mem_mib sz) + (\<Sum>s\<leftarrow>sizes. unat (mem_mib s)) \<le> unat (mem_mib room)"
proof -
  have "unat (vcpus sz) \<le> unat (vcpus room) - min (2 ^ 32 - 1) (\<Sum>s\<leftarrow>sizes. unat (vcpus s))"
    and "unat (mem_mib sz) \<le> unat (mem_mib room) - min (2 ^ 64 - 1) (\<Sum>s\<leftarrow>sizes. unat (mem_mib s))"
    using assms by (simp_all add: fits_in_def word_le_nat_alt unat_sat_sub unat_sum_caps)
  moreover have "unat (vcpus room) \<le> 2 ^ 32 - 1" "unat (mem_mib room) \<le> 2 ^ 64 - 1"
    using unat_le_max [of "vcpus room"] unat_le_max [of "mem_mib room"] by simp_all
  ultimately show "0 < unat (vcpus sz) \<Longrightarrow> unat (vcpus sz) + (\<Sum>s\<leftarrow>sizes. unat (vcpus s)) \<le> unat (vcpus room)"
    and "0 < unat (mem_mib sz) \<Longrightarrow> unat (mem_mib sz) + (\<Sum>s\<leftarrow>sizes. unat (mem_mib s)) \<le> unat (mem_mib room)"
    by linarith+
qed

lemma sum_list_filter_distinct:
  "distinct xs \<Longrightarrow> (\<Sum>x\<leftarrow>filter P xs. (f x :: nat)) = (\<Sum>x | x \<in> set xs \<and> P x. f x)"
  by (simp add: sum_list_distinct_conv_sum_set)

lemma made_at_inj: "distinct (map (\<lambda>r. md_name (metadata r)) held) \<Longrightarrow> inj_on made_at (set held)"
  by (auto simp: inj_on_def made_at_def distinct_map)

lemma ahead_of_eq:
  assumes "distinct (map (\<lambda>r. md_name (metadata r)) held)" and "mine \<in> set held"
  shows "ahead_of mine held =
    filter (\<lambda>r. cr_node (spec r) = cr_node (spec mine) \<and> made_at r < made_at mine) held"
proof -
  have "md_name (metadata r) \<noteq> md_name (metadata mine)"
    if "r \<in> set held" "made_at r < made_at mine" for r
    using that assms by (auto simp: distinct_map inj_on_def)
  then show ?thesis
    by (auto simp: ahead_of_def intro!: filter_cong)
qed

definition winners :: "capacity \<Rightarrow> string \<Rightarrow> capacity_reservation list \<Rightarrow> capacity_reservation list" where
  "winners room node held = filter (\<lambda>r. cr_node (spec r) = node \<and> reservation_holds room r held) held"

text \<open>Everybody who is told yes fits at once: the sizes of the claims on one node for which the check
  answers true add up to no more than the room, whatever was claimed beside them.\<close>

lemma winners_fit:
  assumes d: "distinct (map (\<lambda>r. md_name (metadata r)) held)"
  shows "(\<Sum>r\<leftarrow>winners room node held. unat (cr_vcpus (spec r))) \<le> unat (vcpus room)"
    and "(\<Sum>r\<leftarrow>winners room node held. unat (cr_mem_mib (spec r))) \<le> unat (mem_mib room)"
proof -
  let ?A = "{r \<in> set held. cr_node (spec r) = node}"
  let ?W = "{r \<in> set held. cr_node (spec r) = node \<and> reservation_holds room r held}"
  have dh: "distinct held" using d by (simp add: distinct_map)
  have inj: "inj_on made_at ?A"
    using made_at_inj [OF d] by (rule inj_on_subset) auto
  have ahead: "{a \<in> ?A. made_at a < made_at w} = set (ahead_of w held)" if "w \<in> ?W" for w
    using that by (auto simp: ahead_of_eq [OF d])
  have da: "distinct (ahead_of w held)" for w
    using dh by (simp add: ahead_of_def)
  have vc: "unat (cr_vcpus (spec w)) + (\<Sum>a | a \<in> ?A \<and> made_at a < made_at w. unat (cr_vcpus (spec a)))
      \<le> unat (vcpus room)" if "w \<in> ?W" "0 < unat (cr_vcpus (spec w))" for w
  proof -
    have "unat (cr_vcpus (spec w)) + (\<Sum>a\<leftarrow>ahead_of w held. unat (cr_vcpus (spec a))) \<le> unat (vcpus room)"
      using that fits_minus_sum(1) [of "cr_size (spec w)" room "map (\<lambda>r. cr_size (spec r)) (ahead_of w held)"]
      by (simp add: reservation_holds_def cr_size_def o_def)
    then show ?thesis
      unfolding ahead [OF that(1)] by (simp add: sum_list_distinct_conv_sum_set [OF da])
  qed
  have mc: "unat (cr_mem_mib (spec w)) + (\<Sum>a | a \<in> ?A \<and> made_at a < made_at w. unat (cr_mem_mib (spec a)))
      \<le> unat (mem_mib room)" if "w \<in> ?W" "0 < unat (cr_mem_mib (spec w))" for w
  proof -
    have "unat (cr_mem_mib (spec w)) + (\<Sum>a\<leftarrow>ahead_of w held. unat (cr_mem_mib (spec a))) \<le> unat (mem_mib room)"
      using that fits_minus_sum(2) [of "cr_size (spec w)" room "map (\<lambda>r. cr_size (spec r)) (ahead_of w held)"]
      by (simp add: reservation_holds_def cr_size_def o_def)
    then show ?thesis
      unfolding ahead [OF that(1)] by (simp add: sum_list_distinct_conv_sum_set [OF da])
  qed
  have "(\<Sum>w\<in>?W. unat (cr_vcpus (spec w))) \<le> unat (vcpus room)"
    by (rule queue_fits [where A = ?A and key = made_at]) (use inj vc in auto)
  then show "(\<Sum>r\<leftarrow>winners room node held. unat (cr_vcpus (spec r))) \<le> unat (vcpus room)"
    using dh by (simp add: winners_def sum_list_filter_distinct)
  have "(\<Sum>w\<in>?W. unat (cr_mem_mib (spec w))) \<le> unat (mem_mib room)"
    by (rule queue_fits [where A = ?A and key = made_at]) (use inj mc in auto)
  then show "(\<Sum>r\<leftarrow>winners room node held. unat (cr_mem_mib (spec r))) \<le> unat (mem_mib room)"
    using dh by (simp add: winners_def sum_list_filter_distinct)
qed

text \<open>The first claim in the queue keeps the room it fits into: somebody always wins.\<close>

lemma first_claim_holds:
  "ahead_of mine held = [] \<Longrightarrow> fits_in (cr_size (spec mine)) room \<Longrightarrow> reservation_holds room mine held"
  by (simp add: reservation_holds_def sum_caps_def minus_cap_def fits_in_def)

lemma confirmed_needs_both:
  "confirmed J nd seen mine oc = Inr b \<Longrightarrow> \<exists>n vms held. nd = Inr n \<and> seen = Inr (vms, held)
     \<and> b = reservation_holds (free_on J (cr_node (spec mine)) (nst_capacity (status n)) vms oc) mine held"
  by (auto simp: confirmed_def Let_def split: sum.splits)

text \<open>Placement and migration claims never share a key: a migration is named by a DNS label, and those
  have no dot.\<close>

lemma placement_name_dot: "CHR ''.'' \<in> set (md_name (metadata (for_placement J v node uid now)))"
  by (simp add: for_placement_def Let_def declare_object_def object_new_def PLACEMENT_CLAIM_PREFIX_def)

lemma hold_fits: "c' \<in> set (hold cs held) \<Longrightarrow> \<exists>c\<in>set cs. c_name c' = c_name c \<and> fits_in (c_free c') (c_free c)"
  by (auto simp: hold_def minus_cap_fits)

section \<open>What a claim is worth\<close>

text \<open>C7: Of all claims standing on one node, those whose writers are told that they hold fit together into
  the room, exactly and in both dimensions, however many there are. Somebody always wins: the
  earliest claim on the node is told yes whenever it fits by itself.\<close>

theorem claims_told_yes_fit_together:
  assumes "distinct (map (\<lambda>r. md_name (metadata r)) held)"
  shows "(\<Sum>r\<leftarrow>winners room node held. unat (cr_vcpus (spec r))) \<le> unat (vcpus room)
    \<and> (\<Sum>r\<leftarrow>winners room node held. unat (cr_mem_mib (spec r))) \<le> unat (mem_mib room)
    \<and> (\<forall>r\<in>set held. cr_node (spec r) = node \<longrightarrow> fits_in (cr_size (spec r)) room \<longrightarrow>
         (\<forall>r'\<in>set held. cr_node (spec r') = node \<longrightarrow> made_at r \<le> made_at r') \<longrightarrow> r \<in> set (winners room node held))"
proof -
  have "reservation_holds room r held"
    if r: "r \<in> set held" "cr_node (spec r) = node" "fits_in (cr_size (spec r)) room"
      "\<forall>r'\<in>set held. cr_node (spec r') = node \<longrightarrow> made_at r \<le> made_at r'" for r
  proof (rule first_claim_holds [OF _ r(3)])
    show "ahead_of r held = []"
      unfolding ahead_of_eq [OF assms r(1)] using r(2,4) by (auto simp: filter_empty_conv not_less)
  qed
  then show ?thesis using winners_fit [OF assms] by (simp add: winners_def)
qed

definition sample_claim :: "string \<Rightarrow> nat \<Rightarrow> u32 \<Rightarrow> u64 \<Rightarrow> capacity_reservation" where
  "sample_claim name at cpus mem =
     (let r = for_placement tree_ops (sample_vm name 0 0) ''n1'' name 1000
      in r\<lparr>metadata := (metadata r)\<lparr>md_resource_version := dec at\<rparr>,
           spec := (spec r)\<lparr>cr_vcpus := cpus, cr_mem_mib := mem\<rparr>\<rparr>)"

lemma sample_claim_simps [simp]:
  "md_name (metadata (sample_claim name at cpus mem)) = ''place.uid-'' @ name"
  "cr_node (spec (sample_claim name at cpus mem)) = ''n1''"
  "cr_vcpus (spec (sample_claim name at cpus mem)) = cpus" "cr_mem_mib (spec (sample_claim name at cpus mem)) = mem"
  "made_at (sample_claim name at cpus mem) = (unwrap_or (2 ^ 63 - 1) (parse_i64 (dec at)), ''place.uid-'' @ name)"
  by (simp_all add: sample_claim_def for_placement_def Let_def made_at_def PLACEMENT_CLAIM_PREFIX_def sample_defs)

theorem claims_told_yes_fit_together_witness:
  "sample_claim ''a'' 7 2 3000 \<in> set (winners \<lparr>vcpus = 4, mem_mib = 4096\<rparr> ''n1'' [sample_claim ''a'' 7 2 3000, sample_claim ''b'' 9 2 3000])
   \<and> (\<Sum>r\<leftarrow>winners \<lparr>vcpus = 4, mem_mib = 4096\<rparr> ''n1'' [sample_claim ''a'' 7 2 3000, sample_claim ''b'' 9 2 3000].
        unat (cr_mem_mib (spec r))) \<le> 4096"
  using claims_told_yes_fit_together [of "[sample_claim ''a'' 7 2 3000, sample_claim ''b'' 9 2 3000]"
      "\<lparr>vcpus = 4, mem_mib = 4096\<rparr>" "''n1''"]
  by (simp add: parse_i64_dec fits_in_def cr_size_def)

text \<open>A claim is confirmed only on evidence: the answer yes needs a node that was read, and guests and
  claims that were listed together, and then it is the queue's answer for what is free on that node.
  A reading that failed is an error, never a yes or a no.\<close>

lemma confirmation_needs_evidence:
  "(confirmed J nd seen mine oc = Inr b \<longleftrightarrow>
     (\<exists>n vms held. nd = Inr n \<and> seen = Inr (vms, held)
        \<and> b = reservation_holds (free_on J (cr_node (spec mine)) (nst_capacity (status n)) vms oc) mine held))
   \<and> ((\<exists>e. confirmed J nd seen mine oc = Inl e) \<longleftrightarrow> (\<exists>e. nd = Inl e) \<or> (\<exists>e. seen = Inl e))"
  by (cases nd; cases seen) (auto simp: confirmed_def Let_def)

end
