(* ===== verification/Placement_Pass.thy ===== *)
theory Placement_Pass
  imports Volume_Placement Reservation
begin

text \<open>
  The scheduling half of \<open>cluster-controller/src/reconcile/placement.rs\<close>: how \<open>place\<close> decides for one
  guest under the lock of the shared candidate list, and the loop of \<open>reconcile/mod.rs\<close> that does so
  for one guest after the other. What \<open>place\<close> does with the decision is \<open>Placement_Program\<close>.
\<close>

definition refusing_now :: "'j vm \<Rightarrow> instant \<Rightarrow> string list" where
  "refusing_now v now = map rf_node (filter (\<lambda>r. now < rf_until r) (vt_refused_by (status v)))"

text \<open>The first candidate of that name gets the size back; this is done on the decision's copy only.\<close>

fun give_back :: "candidate list \<Rightarrow> string \<Rightarrow> capacity \<Rightarrow> candidate list" where
  "give_back [] n sz = []"
| "give_back (c # cs) n sz =
     (if c_name c = n then c\<lparr>c_free := plus_cap (c_free c) sz\<rparr> # cs else c # give_back cs n sz)"

definition place_decision ::
  "'j json_ops \<Rightarrow> 'j strategy \<Rightarrow> capacity_reservation list \<Rightarrow> instant \<Rightarrow> volume_binding list \<Rightarrow> 'j vm
     \<Rightarrow> candidate list \<Rightarrow> candidate list \<times> ((nat \<times> verdict) + string)" where
  "place_decision J assign held now bindings v nodes =
     (let refused = refusing_now v now;
          standing = find (\<lambda>r. is_placement_of r v) held;
          candidates = filter (\<lambda>c. c_name c \<notin> set refused) nodes;
          candidates = (case standing of
              Some ours \<Rightarrow> give_back candidates (cr_node (spec ours)) (cr_size (spec ours))
            | None \<Rightarrow> candidates);
          decision = decide_among J assign v bindings candidates nodes
      in (case decision of Inr node \<Rightarrow> spend J nodes node v | Inl _ \<Rightarrow> nodes, decision))"

section \<open>The loop over the guests\<close>

text \<open>\<open>reconcile_vm\<close> comes to \<open>place\<close> for a guest that is not going away, is bound nowhere and has left
  the node it was on; every replica may do it. A guest whose volumes are not all ready, or could not
  be read, ends before the decision (\<open>None\<close>). Each guest brings the bindings that were read for it and
  the time at which its refusals are judged; the result also lists who was sent where.\<close>

definition comes_to_place :: "'j vm \<Rightarrow> bool" where
  "comes_to_place v \<longleftrightarrow>
     \<not> is_deleting v \<and> vs_node_name (spec v) = None \<and> vt_node_name (status v) = None"

type_synonym 'j asking = "'j vm \<times> volume_binding list option \<times> instant"

fun place_pass ::
  "'j json_ops \<Rightarrow> 'j strategy \<Rightarrow> capacity_reservation list \<Rightarrow> 'j asking list \<Rightarrow> candidate list
     \<Rightarrow> candidate list \<times> ('j vm \<times> string) list" where
  "place_pass J assign held [] nodes = (nodes, [])"
| "place_pass J assign held ((v, reading, now) # rest) nodes =
     (case reading of
        Some bindings \<Rightarrow>
          if comes_to_place v
          then let (nodes', decision) = place_decision J assign held now bindings v nodes;
                   (nodes'', placed) = place_pass J assign held rest nodes'
               in (nodes'', case decision of Inr n \<Rightarrow> (v, n) # placed | Inl _ \<Rightarrow> placed)
          else place_pass J assign held rest nodes
      | None \<Rightarrow> place_pass J assign held rest nodes)"

definition placed_on :: "string \<Rightarrow> ('j vm \<times> string) list \<Rightarrow> 'j vm list" where
  "placed_on n placed = map fst (filter (\<lambda>p. snd p = n) placed)"

text \<open>What the claim of a guest's own earlier attempt sets aside for it on a node.\<close>

definition own_claim :: "capacity_reservation list \<Rightarrow> string \<Rightarrow> 'j vm \<Rightarrow> capacity" where
  "own_claim held n v =
     (case find (\<lambda>r. is_placement_of r v) held of
        Some r \<Rightarrow> if cr_node (spec r) = n then cr_size (spec r) else capacity_default
      | None \<Rightarrow> capacity_default)"

section \<open>Who must not meet whom\<close>

definition must_part :: "'j vm \<Rightarrow> hosted \<Rightarrow> bool" where
  "must_part w h \<longleftrightarrow>
     (\<exists>t\<in>set (vs_anti_affinity (spec w)). aa_required t \<and> ho_tenant h = vs_tenant (spec w)
        \<and> selects (aa_selector t) (ho_labels h))"

lemma keeps_apart_must_part: "keeps_apart w c \<longleftrightarrow> (\<forall>h\<in>set (c_hosted c). \<not> must_part w h)"
  by (auto simp: keeps_apart_iff collides_iff must_part_def)

definition all_hold :: "hosted \<Rightarrow> string \<Rightarrow> candidate list \<Rightarrow> bool" where
  "all_hold h n cs \<longleftrightarrow> (\<forall>c\<in>set cs. c_name c = n \<longrightarrow> h \<in> set (c_hosted c))"

lemma all_hold_spend: "all_hold h n cs \<Longrightarrow> all_hold h n (spend J cs m v)"
  unfolding all_hold_def using spend_fits by (metis subsetD)

section \<open>The decision's copy\<close>

lemma give_back_distinct:
  "distinct (map c_name cs) \<Longrightarrow>
   give_back cs n sz = map (\<lambda>c. if c_name c = n then c\<lparr>c_free := plus_cap (c_free c) sz\<rparr> else c) cs"
proof (induction cs)
  case (Cons c cs)
  have "map (\<lambda>c. if c_name c = n then c\<lparr>c_free := plus_cap (c_free c) sz\<rparr> else c) cs = cs"
    if "n \<notin> c_name ` set cs"
    using that by (intro map_idI) auto
  with Cons show ?case by auto
qed simp

text \<open>The candidates of the decision are those of the shared list that do not refuse the guest, each with
  the guest's own claim on it given back.\<close>

definition own_copy :: "capacity_reservation list \<Rightarrow> 'j vm \<Rightarrow> candidate \<Rightarrow> candidate" where
  "own_copy held v c = c\<lparr>c_free := plus_cap (c_free c) (own_claim held (c_name c) v)\<rparr>"

lemma candidate_free_same [simp]: "c\<lparr>c_free := c_free c\<rparr> = (c :: candidate)"
  by (cases c) simp

lemma own_copy_map:
  assumes "distinct (map c_name cs)"
  shows "(case find (\<lambda>r. is_placement_of r v) held of
      Some ours \<Rightarrow> give_back cs (cr_node (spec ours)) (cr_size (spec ours)) | None \<Rightarrow> cs)
    = map (own_copy held v) cs"
proof (cases "find (\<lambda>r. is_placement_of r v) held")
  case None
  then have "own_copy held v = id" by (auto simp: own_copy_def own_claim_def)
  with None show ?thesis by simp
next
  case (Some r)
  then show ?thesis using assms
    by (auto simp: give_back_distinct own_copy_def own_claim_def)
qed

lemma place_decision_eq:
  assumes "distinct (map c_name nodes)"
  shows "place_decision J assign held now bindings v nodes =
     (let decision = decide_among J assign v bindings
            (map (own_copy held v) (filter (\<lambda>c. c_name c \<notin> set (refusing_now v now)) nodes)) nodes
      in (case decision of Inr node \<Rightarrow> spend J nodes node v | Inl _ \<Rightarrow> nodes, decision))"
proof -
  have "distinct (map c_name (filter (\<lambda>c. c_name c \<notin> set (refusing_now v now)) nodes))"
    using assms by (rule distinct_map_filter)
  from own_copy_map [OF this, of v held] show ?thesis
    by (simp add: place_decision_def Let_def)
qed

lemma place_decision_names [simp]:
  "map c_name (fst (place_decision J assign held now bindings v nodes)) = map c_name nodes"
  by (simp add: place_decision_def Let_def split: sum.splits)

lemma fits_in_unat:
  "fits_in a b \<Longrightarrow> unat (vcpus a) \<le> unat (vcpus b)" "fits_in a b \<Longrightarrow> unat (mem_mib a) \<le> unat (mem_mib b)"
  by (simp_all add: fits_in_def word_le_nat_alt)

lemma plus_cap_unat:
  "unat (vcpus (plus_cap a b)) \<le> unat (vcpus a) + unat (vcpus b)"
  "unat (mem_mib (plus_cap a b)) \<le> unat (mem_mib a) + unat (mem_mib b)"
  by (simp_all add: unat_sat_add)

lemma minus_cap_unat:
  "unat (vcpus (minus_cap a b)) = unat (vcpus a) - unat (vcpus b)"
  "unat (mem_mib (minus_cap a b)) = unat (mem_mib a) - unat (mem_mib b)"
  by (simp_all add: unat_sat_sub)

context scheduler
begin

lemma decision_takes:
  assumes "distinct (map c_name nodes)" and "snd (place_decision J assign held now bindings v nodes) = Inr n"
    and "c \<in> set nodes" and "c_name c = n"
  shows "is_usable c \<and> keeps_apart v c \<and> n \<notin> set (refusing_now v now)
    \<and> fits_in (wanted_by J v) (plus_cap (c_free c) (own_claim held n v))"
proof -
  have "decide_among J assign v bindings
      (map (own_copy held v) (filter (\<lambda>c. c_name c \<notin> set (refusing_now v now)) nodes)) nodes = Inr n"
    using assms(1,2) by (simp add: place_decision_eq Let_def)
  from decide_among_sound [OF this] obtain c' where c': "c' \<in> set nodes" "c_name c' \<notin> set (refusing_now v now)"
    "c_name c' = n" "is_usable (own_copy held v c')" "demand_met J v (own_copy held v c')"
    by (auto simp: own_copy_def)
  moreover have "c' = c"
    using c'(1,3) assms(1,3,4) by (metis distinct_map inj_on_eq_iff)
  ultimately show ?thesis
    by (simp add: own_copy_def is_usable_def demand_met_def keeps_apart_iff collides_iff)
qed

lemma decision_names:
  assumes "distinct (map c_name nodes)" and "snd (place_decision J assign held now bindings v nodes) = Inr n"
  shows "\<exists>c\<in>set nodes. c_name c = n"
proof -
  have "decide_among J assign v bindings
      (map (own_copy held v) (filter (\<lambda>c. c_name c \<notin> set (refusing_now v now)) nodes)) nodes = Inr n"
    using assms by (simp add: place_decision_eq Let_def)
  from decide_among_sound [OF this] show ?thesis by (auto simp: own_copy_def)
qed

lemma decision_spends:
  assumes "distinct (map c_name nodes)" and "snd (place_decision J assign held now bindings v nodes) = Inr n"
  shows "fst (place_decision J assign held now bindings v nodes) = spend J nodes n v"
  using assms by (simp add: place_decision_def Let_def)

lemma decision_keeps:
  "snd (place_decision J assign held now bindings v nodes) = Inl e \<Longrightarrow>
   fst (place_decision J assign held now bindings v nodes) = nodes"
  by (simp add: place_decision_def Let_def)

text \<open>A decision adds the guest to the list of those placed and books it, or leaves both alone; this is
  the rule by which facts about a pass are proved.\<close>

lemma pass_rule [consumes 1, case_names none placed skipped]:
  assumes "distinct (map c_name nodes)"
    and none: "\<And>nodes. distinct (map c_name nodes) \<Longrightarrow> P [] nodes []"
    and placed: "\<And>v bindings now rest nodes n placed. distinct (map c_name nodes) \<Longrightarrow>
        snd (place_decision J assign held now bindings v nodes) = Inr n \<Longrightarrow>
        P rest (spend J nodes n v) placed \<Longrightarrow> P ((v, Some bindings, now) # rest) nodes ((v, n) # placed)"
    and skipped: "\<And>a rest nodes placed. distinct (map c_name nodes) \<Longrightarrow> P rest nodes placed \<Longrightarrow> P (a # rest) nodes placed"
  shows "P asks nodes (snd (place_pass J assign held asks nodes))"
  using assms(1)
proof (induction asks arbitrary: nodes)
  case Nil
  then show ?case by (simp add: none)
next
  case (Cons a rest)
  obtain v reading now where a: "a = (v, reading, now)" by (cases a)
  show ?case
  proof (cases reading)
    case None
    then show ?thesis using skipped [OF Cons.prems Cons.IH [OF Cons.prems]] by (simp add: a)
  next
    case (Some bindings)
    let ?d = "place_decision J assign held now bindings v nodes"
    show ?thesis
    proof (cases "snd ?d")
      case (Inl e)
      with decision_keeps [OF Inl] show ?thesis
        using skipped [OF Cons.prems Cons.IH [OF Cons.prems]] Some by (simp add: a split_beta Let_def)
    next
      case (Inr n)
      note spent = decision_spends [OF Cons.prems Inr]
      have "distinct (map c_name (spend J nodes n v))" using Cons.prems by simp
      from placed [OF Cons.prems Inr Cons.IH [OF this]] skipped [OF Cons.prems Cons.IH [OF Cons.prems]]
      show ?thesis using Some Inr spent by (simp add: a split_beta Let_def)
    qed
  qed
qed

text \<open>The bound, for either dimension.\<close>

lemma pass_within_dimension:
  fixes dim :: "capacity \<Rightarrow> nat"
  assumes fits: "\<And>a b. fits_in a b \<Longrightarrow> dim a \<le> dim b"
    and plus: "\<And>a b. dim (plus_cap a b) \<le> dim a + dim b"
    and minus: "\<And>a b. dim (minus_cap a b) = dim a - dim b"
    and "distinct (map c_name nodes)" and "c \<in> set nodes"
  shows "(\<Sum>v\<leftarrow>placed_on (c_name c) (snd (place_pass J assign held asks nodes)). dim (wanted_by J v))
    \<le> dim (c_free c)
      + (\<Sum>v\<leftarrow>placed_on (c_name c) (snd (place_pass J assign held asks nodes)). dim (own_claim held (c_name c) v))"
proof -
  define within where "within nodes placed \<longleftrightarrow> (\<forall>c\<in>set nodes.
      (\<Sum>v\<leftarrow>placed_on (c_name c) placed. dim (wanted_by J v))
        \<le> dim (c_free c) + (\<Sum>v\<leftarrow>placed_on (c_name c) placed. dim (own_claim held (c_name c) v)))"
    for nodes :: "candidate list" and placed
  have "within nodes (snd (place_pass J assign held asks nodes))"
    using assms(4)
  proof (induction rule: pass_rule [where held = held])
    case (placed v bindings now rest nodes n placed)
    show ?case unfolding within_def
    proof
      fix c assume c: "c \<in> set nodes"
      let ?c = "if c_name c = n then book J v c else c"
      have "?c \<in> set (spend J nodes n v)"
        using c placed(1) by (auto simp: spend_distinct)
      with placed(3) have IH: "(\<Sum>v\<leftarrow>placed_on (c_name ?c) placed. dim (wanted_by J v))
          \<le> dim (c_free ?c) + (\<Sum>v\<leftarrow>placed_on (c_name ?c) placed. dim (own_claim held (c_name ?c) v))"
        unfolding within_def by blast
      have "dim (wanted_by J v) \<le> dim (c_free c) + dim (own_claim held n v)" if "c_name c = n"
        using decision_takes [OF placed(1,2) c that] fits plus le_trans by blast
      then show "(\<Sum>v\<leftarrow>placed_on (c_name c) ((v, n) # placed). dim (wanted_by J v))
          \<le> dim (c_free c) + (\<Sum>v\<leftarrow>placed_on (c_name c) ((v, n) # placed). dim (own_claim held (c_name c) v))"
        using IH by (cases "c_name c = n") (simp_all add: placed_on_def minus)
    qed
  qed (simp_all add: within_def placed_on_def)
  with assms(5) show ?thesis unfolding within_def by blast
qed

lemma pass_within_room:
  assumes "distinct (map c_name nodes)" and "c \<in> set nodes"
  shows "(\<Sum>v\<leftarrow>placed_on (c_name c) (snd (place_pass J assign held asks nodes)). unat (vcpus (wanted_by J v)))
      \<le> unat (vcpus (c_free c))
        + (\<Sum>v\<leftarrow>placed_on (c_name c) (snd (place_pass J assign held asks nodes)). unat (vcpus (own_claim held (c_name c) v)))"
    and "(\<Sum>v\<leftarrow>placed_on (c_name c) (snd (place_pass J assign held asks nodes)). unat (mem_mib (wanted_by J v)))
      \<le> unat (mem_mib (c_free c))
        + (\<Sum>v\<leftarrow>placed_on (c_name c) (snd (place_pass J assign held asks nodes)). unat (mem_mib (own_claim held (c_name c) v)))"
  by (rule pass_within_dimension; rule assms fits_in_unat plus_cap_unat minus_cap_unat; assumption)+

lemma pass_places_each_once:
  assumes "distinct (map c_name nodes)"
  shows "set (map fst (snd (place_pass J assign held asks nodes))) \<subseteq> set (map fst asks)
    \<and> (distinct (map f (map fst asks)) \<longrightarrow> distinct (map f (map fst (snd (place_pass J assign held asks nodes)))))"
  using assms
proof (induction rule: pass_rule [where held = held])
  case (placed v bindings now rest nodes n placed)
  have "f v \<notin> f ` fst ` set placed" if "f v \<notin> f ` fst ` set rest"
    using placed(3) that by (metis image_mono list.set_map subsetD)
  with placed(3) show ?case by auto
qed auto

lemma pass_apart_from:
  assumes "distinct (map c_name nodes)" and "all_hold h n nodes"
  shows "\<forall>(w, m)\<in>set (snd (place_pass J assign held asks nodes)). must_part w h \<longrightarrow> m \<noteq> n"
proof -
  have "all_hold h n nodes \<longrightarrow> (\<forall>(w, m)\<in>set (snd (place_pass J assign held asks nodes)). must_part w h \<longrightarrow> m \<noteq> n)"
    using assms(1)
  proof (induction rule: pass_rule [where held = held])
    case (placed v bindings now rest nodes m placed)
    have "\<not> must_part v h" if "all_hold h n nodes" "m = n"
    proof -
      obtain c where c: "c \<in> set nodes" "c_name c = m"
        using decision_names [OF placed(1,2)] by blast
      then have "keeps_apart v c" using decision_takes [OF placed(1,2)] by blast
      moreover have "h \<in> set (c_hosted c)" using that c by (simp add: all_hold_def)
      ultimately show ?thesis by (simp add: keeps_apart_must_part)
    qed
    with placed(3) show ?case using all_hold_spend [of h n nodes J m v] by auto
  qed auto
  with assms(2) show ?thesis by blast
qed

lemma pass_apart:
  assumes "distinct (map c_name nodes)"
  shows "sorted_wrt (\<lambda>p q. must_part (fst q) (hosted_of (fst p)) \<longrightarrow> snd q \<noteq> snd p)
    (snd (place_pass J assign held asks nodes))"
  using assms
proof (induction asks arbitrary: nodes)
  case (Cons a rest)
  obtain v reading now where a: "a = (v, reading, now)" by (cases a)
  have "sorted_wrt (\<lambda>p q. must_part (fst q) (hosted_of (fst p)) \<longrightarrow> snd q \<noteq> snd p)
      (snd (let (nodes', decision) = place_decision J assign held now bindings v nodes;
                (nodes'', placed) = place_pass J assign held rest nodes'
            in (nodes'', case decision of Inr n \<Rightarrow> (v, n) # placed | Inl _ \<Rightarrow> placed)))" for bindings
  proof (cases "snd (place_decision J assign held now bindings v nodes)")
    case (Inl e)
    with decision_keeps [OF Inl] show ?thesis using Cons by (simp add: split_beta Let_def)
  next
    case (Inr n)
    have d: "distinct (map c_name (spend J nodes n v))" using Cons.prems by simp
    have "all_hold (hosted_of v) n (spend J nodes n v)"
      unfolding all_hold_def using spend_hosted [OF Cons.prems] by blast
    from pass_apart_from [OF d this, of held rest] Cons.IH [OF d] decision_spends [OF Cons.prems Inr] Inr
    show ?thesis by (auto simp: split_beta Let_def)
  qed
  then show ?case using Cons by (simp add: a split: option.splits)
qed simp

end

section \<open>A claim is given back once\<close>

lemma sum_list_one_differs:
  fixes g :: "'a \<Rightarrow> nat"
  assumes "distinct (map key vs)" and "\<And>v. M v \<Longrightarrow> key v = k"
  shows "(\<Sum>v\<leftarrow>vs. if M v then x else g v) \<le> x + (\<Sum>v\<leftarrow>vs. g v)"
  using assms(1)
proof (induction vs)
  case (Cons v vs)
  show ?case
  proof (cases "M v")
    case True
    then have "\<not> M w" if "w \<in> set vs" for w
      using that Cons.prems assms(2) by (metis distinct.simps(2) image_eqI list.set_map list.simps(9))
    then have "(\<Sum>v\<leftarrow>vs. if M v then x else g v) = (\<Sum>v\<leftarrow>vs. g v)"
      by (intro arg_cong [where f = sum_list] map_cong) auto
    with True show ?thesis by simp
  next
    case False
    with Cons show ?thesis by simp
  qed
qed simp

lemma own_claims_within:
  fixes dim :: "capacity \<Rightarrow> nat"
  assumes zero: "dim capacity_default = 0" and "distinct (map (\<lambda>v. md_uid (metadata v)) vs)"
  shows "(\<Sum>v\<leftarrow>vs. dim (own_claim held n v))
    \<le> (\<Sum>r\<leftarrow>filter (\<lambda>r. cr_node (spec r) = n) held. dim (cr_size (spec r)))"
proof (induction held)
  case Nil
  show ?case by (simp add: own_claim_def zero)
next
  case (Cons r held)
  let ?here = "if cr_node (spec r) = n then dim (cr_size (spec r)) else 0"
  have "(\<Sum>v\<leftarrow>vs. dim (own_claim (r # held) n v))
      = (\<Sum>v\<leftarrow>vs. if is_placement_of r v then ?here else dim (own_claim held n v))"
    by (intro arg_cong [where f = sum_list] map_cong) (auto simp: own_claim_def zero)
  also have "\<dots> \<le> ?here + (\<Sum>v\<leftarrow>vs. dim (own_claim held n v))"
    by (rule sum_list_one_differs [OF assms(2), where k = "cr_vm_uid (spec r)"]) (simp add: is_placement_of_def)
  finally show ?case using Cons by (auto split: if_splits)
qed

lemma held_room:
  assumes "c \<in> set cs"
  shows "\<exists>c'\<in>set (hold cs held). c_name c' = c_name c
    \<and> unat (vcpus (c_free c')) = unat (vcpus (c_free c)) -
        (\<Sum>r\<leftarrow>filter (\<lambda>r. cr_node (spec r) = c_name c) held. unat (vcpus (cr_size (spec r))))
    \<and> unat (mem_mib (c_free c')) = unat (mem_mib (c_free c)) -
        (\<Sum>r\<leftarrow>filter (\<lambda>r. cr_node (spec r) = c_name c) held. unat (mem_mib (cr_size (spec r))))"
proof -
  let ?c = "c\<lparr>c_free := minus_cap (c_free c) (reserved_on (c_name c) held)\<rparr>"
  have "?c \<in> set (hold cs held)" using assms by (simp add: hold_def)
  moreover have "unat (vcpus (c_free c)) \<le> 2 ^ 32 - 1" "unat (mem_mib (c_free c)) \<le> 2 ^ 64 - 1"
    using unat_le_max [of "vcpus (c_free c)"] unat_le_max [of "mem_mib (c_free c)"] by simp_all
  then have "unat (vcpus (c_free ?c)) = unat (vcpus (c_free c)) -
        (\<Sum>r\<leftarrow>filter (\<lambda>r. cr_node (spec r) = c_name c) held. unat (vcpus (cr_size (spec r))))"
    "unat (mem_mib (c_free ?c)) = unat (mem_mib (c_free c)) -
        (\<Sum>r\<leftarrow>filter (\<lambda>r. cr_node (spec r) = c_name c) held. unat (mem_mib (cr_size (spec r))))"
    by (simp_all add: unat_sat_sub reserved_on_def unat_sum_caps comp_def min_def)
  ultimately show ?thesis by (intro bexI [of _ ?c]) simp_all
qed

section \<open>What a pass promises\<close>

text \<open>C11: One placement pass, with any configured strategy, sends to a node no more than the node had free
  when the pass began, once every standing claim on it is set aside, plus the claims which the
  guests that were sent there already hold on it; so it never eats into the claim of another guest.
  With each guest listed once, all of it together is at most the room before the claims were set
  aside, or the claims themselves where they already were more than that. The sums are exact, for
  processors and for memory.\<close>

theorem pass_never_overspends:
  assumes "into_scheduler J this = Inr assign" and "distinct (map c_name cs)" and "c \<in> set cs"
    and "distinct (map (\<lambda>a. md_uid (metadata (fst a))) asks)"
    and "placed = placed_on (c_name c) (snd (place_pass J assign held asks (hold cs held)))"
    and "claims = filter (\<lambda>r. cr_node (spec r) = c_name c) held"
  shows "(\<Sum>v\<leftarrow>placed. unat (vcpus (wanted_by J v)))
      \<le> (unat (vcpus (c_free c)) - (\<Sum>r\<leftarrow>claims. unat (vcpus (cr_size (spec r)))))
        + (\<Sum>v\<leftarrow>placed. unat (vcpus (own_claim held (c_name c) v)))
    \<and> (\<Sum>v\<leftarrow>placed. unat (mem_mib (wanted_by J v)))
      \<le> (unat (mem_mib (c_free c)) - (\<Sum>r\<leftarrow>claims. unat (mem_mib (cr_size (spec r)))))
        + (\<Sum>v\<leftarrow>placed. unat (mem_mib (own_claim held (c_name c) v)))
    \<and> (\<Sum>v\<leftarrow>placed. unat (vcpus (wanted_by J v)))
      \<le> max (unat (vcpus (c_free c))) (\<Sum>r\<leftarrow>claims. unat (vcpus (cr_size (spec r))))
    \<and> (\<Sum>v\<leftarrow>placed. unat (mem_mib (wanted_by J v)))
      \<le> max (unat (mem_mib (c_free c))) (\<Sum>r\<leftarrow>claims. unat (mem_mib (cr_size (spec r))))"
proof -
  note contract = into_scheduler_contract [OF assms(1)]
  have d: "distinct (map c_name (hold cs held))" using assms(2) by (simp add: hold_def comp_def)
  obtain c' where c': "c' \<in> set (hold cs held)" "c_name c' = c_name c"
    "unat (vcpus (c_free c')) = unat (vcpus (c_free c)) - (\<Sum>r\<leftarrow>claims. unat (vcpus (cr_size (spec r))))"
    "unat (mem_mib (c_free c')) = unat (mem_mib (c_free c)) - (\<Sum>r\<leftarrow>claims. unat (mem_mib (cr_size (spec r))))"
    using held_room [OF assms(3), of held] assms(6) by blast
  have "distinct (map (\<lambda>v. md_uid (metadata v)) placed)"
    using scheduler.pass_places_each_once [OF contract d, of held asks "\<lambda>v. md_uid (metadata v)"] assms(4,5)
    by (auto simp: placed_on_def comp_def intro: distinct_map_filter)
  note own = own_claims_within [OF _ this, of _ held "c_name c", folded assms(6)]
  note room = scheduler.pass_within_room [OF contract d c'(1), of held asks, unfolded c'(2), folded assms(5)]
  show ?thesis
    using own [of "\<lambda>c. unat (vcpus c)"] own [of "\<lambda>c. unat (mem_mib c)"] room unfolding c'(3,4) by simp linarith
qed

lemmas pass_eval = place_decision_def decide_among_def decide_def feasible_for_volumes_def preferred_for_volumes_def
  prefer_local_def refusing_now_def comes_to_place_def

lemma sample_vm_simps:
  "vs_anti_affinity (spec (sample_vm name cpus mem)) = []" "vs_class (spec (sample_vm name cpus mem)) = CLASS_VM"
  "resource_requests tree_ops (sample_vm name cpus mem) = [(HYPERVISOR, None)]"
  "vs_node_selector (spec (sample_vm name cpus mem)) = []" "\<not> is_deleting (sample_vm name cpus mem)"
  "vs_node_name (spec (sample_vm name cpus mem)) = None" "vt_node_name (status (sample_vm name cpus mem)) = None"
  "vt_refused_by (status (sample_vm name cpus mem)) = []" "md_uid (metadata (sample_vm name cpus mem)) = ''uid-'' @ name"
  by (simp_all add: sample_defs vs_class_def resource_requests_def
      device_requests_def volume_requests_def overlay_requests_def physnet_requests_def j_array_field_def
      tree_ops_def is_deleting_def vm_status_default_def)

definition earlier_claim :: "string \<Rightarrow> string \<Rightarrow> capacity_reservation" where
  "earlier_claim name node = for_placement tree_ops (sample_vm name 2 768) node ''u1'' 5"

lemma earlier_claim_simps:
  "cr_node (spec (earlier_claim name node)) = node" "cr_claimant (spec (earlier_claim name node)) = ClaimPlacement"
  "cr_vm_uid (spec (earlier_claim name node)) = ''uid-'' @ name" "cr_vcpus (spec (earlier_claim name node)) = 2"
  "cr_mem_mib (spec (earlier_claim name node)) = 768"
  by (simp_all add: earlier_claim_def for_placement_def sample_wanted sample_vm_simps declare_object_def
      object_new_def)

lemma sample_pass:
  "snd (place_pass tree_ops (first_fit_assign tree_ops) [earlier_claim ''a'' ''n1'']
     [(sample_vm ''a'' 2 768, Some [], 9), (sample_vm ''b'' 2 256, Some [], 9)]
     (hold [sample_candidate ''n1'' 4 1024] [earlier_claim ''a'' ''n1'']))
   = [(sample_vm ''a'' 2 768, ''n1'')]"
  by (simp add: pass_eval sample_vm_simps sample_wanted earlier_claim_simps hold_def reserved_on_def sum_caps_def
      is_placement_of_def cr_size_def minus_cap_def plus_cap_def sat_add_def sat_sub_def capacity_default_def
      first_fit_assign_def feasible_def preferred_def Let_def book_def hosted_of_def sample_candidate_def
      is_usable_def keeps_apart_def accepts_class_def fits_in_def met_by_def)

theorem pass_never_overspends_witness:
  "(\<Sum>v\<leftarrow>[sample_vm ''a'' 2 768]. unat (mem_mib (wanted_by tree_ops v))) \<le> max 1024 768"
proof -
  let ?asks = "[(sample_vm ''a'' 2 768, Some [], 9), (sample_vm ''b'' 2 256, Some [], 9)]"
  let ?c = "sample_candidate ''n1'' 4 1024"
  have c: "c_name ?c = ''n1''" "c_free ?c = \<lparr>vcpus = 4, mem_mib = 1024\<rparr>" by (simp_all add: sample_candidate_def)
  have placed: "[sample_vm ''a'' 2 768] = placed_on (c_name ?c)
      (snd (place_pass tree_ops (first_fit_assign tree_ops) [earlier_claim ''a'' ''n1''] ?asks (hold [?c] [earlier_claim ''a'' ''n1''])))"
    unfolding sample_pass by (simp add: placed_on_def c)
  show ?thesis
    using pass_never_overspends [OF sample_scheduler [of tree_ops] _ _ _ placed refl]
    by (simp add: c earlier_claim_simps sample_vm_simps cr_size_def)
qed

text \<open>C13: In one pass no guest joins a guest it must stay away from: of two guests placed in the same pass,
  the later never lands on the candidate of the earlier when one of its required anti-affinity
  terms selects the earlier one's labels in the same tenancy.\<close>

theorem pass_keeps_guests_apart:
  assumes "into_scheduler J this = Inr assign" and "distinct (map c_name cs)"
    and "placed = snd (place_pass J assign held asks cs)"
    and "i < j" and "j < length placed"
    and "t \<in> set (vs_anti_affinity (spec (fst (placed ! j))))" and "aa_required t"
    and "vs_tenant (spec (fst (placed ! i))) = vs_tenant (spec (fst (placed ! j)))"
    and "selects (aa_selector t) (md_labels (metadata (fst (placed ! i))))"
  shows "snd (placed ! i) \<noteq> snd (placed ! j)"
proof -
  have "must_part (fst (placed ! j)) (hosted_of (fst (placed ! i)))"
    using assms(6-9) by (auto simp: must_part_def hosted_of_def)
  moreover have "sorted_wrt (\<lambda>p q. must_part (fst q) (hosted_of (fst p)) \<longrightarrow> snd q \<noteq> snd p) placed"
    unfolding assms(3) using scheduler.pass_apart [OF into_scheduler_contract [OF assms(1)] assms(2)] .
  ultimately show ?thesis
    using sorted_wrt_nth_less [OF _ assms(4,5)] by (force simp: split_beta)
qed

definition apart_vm :: "string \<Rightarrow> json vm" where
  "apart_vm name =
     (let v = sample_vm name 1 1 in
      v\<lparr>metadata := (metadata v)\<lparr>md_labels := [(''app'', ''db'')]\<rparr>,
        spec := (spec v)\<lparr>vs_anti_affinity := [\<lparr>aa_selector = [(''app'', ''db'')], aa_required = True\<rparr>]\<rparr>\<rparr>)"

lemma apart_vm_simps [simp]:
  "wanted_by tree_ops (apart_vm name) = \<lparr>vcpus = 1, mem_mib = 1\<rparr>"
  "vs_anti_affinity (spec (apart_vm name)) = [\<lparr>aa_selector = [(''app'', ''db'')], aa_required = True\<rparr>]"
  "vs_tenant (spec (apart_vm name)) = None" "md_labels (metadata (apart_vm name)) = [(''app'', ''db'')]"
  "vs_class (spec (apart_vm name)) = CLASS_VM" "resource_requests tree_ops (apart_vm name) = [(HYPERVISOR, None)]"
  "vs_node_selector (spec (apart_vm name)) = []" "\<not> is_deleting (apart_vm name)"
  "vs_node_name (spec (apart_vm name)) = None" "vt_node_name (status (apart_vm name)) = None"
  "vt_refused_by (status (apart_vm name)) = []"
  using sample_wanted [of 1 name 1]
  by (simp_all add: apart_vm_def wanted_by_def wanted_by_spec_def sample_defs vs_class_def resource_requests_def
      device_requests_def volume_requests_def overlay_requests_def physnet_requests_def j_array_field_def
      tree_ops_def json_number_def min_def is_deleting_def vm_status_default_def)

lemma apart_pass:
  "snd (place_pass tree_ops (first_fit_assign tree_ops) [] [(apart_vm ''a'', Some [], 9), (apart_vm ''b'', Some [], 9)]
     [sample_candidate ''n1'' 4 1024, sample_candidate ''n2'' 4 1024]) = [(apart_vm ''a'', ''n1''), (apart_vm ''b'', ''n2'')]"
  by (simp add: pass_eval first_fit_assign_def feasible_def preferred_def Let_def book_def hosted_of_def
      sample_candidate_def is_usable_def keeps_apart_def collides_def selects_def accepts_class_def fits_in_def met_by_def)

theorem pass_keeps_guests_apart_witness:
  "snd ([(apart_vm ''a'', ''n1''), (apart_vm ''b'', ''n2'')] ! 0) \<noteq> snd ([(apart_vm ''a'', ''n1''), (apart_vm ''b'', ''n2'')] ! 1)"
  by (rule pass_keeps_guests_apart [where t = "\<lparr>aa_selector = [(''app'', ''db'')], aa_required = True\<rparr>",
        OF sample_scheduler [of tree_ops] _ apart_pass [symmetric]])
    (simp_all add: sample_candidate_def selects_def)

end
