(* ===== verification/Store_View.thy ===== *)
theory Store_View
  imports Store_Rules "HOL-Library.Multiset"
begin

text \<open>
  A resource's directory in the store read as the list of its objects: what a create, a delete and a
  replacement do to that list, and that a range read returns it. A copy of an object that was read
  earlier and is found again under its version is the stored object (\<open>knows\<close>).
\<close>

section \<open>What stands under a key\<close>

text \<open>\<open>known_at\<close>: a copy that was true once; whatever stands there under its version is it.\<close>

definition found_at ::
  "('e, 'b) etcd_ops \<Rightarrow> string \<Rightarrow> ('s, 't, 'b) resource \<Rightarrow> 'e \<Rightarrow> ('s, 't) object \<Rightarrow> bool" where
  "found_at X k T e obj \<longleftrightarrow>
     (\<exists>x. et_look X e k = Some x \<and> decode T (en_value x) (en_mod_revision x) = Inr obj)"

definition known_at ::
  "('e, 'b) etcd_ops \<Rightarrow> string \<Rightarrow> ('s, 't, 'b) resource \<Rightarrow> 'e \<Rightarrow> ('s, 't) object \<Rightarrow> bool" where
  "known_at X k T e obj \<longleftrightarrow>
     (\<exists>r. md_resource_version (metadata obj) = int_display r \<and> 0 < r \<and> r \<le> et_head X e \<and> r < 2 ^ 63 \<and>
        (\<forall>x. et_look X e k = Some x \<longrightarrow> en_mod_revision x = r \<longrightarrow> decode T (en_value x) r = Inr obj))"

lemma known_at_moves:
  assumes "known_at X k T e obj" "key_moves X k e e'"
  shows "known_at X k T e' obj"
proof -
  obtain r where r: "md_resource_version (metadata obj) = int_display r" "0 < r" "r \<le> et_head X e" "r < 2 ^ 63"
    "\<And>x. et_look X e k = Some x \<Longrightarrow> en_mod_revision x = r \<Longrightarrow> decode T (en_value x) r = Inr obj"
    using assms(1) unfolding known_at_def by metis
  have "decode T (en_value x) r = Inr obj" if "et_look X e' k = Some x" "en_mod_revision x = r" for x
    using that assms(2) r(3) r(5) [of x] unfolding key_moves_def by (metis not_less)
  then show ?thesis using r(1-4) assms(2) unfolding known_at_def key_moves_def by (metis order_trans)
qed

lemma known_at_found:
  assumes "known_at X k T e obj" "parse_i64 (md_resource_version (metadata obj)) = Some rv"
    "compare_holds (et_look X e) (ModRevisionEq k rv)"
  shows "found_at X k T e obj"
proof -
  obtain r where r: "md_resource_version (metadata obj) = int_display r" "0 < r" "r < 2 ^ 63"
    "\<And>x. et_look X e k = Some x \<Longrightarrow> en_mod_revision x = r \<Longrightarrow> decode T (en_value x) r = Inr obj"
    using assms(1) unfolding known_at_def by metis
  have "rv = r" using assms(2) r(1) parse_int_display [of r] r(2,3) by simp
  with assms(3) r(2) obtain x where "et_look X e k = Some x" "en_mod_revision x = r"
    by (auto split: option.splits)
  then show ?thesis using r(4) [of x] by (auto simp: found_at_def)
qed

context etcd
begin

lemma found_known: "et_ok X e \<Longrightarrow> found_at X k T e obj \<Longrightarrow> known_at X k T e obj"
proof -
  assume ok: "et_ok X e" and "found_at X k T e obj"
  then obtain x where x: "et_look X e k = Some x" "decode T (en_value x) (en_mod_revision x) = Inr obj"
    by (auto simp: found_at_def)
  show ?thesis
    unfolding known_at_def
    using revisions [OF ok x(1)] head_i64 [OF ok] decode_version [OF x(2)] x
    by (intro exI [of _ "en_mod_revision x"]) auto
qed

end

section \<open>Objects under their names\<close>

abbreviation obj_name :: "('s, 't) object \<Rightarrow> string" where
  "obj_name obj \<equiv> md_name (metadata obj)"

definition obj_key :: "('b, 'j) store \<Rightarrow> ('s, 't, 'b) resource \<Rightarrow> string \<Rightarrow> string" where
  "obj_key S T name = store_key S (RESOURCE T) name"

definition in_dir :: "('b, 'j) store \<Rightarrow> ('s, 't, 'b) resource \<Rightarrow> string \<Rightarrow> bool" where
  "in_dir S T k \<longleftrightarrow> prefix (store_dir S (RESOURCE T)) k"

definition stands ::
  "('e, 'b) etcd_ops \<Rightarrow> ('b, 'j) store \<Rightarrow> ('s, 't, 'b) resource \<Rightarrow> 'e \<Rightarrow> ('s, 't) object \<Rightarrow> bool" where
  "stands X S T e obj \<longleftrightarrow>
     (\<exists>x. et_look X e (obj_key S T (obj_name obj)) = Some x \<and>
          decode T (en_value x) (en_mod_revision x) = Inr obj)"

text \<open>The objects that decode are \<open>xs\<close>, each under the key of its name.\<close>

definition directory ::
  "('e, 'b) etcd_ops \<Rightarrow> ('b, 'j) store \<Rightarrow> ('s, 't, 'b) resource \<Rightarrow> 'e \<Rightarrow> ('s, 't) object list \<Rightarrow> bool" where
  "directory X S T e xs \<longleftrightarrow>
     distinct (map obj_name xs) \<and>
     (\<forall>obj. obj \<in> set xs \<longleftrightarrow> stands X S T e obj) \<and>
     (\<forall>k x obj. in_dir S T k \<longrightarrow> et_look X e k = Some x \<longrightarrow>
        decode T (en_value x) (en_mod_revision x) = Inr obj \<longrightarrow> k = obj_key S T (obj_name obj))"

text \<open>A copy that was true once: whatever stands under its version is it.\<close>

definition knows ::
  "('e, 'b) etcd_ops \<Rightarrow> ('b, 'j) store \<Rightarrow> ('s, 't, 'b) resource \<Rightarrow> 'e \<Rightarrow> ('s, 't) object \<Rightarrow> bool" where
  "knows X S T e obj \<longleftrightarrow>
     (\<exists>r. md_resource_version (metadata obj) = int_display r \<and> 0 < r \<and> r \<le> et_head X e \<and> r < 2 ^ 63 \<and>
        (\<forall>x. et_look X e (obj_key S T (obj_name obj)) = Some x \<longrightarrow> en_mod_revision x = r \<longrightarrow>
             decode T (en_value x) r = Inr obj))"

lemma in_dir_key [simp]: "in_dir S T (obj_key S T n)"
  by (simp add: in_dir_def obj_key_def store_dir_def store_key_def)

lemma obj_key_inject [simp]: "obj_key S T n = obj_key S T m \<longleftrightarrow> n = m"
  by (simp add: obj_key_def store_key_def)

lemma in_other_dir:
  assumes "CHR ''/'' \<notin> set (RESOURCE T)" "CHR ''/'' \<notin> set (RESOURCE U)" "RESOURCE T \<noteq> RESOURCE U"
  shows "in_dir S T k \<Longrightarrow> \<not> in_dir S U k"
proof
  assume "in_dir S T k" "in_dir S U k"
  then obtain x y where "RESOURCE T @ CHR ''/'' # x = RESOURCE U @ CHR ''/'' # y"
    by (auto simp: in_dir_def store_dir_def prefix_def)
  then show False using slash_cut [OF assms(1,2)] assms(3) by blast
qed

lemma directory_free:
  "directory X S T e xs \<Longrightarrow> et_look X e (obj_key S T n) = None \<Longrightarrow> n \<notin> set (map obj_name xs)"
  by (auto simp: directory_def stands_def)

lemma directory_away:
  assumes "directory X S T e xs" "\<And>k. in_dir S T k \<Longrightarrow> et_look X e' k = et_look X e k"
  shows "directory X S T e' xs"
  using assms by (simp add: directory_def stands_def)

lemma directoryD:
  assumes "directory X S T e xs"
  shows "distinct (map obj_name xs)" "obj \<in> set xs \<longleftrightarrow> stands X S T e obj"
    "in_dir S T k \<Longrightarrow> et_look X e k = Some x \<Longrightarrow> decode T (en_value x) (en_mod_revision x) = Inr obj \<Longrightarrow>
       k = obj_key S T (obj_name obj)"
  using assms by (auto simp: directory_def)

lemma directory_written:
  assumes d: "directory X S T e xs" and y: "et_look X e' (obj_key S T (obj_name obj)) = Some y"
      "decode T (en_value y) (en_mod_revision y) = Inr obj"
    and same: "\<And>k. in_dir S T k \<Longrightarrow> k \<noteq> obj_key S T (obj_name obj) \<Longrightarrow> et_look X e' k = et_look X e k"
  shows "directory X S T e' (filter (\<lambda>o1. obj_name o1 \<noteq> obj_name obj) xs @ [obj])"
proof -
  let ?k = "obj_key S T (obj_name obj)"
  have new: "o1 = obj" if "et_look X e' ?k = Some z" "decode T (en_value z) (en_mod_revision z) = Inr o1" for z o1
    using that y by simp
  have st: "stands X S T e' o1 \<longleftrightarrow> o1 = obj \<or> stands X S T e o1 \<and> obj_name o1 \<noteq> obj_name obj" for o1
  proof (cases "obj_name o1 = obj_name obj")
    case True then show ?thesis using y new [of _ o1] by (auto simp: stands_def)
  next
    case False
    then have "et_look X e' (obj_key S T (obj_name o1)) = et_look X e (obj_key S T (obj_name o1))"
      by (intro same) simp_all
    then show ?thesis using False by (auto simp: stands_def)
  qed
  show ?thesis
    unfolding directory_def
  proof (intro conjI allI impI, goal_cases)
    case 1
    show ?case using directoryD(1) [OF d] by (auto simp: distinct_map_filter)
  next
    case (2 o1) then show ?case using directoryD(2) [OF d, of o1] st [of o1] by auto
  next
    case (3 k y o1)
    then show ?case using new [of y o1] directoryD(3) [OF d, of k y o1] same [of k] by (cases "k = ?k") auto
  qed
qed

lemma directory_put:
  assumes d: "directory X S T e xs" and p: "puts X e (obj_key S T (obj_name obj)) v e'"
    and v: "decode T v (et_head X e') = Inr obj"
  shows "directory X S T e' (filter (\<lambda>o1. obj_name o1 \<noteq> obj_name obj) xs @ [obj])"
  by (rule directory_written [OF d]) (use p v in \<open>auto simp: puts_def put_entry_def\<close>)

lemma directory_new:
  assumes d: "directory X S T e xs" and p: "puts X e (obj_key S T (obj_name obj)) v e'"
    and v: "decode T v (et_head X e') = Inr obj" and free: "et_look X e (obj_key S T (obj_name obj)) = None"
  shows "directory X S T e' (xs @ [obj])"
proof -
  have "filter (\<lambda>o1. obj_name o1 \<noteq> obj_name obj) xs = xs"
    using directory_free [OF d free] by (intro filter_True) (auto simp: image_iff)
  then show ?thesis using directory_put [OF d p v] by simp
qed

lemma directory_drop:
  assumes d: "directory X S T e xs" and p: "drops X e (obj_key S T n) e'"
  shows "directory X S T e' (filter (\<lambda>o1. obj_name o1 \<noteq> n) xs)"
proof -
  have at: "et_look X e' k = (if k = obj_key S T n then None else et_look X e k)" for k
    using p by (auto simp: drops_def)
  show ?thesis
    using d unfolding directory_def stands_def at by (auto simp: distinct_map_filter)
qed

lemma directory_perm: "directory X S T e xs \<Longrightarrow> mset ys = mset xs \<Longrightarrow> directory X S T e ys"
  unfolding directory_def by (metis mset_map mset_eq_imp_distinct_iff mset_eq_setD)

lemma directory_edit:
  assumes d: "directory X S T e xs" and old: "old \<in> set xs" "obj_name old = obj_name obj"
    and p: "puts X e (obj_key S T (obj_name obj)) v e'" and v: "decode T v (et_head X e') = Inr obj"
  shows "directory X S T e' (map (\<lambda>o1. if obj_name o1 = obj_name obj then obj else o1) xs)"
proof -
  obtain as bs where xs: "xs = as @ old # bs" using split_list [OF old(1)] by blast
  have other: "obj_name o1 \<noteq> obj_name obj" if "o1 \<in> set as \<union> set bs" for o1
    using directoryD(1) [OF d] that old(2) unfolding xs by (auto simp: image_iff)
  have "filter (\<lambda>o1. obj_name o1 \<noteq> obj_name obj) as = as" "filter (\<lambda>o1. obj_name o1 \<noteq> obj_name obj) bs = bs"
    using other by (auto intro!: filter_True)
  moreover have "map (\<lambda>o1. if obj_name o1 = obj_name obj then obj else o1) zs = zs"
    if "set zs \<subseteq> set as \<union> set bs" for zs
    using that other by (intro map_idI) auto
  ultimately show ?thesis
    using directory_put [OF d p v] unfolding xs
    by (elim directory_perm) (simp add: old(2))
qed

lemma in_map_filter: "y \<in> set (List.map_filter f xs) \<longleftrightarrow> (\<exists>x\<in>set xs. f x = Some y)"
  by (induction xs) (auto simp: map_filter_simps split: option.splits)

lemma distinct_map_filter_key:
  assumes "distinct (map key xs)" "\<And>x y. x \<in> set xs \<Longrightarrow> f x = Some y \<Longrightarrow> key x = h y"
  shows "distinct (List.map_filter f xs)"
  using assms
proof (induction xs)
  case (Cons x xs)
  have "y \<notin> set (List.map_filter f xs)" if y: "f x = Some y" for y
  proof
    assume "y \<in> set (List.map_filter f xs)"
    then obtain x' where "x' \<in> set xs" "f x' = Some y" by (auto simp: in_map_filter)
    then have "key x' = key x" using Cons.prems(2) [of x' y] Cons.prems(2) [of x y] y by simp
    then show False using Cons.prems(1) \<open>x' \<in> set xs\<close> by (metis distinct.simps(2) image_eqI list.map(2) set_map)
  qed
  moreover have "distinct (List.map_filter f xs)" using Cons by simp
  ultimately show ?case by (simp add: map_filter_simps split: option.splits)
qed (simp add: map_filter_simps)

lemma directory_range:
  assumes d: "directory X S T e xs" and r: "is_range (et_look X e) (store_dir S (RESOURCE T)) kvs"
  shows "mset (decode_range T kvs) = mset xs"
proof -
  let ?f = "\<lambda>kv. case decode T (kv_value kv) (kv_mod_revision kv) of Inr obj \<Rightarrow> Some obj | Inl _ \<Rightarrow> None"
  have some: "?f kv = Some obj \<longleftrightarrow> decode T (kv_value kv) (kv_mod_revision kv) = Inr obj" for kv obj
    by (simp split: sum.splits)
  have kvs: "kv \<in> set kvs \<longleftrightarrow> (\<exists>k x. kv = kv_of k x \<and> et_look X e k = Some x \<and> in_dir S T k)" for kv
    using r by (auto simp: is_range_def in_dir_def)
  have simps: "kv_value (kv_of k x) = en_value x" "kv_mod_revision (kv_of k x) = en_mod_revision x" for k x
    by (simp_all add: kv_of_def)
  have key: "kv_key kv = obj_key S T (obj_name obj)" if kv: "kv \<in> set kvs" and obj: "?f kv = Some obj" for kv obj
  proof -
    obtain k x where kx: "kv = kv_of k x" "et_look X e k = Some x" "in_dir S T k" using kvs kv by blast
    have "decode T (en_value x) (en_mod_revision x) = Inr obj" using obj [unfolded some] kx(1) by (simp add: kv_of_def)
    then show ?thesis using directoryD(3) [OF d kx(3,2)] kx(1) by (simp add: kv_of_def)
  qed
  have "distinct (map kv_key kvs)" using r by (simp add: is_range_def)
  then have "distinct (decode_range T kvs)"
    unfolding decode_range_def by (rule distinct_map_filter_key) (rule key)
  moreover have "obj \<in> set (decode_range T kvs) \<longleftrightarrow> obj \<in> set xs" for obj
  proof -
    have "obj \<in> set (decode_range T kvs) \<longleftrightarrow>
        (\<exists>k x. et_look X e k = Some x \<and> in_dir S T k \<and> decode T (en_value x) (en_mod_revision x) = Inr obj)"
      unfolding decode_range_def in_map_filter some Bex_def kvs using simps by (metis (no_types, lifting))
    also have "\<dots> \<longleftrightarrow> stands X S T e obj"
      using directoryD(3) [OF d] in_dir_key unfolding stands_def by blast
    finally show ?thesis using directoryD(2) [OF d] by blast
  qed
  then have "set (decode_range T kvs) = set xs" by blast
  moreover have "distinct xs" using directoryD(1) [OF d] by (simp add: distinct_map)
  ultimately show ?thesis by (simp add: set_eq_iff_mset_eq_distinct)
qed

lemma stands_found: "stands X S T e obj \<longleftrightarrow> found_at X (obj_key S T (obj_name obj)) T e obj"
  by (simp add: stands_def found_at_def)

lemma knows_known: "knows X S T e obj \<longleftrightarrow> known_at X (obj_key S T (obj_name obj)) T e obj"
  by (simp add: knows_def known_at_def)

lemma knows_moves:
  "knows X S T e obj \<Longrightarrow> key_moves X (obj_key S T (obj_name obj)) e e' \<Longrightarrow> knows X S T e' obj"
  unfolding knows_known by (rule known_at_moves)

context etcd
begin

lemma knows_stands: "et_ok X e \<Longrightarrow> stands X S T e obj \<Longrightarrow> knows X S T e obj"
  unfolding knows_known stands_found by (rule found_known)

lemma knows_found:
  "knows X S T e obj \<Longrightarrow> parse_i64 (md_resource_version (metadata obj)) = Some rv \<Longrightarrow>
   compare_holds (et_look X e) (ModRevisionEq (obj_key S T (obj_name obj)) rv) \<Longrightarrow> stands X S T e obj"
  unfolding knows_known stands_found by (rule known_at_found)

end

end
