(* ===== verification/Rest_Api.thy ===== *)
theory Rest_Api
  imports Etcd_Store
begin

text \<open>
  The parts of \<open>shared/controller-api/src/rest/mod.rs\<close> that decide: the error envelope and what a
  store error becomes, the preview marker, label selectors and the CORS answer. Serving, TLS and
  the axum extractors are not modelled.
\<close>

section \<open>Errors\<close>

record api_error =
  ae_status :: nat
  ae_reason :: string
  ae_message :: string
  ae_field :: "string option"

definition api_error_new :: "nat \<Rightarrow> string \<Rightarrow> string \<Rightarrow> api_error" where
  "api_error_new code reason message =
     \<lparr>ae_status = code, ae_reason = reason, ae_message = message, ae_field = None\<rparr>"

definition api_error_of_store :: "store_error \<Rightarrow> api_error" where
  "api_error_of_store e =
     (let (code, reason) =
        (case e of
           NotFound _ \<Rightarrow> (404, ''NotFound'')
         | AlreadyExists _ \<Rightarrow> (409, ''AlreadyExists'')
         | Terminating _ \<Rightarrow> (409, ''Terminating'')
         | Conflict _ \<Rightarrow> (409, ''Conflict'')
         | Invalid _ \<Rightarrow> (422, ''Invalid'')
         | Backend _ \<Rightarrow> (500, ''Internal'')
         | Timeout _ _ \<Rightarrow> (503, ''Timeout''))
      in api_error_new code reason (store_error_display e))"

definition invalid :: "string \<Rightarrow> api_error" where
  "invalid message = api_error_new 422 ''Invalid'' message"

definition invalid_field :: "string \<Rightarrow> string \<Rightarrow> api_error" where
  "invalid_field field message = (invalid message)\<lparr>ae_field := Some field\<rparr>"

definition conflict :: "string \<Rightarrow> api_error" where
  "conflict message = api_error_new 409 ''Conflict'' message"

definition claim_not_taken_back :: "string \<Rightarrow> api_error" where
  "claim_not_taken_back message = api_error_new 500 ''ClaimNotTakenBack'' message"

definition forbidden :: "string \<Rightarrow> api_error" where
  "forbidden message = api_error_new 403 ''Forbidden'' message"

section \<open>Previews\<close>

definition ANNOTATION_DRY_RUN :: string where "ANNOTATION_DRY_RUN = ''meister.io/dry-run''"
definition DRY_RUN_ALL :: string where "DRY_RUN_ALL = ''All''"

definition dry_run_value :: "string \<Rightarrow> string option" where
  "dry_run_value query =
     find_map (\<lambda>pair.
        let (key, value) = (case split_once CHR ''='' pair of Some kv \<Rightarrow> kv | None \<Rightarrow> (pair, []))
        in if key = ''dryRun'' then Some value else None) (split_on CHR ''&'' query)"

definition dry_run_from_query :: "string option \<Rightarrow> api_error + bool" where
  "dry_run_from_query query =
     (case Option.bind query dry_run_value of
        None \<Rightarrow> Inr False
      | Some value \<Rightarrow>
          if value = DRY_RUN_ALL then Inr True
          else Inl (api_error_new 400 ''BadRequest''
                 (''dryRun='' @ str_debug value @ '' is not a stage; the only value is '' @
                  str_debug DRY_RUN_ALL)))"

definition dry_run_preview :: "bool \<Rightarrow> ('s, 't) object \<Rightarrow> ('s, 't) object option" where
  "dry_run_preview requested obj =
     (if requested then
        Some (obj\<lparr>metadata := (metadata obj)
                \<lparr>md_generation := max (md_generation (metadata obj)) 1,
                 md_resource_version := [],
                 md_annotations := bm_insert ANNOTATION_DRY_RUN ''true'' (md_annotations (metadata obj))\<rparr>\<rparr>)
      else None)"

section \<open>Selectors\<close>

type_synonym selector = "(string \<times> string) list"

fun selector_terms :: "string list \<Rightarrow> api_error + selector" where
  "selector_terms [] = Inr []"
| "selector_terms (raw # rest) =
     (let term = trim raw in
      if term = [] then selector_terms rest
      else case split_once CHR ''='' term of
             None \<Rightarrow> Inl (invalid (str_debug term @
                       '' is not a selector; write it as key=value, comma-separated''))
           | Some (key0, value) \<Rightarrow>
               let key = trim key0 in
               if key = [] then Inl (invalid (str_debug term @ '' has an empty key''))
               else map_sum id (\<lambda>pairs. (key, trim value) # pairs) (selector_terms rest))"

definition selector_parse :: "string option \<Rightarrow> api_error + selector" where
  "selector_parse raw0 =
     (case map_option trim raw0 of
        Some raw \<Rightarrow> if raw = [] then Inr [] else selector_terms (split_on CHR '','' raw)
      | None \<Rightarrow> Inr [])"

definition selector_selects :: "selector \<Rightarrow> labels \<Rightarrow> bool" where
  "selector_selects sel ls = list_all (\<lambda>(k, v). map_of ls k = Some v) sel"

section \<open>Cross-origin answers\<close>

datatype allow = AllowAny | AllowExact string

definition allow_origin :: "string list \<Rightarrow> string option \<Rightarrow> allow option" where
  "allow_origin configured origin =
     (case origin of
        None \<Rightarrow> None
      | Some org \<Rightarrow>
          if list_ex (\<lambda>c. c = ''*'') configured then Some AllowAny
          else if list_ex (\<lambda>c. c = org) configured then Some (AllowExact org) else None)"

fun allow_header :: "allow \<Rightarrow> string" where
  "allow_header AllowAny = ''*''"
| "allow_header (AllowExact org) = org"

section \<open>Facts\<close>

text \<open>Only a lost compare-and-swap carries the reason a patch is retried on.\<close>

lemma conflict_reason_iff:
  "ae_reason (api_error_of_store e) = ''Conflict'' \<longleftrightarrow> (\<exists>m. e = Conflict m)"
  by (cases e) (simp_all add: api_error_of_store_def api_error_new_def)

text \<open>An answer names an origin only when it was configured, exactly or by the wildcard entry.\<close>

lemma allow_origin_sound:
  assumes "allow_origin configured origin = Some a"
  shows "\<exists>org. origin = Some org \<and> (a = AllowAny \<and> ''*'' \<in> set configured \<or>
           a = AllowExact org \<and> org \<in> set configured)"
  using assms by (auto simp: allow_origin_def list_ex_iff split: option.splits if_splits)

text \<open>A selector is a conjunction: parsing the join of two well-formed texts selects the intersection.\<close>

lemma selector_terms_append:
  assumes "selector_terms xs = Inr a" "selector_terms ys = Inr b"
  shows "selector_terms (xs @ ys) = Inr (a @ b)"
  using assms
proof (induction xs arbitrary: a)
  case (Cons raw rest)
  then show ?case
    by (cases "selector_terms rest") (auto simp: Let_def split: if_splits option.splits)
qed simp

lemma preview_stores_nothing:
  assumes "dry_run_preview req obj = Some p"
  shows "req" and "md_resource_version (metadata p) = []"
    and "map_of (md_annotations (metadata p)) ANNOTATION_DRY_RUN = Some ''true''"
    and "spec p = spec obj" and "status p = status obj" and "1 \<le> md_generation (metadata p)"
  using assms by (auto simp: dry_run_preview_def split: if_splits)

end
