(* ===== verification/Events.thy ===== *)
theory Events
  imports Rest_Api Store_Rules
begin

text \<open>
  \<open>shared/controller-api/src/events.rs\<close> and \<open>resources/event.rs\<close>: expiring records of what happened
  to an object. Reading an RFC 3339 instant is a parameter.
\<close>

datatype event_type = EvNormal | EvWarning

fun event_type_as_str :: "event_type \<Rightarrow> string" where
  "event_type_as_str EvNormal = ''Normal''"
| "event_type_as_str EvWarning = ''Warning''"

record event_spec =
  ev_involved_kind :: string
  ev_involved_name :: string
  ev_involved_uid :: string
  ev_reason :: string
  ev_message :: string
  ev_event_type :: event_type
  ev_tenant :: "string option"
  ev_count :: u32
  ev_first_seen :: instant
  ev_last_seen :: instant

type_synonym event = "(event_spec, unit) object"

definition event_resource ::
  "(event \<Rightarrow> string + 'b) \<Rightarrow> ('b \<Rightarrow> string + event) \<Rightarrow> (event_spec, unit, 'b) resource" where
  "event_resource tv fs =
     \<lparr>RESOURCE = ''events'', KIND = ''Event'', NAME_SHAPE = DnsLabel,
      settle = (\<lambda>_ obj. obj), to_vec = tv, from_slice = fs\<rparr>"

definition TTL_SECS :: int where "TTL_SECS = 3600"

definition REASON_SCHEDULED :: string where "REASON_SCHEDULED = ''Scheduled''"
definition REASON_FAILED_SCHEDULING :: string where "REASON_FAILED_SCHEDULING = ''FailedScheduling''"
definition REASON_UNBOUND :: string where "REASON_UNBOUND = ''Unbound''"
definition REASON_QUOTA_EXCEEDED :: string where "REASON_QUOTA_EXCEEDED = ''QuotaExceeded''"
definition REASON_PHASE_CHANGED :: string where "REASON_PHASE_CHANGED = ''PhaseChanged''"
definition REASON_PHASE_STUCK :: string where "REASON_PHASE_STUCK = ''PhaseStuck''"
definition REASON_PEER_LOST :: string where "REASON_PEER_LOST = ''PeerLost''"
definition REASON_PEER_READY :: string where "REASON_PEER_READY = ''PeerReady''"
definition REASON_MIGRATING :: string where "REASON_MIGRATING = ''Migrating''"
definition REASON_ACTIVE_CHANGED :: string where "REASON_ACTIVE_CHANGED = ''ActiveChanged''"
definition REASON_TENANT_WIRE_KEPT :: string where "REASON_TENANT_WIRE_KEPT = ''TenantWireKept''"
definition REASON_INSIDE_PREFIX_REFUSED :: string where
  "REASON_INSIDE_PREFIX_REFUSED = ''InsidePrefixRefused''"

record happening =
  hp_kind :: string
  hp_name :: string
  hp_uid :: string
  hp_reason :: string
  hp_message :: string
  hp_event_type :: event_type
  hp_tenant :: "string option"

text \<open>\<open>str::to_lowercase\<close> on ASCII text, which kinds, reasons, uids and accepted names are.\<close>

definition lower_char :: "char \<Rightarrow> char" where
  "lower_char c = (let n = of_char c :: nat in if 65 \<le> n \<and> n \<le> 90 then char_of (n + 32) else c)"

definition to_lowercase :: "string \<Rightarrow> string" where
  "to_lowercase s = map lower_char s"

definition name_of :: "string \<Rightarrow> string \<Rightarrow> string \<Rightarrow> string \<Rightarrow> string" where
  "name_of kind uid name reason =
     (let identity = (if uid = [] then name else uid)
      in to_lowercase kind @ ''-'' @ to_lowercase identity @ ''-'' @ to_lowercase reason)"

definition record_event ::
  "('b, 'j) store \<Rightarrow> (event_spec, unit, 'b) resource \<Rightarrow> happening \<Rightarrow> ('b, unit) io" where
  "record_event S T h =
     and_then utc_now (\<lambda>now.
     and_then new_uid (\<lambda>uid.
     and_then utc_now (\<lambda>created.
       let name = name_of (hp_kind h) (hp_uid h) (hp_name h) (hp_reason h);
           event = declare_object (KIND T) name
             \<lparr>ev_involved_kind = hp_kind h, ev_involved_name = hp_name h, ev_involved_uid = hp_uid h,
              ev_reason = hp_reason h, ev_message = hp_message h, ev_event_type = hp_event_type h,
              ev_tenant = hp_tenant h, ev_count = 1, ev_first_seen = now, ev_last_seen = now\<rparr> () uid created
       in and_then (create_with_ttl S T event TTL_SECS) (\<lambda>r.
            case r of
              Inl (AlreadyExists _) \<Rightarrow>
                and_then (mutate S T name (\<lambda>e. e\<lparr>spec := (spec e)
                    \<lparr>ev_count := sat_add (ev_count (spec e)) 1, ev_last_seen := now,
                     ev_message := hp_message h\<rparr>\<rparr>)) (\<lambda>_. Done ())
            | _ \<Rightarrow> Done ()))))"

definition all_events ::
  "('b, 'j) store \<Rightarrow> (event_spec, unit, 'b) resource \<Rightarrow> ('b, event list) io" where
  "all_events S T =
     and_then (store_list S T) (\<lambda>r.
       let events = (case r of Inr es \<Rightarrow> es | Inl _ \<Rightarrow> [])
       in Done (sort_key (\<lambda>e. - ev_last_seen (spec e)) events))"

definition events_about ::
  "('b, 'j) store \<Rightarrow> (event_spec, unit, 'b) resource \<Rightarrow> string \<Rightarrow> string \<Rightarrow> string \<Rightarrow> ('b, event list) io" where
  "events_about S T kind uid name =
     and_then (all_events S T) (\<lambda>es.
       Done (filter (\<lambda>e. ev_involved_kind (spec e) = kind \<and>
               (if uid = [] then ev_involved_name (spec e) = name else ev_involved_uid (spec e) = uid)) es))"

record event_query =
  eq_involved_name :: "string option"
  eq_kind :: "string option"
  eq_since :: "string option"

definition event_query_since ::
  "(string \<Rightarrow> string + instant) \<Rightarrow> event_query \<Rightarrow> api_error + instant option" where
  "event_query_since parse_rfc3339 q =
     (case map_option trim (eq_since q) of
        None \<Rightarrow> Inr None
      | Some raw \<Rightarrow>
          if raw = [] then Inr None
          else case parse_rfc3339 raw of
                 Inr t \<Rightarrow> Inr (Some t)
               | Inl e \<Rightarrow> Inl (invalid_field ''since''
                           (''since='' @ str_debug raw @ '' is not an RFC 3339 instant: '' @ e)))"

definition event_query_selects :: "event_query \<Rightarrow> event \<Rightarrow> instant option \<Rightarrow> bool" where
  "event_query_selects q e since \<longleftrightarrow>
     (case eq_involved_name q of None \<Rightarrow> True | Some n \<Rightarrow> ev_involved_name (spec e) = n) \<and>
     (case eq_kind q of None \<Rightarrow> True
      | Some k \<Rightarrow> to_lowercase (ev_involved_kind (spec e)) = to_lowercase k) \<and>
     (case since of None \<Rightarrow> True | Some floor \<Rightarrow> floor \<le> ev_last_seen (spec e))"

section \<open>Facts\<close>

text \<open>An event name is within the bounds of a label as long as the identity leaves room for the kind
  and the reason; the event of an object with a longer identity is refused by the store.\<close>

lemma name_of_length:
  "length (name_of kind uid name reason) =
     length kind + length (if uid = [] then name else uid) + length reason + 2"
  by (simp add: name_of_def Let_def to_lowercase_def)

lemma long_event_name_refused:
  assumes "MAX_NAME < length kind + length (if uid = [] then name else uid) + length reason + 2"
  shows "\<exists>m. check_name (name_of kind uid name reason) DnsLabel = Inl (Invalid m)"
proof -
  have "MAX_NAME < length (name_of kind uid name reason)" using assms by (simp only: name_of_length)
  then show ?thesis by (auto simp: check_name_def name_invalid_def Let_def)
qed

text \<open>Listing is by latest activity, and loses nothing that decoded.\<close>

lemma all_events_sorted:
  "sorted (map (\<lambda>e. - ev_last_seen (spec e)) (sort_key (\<lambda>e. - ev_last_seen (spec e)) es))"
  by simp

end
