(* ===== verification/Capacity_Commit.thy ===== *)
theory Capacity_Commit
  imports Reservation
begin

text \<open>
  The commit that puts a guest on a node (\<open>capacity.rs\<close>, \<open>resources/reservation.rs\<close> and \<open>place\<close> of
  \<open>components/cluster-controller/src/reconcile/placement.rs\<close>): claim, confirm, bind, release. Any
  number of controller replicas run it against one store. A state is what the store holds, and
  the claims whose writers have been told that they hold; a step is one store transaction of one
  writer, so an execution is an interleaving of their transactions. Readings that fail end a
  writer's attempt and are no step.

  A claim may be made from a stale copy of the guest: only the size has to be the stored one, and the
  size of a guest never changes. A guest that is edited keeps its node or is taken off it; writes
  elsewhere in the store only move the revision. The capacity of the nodes is an operator's number and
  stands still here. Settling a migration is not a step of this model; its claim stands in the same
  queue and can be released. \<open>Placement_Refines\<close> shows that the programs of the controllers take
  no other steps.
\<close>

record 'j commit_state =
  kc_vms :: "'j vm list"
  kc_held :: "capacity_reservation list"
  kc_rev :: nat
  kc_ok :: "capacity_reservation set"

text \<open>An object as the store hands it back: first generation, and the revision it was written at.\<close>

definition stored :: "('s, 't) object \<Rightarrow> nat \<Rightarrow> ('s, 't) object" where
  "stored x at = x\<lparr>metadata := (metadata x)\<lparr>md_generation := 1, md_resource_version := dec at\<rparr>\<rparr>"

definition held_names :: "capacity_reservation list \<Rightarrow> string list" where
  "held_names held = map (\<lambda>r. md_name (metadata r)) held"

definition vm_uids :: "'j vm list \<Rightarrow> string list" where
  "vm_uids vms = map (\<lambda>v. md_uid (metadata v)) vms"

definition bind_vm :: "string \<Rightarrow> 'j vm \<Rightarrow> 'j vm" where
  "bind_vm node v = v\<lparr>spec := (spec v)\<lparr>vs_node_name := Some node\<rparr>,
                      status := (status v)\<lparr>vt_placement := None\<rparr>\<rparr>"

definition set_vm :: "'j vm \<Rightarrow> 'j vm list \<Rightarrow> 'j vm list" where
  "set_vm v' vms = map (\<lambda>v. if md_uid (metadata v) = md_uid (metadata v') then v' else v) vms"

inductive commit_step ::
  "'j json_ops \<Rightarrow> (string \<Rightarrow> node_capacity) \<Rightarrow> overcommit \<Rightarrow> 'j commit_state \<Rightarrow> 'j commit_state \<Rightarrow> bool"
  for J :: "'j json_ops" and cap :: "string \<Rightarrow> node_capacity" and oc :: overcommit where
  claim_placement:
    "\<lbrakk>\<forall>w\<in>set (kc_vms S). md_uid (metadata w) = md_uid (metadata v) \<longrightarrow> wanted_by J w = wanted_by J v;
      Suc (kc_rev S) < 2 ^ 63;
      r = stored (for_placement J v node uid now) (Suc (kc_rev S));
      md_name (metadata r) \<notin> set (held_names (kc_held S))\<rbrakk>
     \<Longrightarrow> commit_step J cap oc S
           (S\<lparr>kc_held := kc_held S @ [r], kc_rev := Suc (kc_rev S)\<rparr>)"
| claim_migration:
    "\<lbrakk>Suc (kc_rev S) < 2 ^ 63;
      r = stored (reservation_of J m v node uid now) (Suc (kc_rev S));
      md_name (metadata r) \<notin> set (held_names (kc_held S))\<rbrakk>
     \<Longrightarrow> commit_step J cap oc S
           (S\<lparr>kc_held := kc_held S @ [r], kc_rev := Suc (kc_rev S)\<rparr>)"
| confirm:
    "\<lbrakk>r \<in> set (kc_held S); nst_capacity (status n) = cap (cr_node (spec r));
      confirmed J (Inr n) (Inr (kc_vms S, kc_held S)) r oc = Inr True\<rbrakk>
     \<Longrightarrow> commit_step J cap oc S (S\<lparr>kc_ok := insert r (kc_ok S)\<rparr>)"
| bind:
    "\<lbrakk>r \<in> kc_ok S; r \<in> set (kc_held S); v \<in> set (kc_vms S); vs_node_name (spec v) = None;
      is_placement_of r v; Suc (kc_rev S) < 2 ^ 63\<rbrakk>
     \<Longrightarrow> commit_step J cap oc S
           (S\<lparr>kc_vms := set_vm (bind_vm (cr_node (spec r)) v) (kc_vms S), kc_rev := Suc (kc_rev S)\<rparr>)"
| release:
    "\<lbrakk>r \<in> set (kc_held S)\<rbrakk>
     \<Longrightarrow> commit_step J cap oc S
           (S\<lparr>kc_held := filter (\<lambda>x. md_name (metadata x) \<noteq> md_name (metadata r)) (kc_held S),
              kc_ok := kc_ok S - {r}\<rparr>)"
| vm_created:
    "\<lbrakk>vs_node_name (spec v) = None; md_uid (metadata v) \<notin> set (vm_uids (kc_vms S));
      \<forall>r\<in>set (kc_held S). cr_vm_uid (spec r) \<noteq> md_uid (metadata v)\<rbrakk>
     \<Longrightarrow> commit_step J cap oc S (S\<lparr>kc_vms := v # kc_vms S\<rparr>)"
| vm_deleted:
    "commit_step J cap oc S (S\<lparr>kc_vms := filter (\<lambda>v. md_uid (metadata v) \<noteq> uid) (kc_vms S)\<rparr>)"
| vm_updated:
    "\<lbrakk>v \<in> set (kc_vms S); md_uid (metadata v') = md_uid (metadata v); wanted_by J v' = wanted_by J v;
      vs_node_name (spec v') \<in> {None, vs_node_name (spec v)}\<rbrakk>
     \<Longrightarrow> commit_step J cap oc S (S\<lparr>kc_vms := set_vm v' (kc_vms S)\<rparr>)"
| other_write:
    "kc_rev S \<le> k \<Longrightarrow> commit_step J cap oc S (S\<lparr>kc_rev := k\<rparr>)"

abbreviation commit_steps where
  "commit_steps J cap oc \<equiv> (commit_step J cap oc)\<^sup>*\<^sup>*"

definition on_node :: "string \<Rightarrow> 'j vm list \<Rightarrow> 'j vm list" where
  "on_node node vms = filter (\<lambda>v. vs_node_name (spec v) = Some node) vms"

definition node_allowance :: "(string \<Rightarrow> node_capacity) \<Rightarrow> overcommit \<Rightarrow> string \<Rightarrow> capacity" where
  "node_allowance cap oc node =
     allowance oc \<lparr>vcpus = ncap_vcpus (cap node), mem_mib = ncap_mem_mib (cap node)\<rparr>"

section \<open>One dimension of capacity\<close>

text \<open>Processors and memory are counted alike. The argument below is made for any dimension that adds up
  and subtracts with saturation, and used for both.\<close>

locale dimension =
  fixes dim :: "capacity \<Rightarrow> nat" and top :: nat
  assumes dim_sum: "dim (sum_caps sizes) = min top (\<Sum>s\<leftarrow>sizes. dim s)"
    and dim_minus: "dim (minus_cap a b) = dim a - dim b"
    and dim_fits: "fits_in a b \<Longrightarrow> dim a \<le> dim b"
    and dim_top: "dim a \<le> top"

interpretation dim_vcpus: dimension "\<lambda>c. unat (vcpus c)" "2 ^ 32 - 1"
  by unfold_locales
    (simp_all add: unat_sum_caps unat_sat_sub fits_in_def word_le_nat_alt,
     use unat_le_max [where 'a = 32] in simp)

interpretation dim_mem: dimension "\<lambda>c. unat (mem_mib c)" "2 ^ 64 - 1"
  by unfold_locales
    (simp_all add: unat_sum_caps unat_sat_sub fits_in_def word_le_nat_alt,
     use unat_le_max [where 'a = 64] in simp)

definition used :: "(capacity \<Rightarrow> nat) \<Rightarrow> 'j json_ops \<Rightarrow> string \<Rightarrow> 'j vm list \<Rightarrow> nat" where
  "used dim J node vms = (\<Sum>v\<leftarrow>on_node node vms. dim (wanted_by J v))"

definition claim_bound :: "'j vm list \<Rightarrow> capacity_reservation \<Rightarrow> bool" where
  "claim_bound vms r \<longleftrightarrow>
     (\<exists>v\<in>set vms. is_placement_of r v \<and> vs_node_name (spec v) = Some (cr_node (spec r)))"

text \<open>The claims up to and including \<open>c\<close> on its node whose guest is not bound there: what is still to
  come ahead of everything claimed later.\<close>

definition coming ::
  "(capacity \<Rightarrow> nat) \<Rightarrow> 'j vm list \<Rightarrow> capacity_reservation list \<Rightarrow> capacity_reservation \<Rightarrow> nat" where
  "coming dim vms held c =
     (\<Sum>r\<leftarrow>filter (\<lambda>r. cr_node (spec r) = cr_node (spec c) \<and> made_at r \<le> made_at c
                       \<and> \<not> claim_bound vms r) held. dim (cr_size (spec r)))"

definition queue_ok :: "nat \<Rightarrow> capacity_reservation list \<Rightarrow> bool" where
  "queue_ok at held \<longleftrightarrow>
     distinct (held_names held)
     \<and> (\<forall>r\<in>set held. \<exists>k\<le>at. k < 2 ^ 63 \<and> md_resource_version (metadata r) = dec k)
     \<and> (\<forall>r\<in>set held. cr_claimant (spec r) = ClaimPlacement \<longrightarrow>
          md_name (metadata r) = PLACEMENT_CLAIM_PREFIX @ cr_vm_uid (spec r))"

definition sizes_agree :: "'j json_ops \<Rightarrow> 'j vm list \<Rightarrow> capacity_reservation list \<Rightarrow> bool" where
  "sizes_agree J vms held \<longleftrightarrow>
     (\<forall>r\<in>set held. \<forall>v\<in>set vms. is_placement_of r v \<longrightarrow> cr_size (spec r) = wanted_by J v)"

definition commit_inv ::
  "(capacity \<Rightarrow> nat) \<Rightarrow> 'j json_ops \<Rightarrow> (string \<Rightarrow> node_capacity) \<Rightarrow> overcommit \<Rightarrow> 'j commit_state \<Rightarrow> bool" where
  "commit_inv dim J cap oc S \<longleftrightarrow>
     distinct (vm_uids (kc_vms S)) \<and> queue_ok (kc_rev S) (kc_held S)
     \<and> sizes_agree J (kc_vms S) (kc_held S)
     \<and> (\<forall>node. used dim J node (kc_vms S) \<le> dim (node_allowance cap oc node))
     \<and> kc_ok S \<subseteq> set (kc_held S)
     \<and> (\<forall>c\<in>kc_ok S. 0 < dim (cr_size (spec c)) \<longrightarrow>
          used dim J (cr_node (spec c)) (kc_vms S) + coming dim (kc_vms S) (kc_held S) c
            \<le> dim (node_allowance cap oc (cr_node (spec c))))"

section \<open>What one guest and one claim contribute\<close>

lemma used_eq: "used dim J node vms = (\<Sum>v\<leftarrow>vms. if vs_node_name (spec v) = Some node then dim (wanted_by J v) else 0)"
  unfolding used_def on_node_def by (induction vms) simp_all

lemma wanted_by_bind [simp]: "wanted_by J (bind_vm node v) = wanted_by J v"
  by (simp add: wanted_by_def wanted_by_spec_def bind_vm_def)

lemma bind_vm_simps [simp]:
  "metadata (bind_vm node v) = metadata v" "vs_node_name (spec (bind_vm node v)) = Some node"
  by (simp_all add: bind_vm_def)

lemma vm_uids_set_vm [simp]: "vm_uids (set_vm v' vms) = vm_uids vms"
  by (simp add: vm_uids_def set_vm_def)

lemma set_vm_split:
  assumes "distinct (vm_uids vms)" and "v \<in> set vms" and "md_uid (metadata v') = md_uid (metadata v)"
  obtains xs ys where "vms = xs @ v # ys" and "set_vm v' vms = xs @ v' # ys"
    and "\<And>w. w \<in> set xs \<union> set ys \<Longrightarrow> md_uid (metadata w) \<noteq> md_uid (metadata v)"
proof -
  obtain xs ys where vms: "vms = xs @ v # ys"
    using split_list [OF assms(2)] by blast
  have other: "md_uid (metadata w) \<noteq> md_uid (metadata v)" if "w \<in> set xs \<union> set ys" for w
    using assms(1) that unfolding vms vm_uids_def by (auto simp: image_iff)
  have same: "map (\<lambda>w. if md_uid (metadata w) = md_uid (metadata v') then v' else w) zs = zs"
    if "set zs \<subseteq> set xs \<union> set ys" for zs
    using that other assms(3) by (intro map_idI) auto
  have "set_vm v' vms = xs @ v' # ys"
    unfolding vms set_vm_def using same [of xs] same [of ys] assms(3) by simp
  then show ?thesis using that vms other by blast
qed

lemma used_set_vm:
  assumes "distinct (vm_uids vms)" and "v \<in> set vms" and "md_uid (metadata v') = md_uid (metadata v)"
  shows "used dim J node (set_vm v' vms)
           + (if vs_node_name (spec v) = Some node then dim (wanted_by J v) else 0)
       = used dim J node vms
           + (if vs_node_name (spec v') = Some node then dim (wanted_by J v') else 0)"
  using assms by (rule set_vm_split) (simp add: used_eq)

lemma same_uid:
  "distinct (vm_uids vms) \<Longrightarrow> v \<in> set vms \<Longrightarrow> w \<in> set vms
     \<Longrightarrow> md_uid (metadata w) = md_uid (metadata v) \<Longrightarrow> w = v"
  by (auto simp: vm_uids_def distinct_map inj_on_def)

lemma claim_bound_at:
  assumes "distinct (vm_uids vms)" and "v \<in> set vms" and "is_placement_of r v"
  shows "claim_bound vms r \<longleftrightarrow> vs_node_name (spec v) = Some (cr_node (spec r))"
proof -
  have "w = v" if "w \<in> set vms" "is_placement_of r w" for w
    using same_uid [OF assms(1,2) that(1)] that(2) assms(3) by (simp add: is_placement_of_def)
  then show ?thesis unfolding claim_bound_def using assms(2,3) by blast
qed

lemma claim_bound_set_vm:
  assumes "distinct (vm_uids vms)" and "v \<in> set vms" and "md_uid (metadata v') = md_uid (metadata v)"
  shows "claim_bound (set_vm v' vms) r \<longleftrightarrow>
    (if is_placement_of r v then vs_node_name (spec v') = Some (cr_node (spec r)) else claim_bound vms r)"
  using assms
proof (rule set_vm_split)
  fix xs ys
  assume vms: "vms = xs @ v # ys" and vms': "set_vm v' vms = xs @ v' # ys"
    and other: "\<And>w. w \<in> set xs \<union> set ys \<Longrightarrow> md_uid (metadata w) \<noteq> md_uid (metadata v)"
  have same: "is_placement_of r v' = is_placement_of r v"
    using assms(3) by (simp add: is_placement_of_def)
  have in_set: "v' \<in> set (set_vm v' vms)" by (simp add: vms')
  show ?thesis
  proof (cases "is_placement_of r v")
    case True
    then have "claim_bound (set_vm v' vms) r \<longleftrightarrow> vs_node_name (spec v') = Some (cr_node (spec r))"
      using assms(1) same in_set by (intro claim_bound_at) simp_all
    then show ?thesis using True by simp
  next
    case False
    have "set (set_vm v' vms) = insert v' (set xs \<union> set ys)" "set vms = insert v (set xs \<union> set ys)"
      by (simp_all add: vms') (simp add: vms)
    then show ?thesis unfolding claim_bound_def using same False by simp
  qed
qed

lemma is_placement_of_uid: "md_uid (metadata v') = md_uid (metadata v) \<Longrightarrow> is_placement_of r v' = is_placement_of r v"
  by (simp add: is_placement_of_def)

lemma one_claim_each:
  assumes "queue_ok at held" and "r \<in> set held" and "r' \<in> set held"
    and "is_placement_of r v" and "is_placement_of r' v"
  shows "r' = r"
proof -
  have "md_name (metadata r') = md_name (metadata r)"
    using assms by (simp add: queue_ok_def is_placement_of_def)
  then show ?thesis
    using assms(1-3) by (auto simp: queue_ok_def held_names_def distinct_map inj_on_def)
qed

lemma queue_ok_distinct: "queue_ok at held \<Longrightarrow> distinct held"
  by (simp add: queue_ok_def held_names_def distinct_map)

lemma sum_list_filter_split:
  assumes "distinct xs" and "x \<in> set xs" and "P x"
  shows "(\<Sum>y\<leftarrow>filter P xs. (f y :: nat)) = f x + (\<Sum>y\<leftarrow>filter (\<lambda>y. P y \<and> y \<noteq> x) xs. f y)"
proof -
  obtain as bs where xs: "xs = as @ x # bs" using split_list [OF assms(2)] by blast
  have "filter P as = filter (\<lambda>y. P y \<and> y \<noteq> x) as" "filter P bs = filter (\<lambda>y. P y \<and> y \<noteq> x) bs"
    using assms(1) unfolding xs by (auto intro!: filter_cong)
  then show ?thesis unfolding xs using assms(3) by simp
qed

lemma sum_list_filter_mono:
  "(\<And>x. x \<in> set xs \<Longrightarrow> P x \<Longrightarrow> Q x) \<Longrightarrow> (\<Sum>x\<leftarrow>filter P xs. (f x :: nat)) \<le> (\<Sum>x\<leftarrow>filter Q xs. f x)"
proof (induction xs)
  case (Cons x xs)
  then have "(\<Sum>x\<leftarrow>filter P xs. f x) \<le> (\<Sum>x\<leftarrow>filter Q xs. f x)" by simp
  then show ?case using Cons.prems [of x] by simp
qed simp

section \<open>The claims that are still to come\<close>

lemma coming_refl:
  assumes "queue_ok at held" and "r \<in> set held"
  shows "coming dim vms held r \<le> dim (cr_size (spec r)) + (\<Sum>a\<leftarrow>ahead_of r held. dim (cr_size (spec a)))"
proof -
  let ?P = "\<lambda>x. cr_node (spec x) = cr_node (spec r) \<and> made_at x \<le> made_at r"
  have names: "distinct (map (\<lambda>r. md_name (metadata r)) held)"
    using assms(1) by (simp add: queue_ok_def held_names_def)
  have "coming dim vms held r \<le> (\<Sum>x\<leftarrow>filter ?P held. dim (cr_size (spec x)))"
    unfolding coming_def by (rule sum_list_filter_mono) simp
  also have "\<dots> = dim (cr_size (spec r)) + (\<Sum>x\<leftarrow>filter (\<lambda>x. ?P x \<and> x \<noteq> r) held. dim (cr_size (spec x)))"
    using queue_ok_distinct [OF assms(1)] assms(2) by (rule sum_list_filter_split) simp
  also have "filter (\<lambda>x. ?P x \<and> x \<noteq> r) held = ahead_of r held"
    unfolding ahead_of_eq [OF names assms(2)]
    using made_at_inj [OF names] assms(2)
    by (intro filter_cong refl) (auto simp: inj_on_def order_le_less)
  finally show ?thesis .
qed

lemma coming_le_later:
  assumes "queue_ok at held" and "r \<in> set held" and "made_at c < made_at r"
    and "cr_node (spec c) = cr_node (spec r)" and "\<not> claim_bound vms r"
  shows "coming dim vms held c + dim (cr_size (spec r)) \<le> coming dim vms held r"
proof -
  let ?P = "\<lambda>x. cr_node (spec x) = cr_node (spec r) \<and> made_at x \<le> made_at r \<and> \<not> claim_bound vms x"
  have "coming dim vms held r = dim (cr_size (spec r)) + (\<Sum>x\<leftarrow>filter (\<lambda>x. ?P x \<and> x \<noteq> r) held. dim (cr_size (spec x)))"
    unfolding coming_def using queue_ok_distinct [OF assms(1)] assms(2)
    by (rule sum_list_filter_split) (simp add: assms(5))
  moreover have "coming dim vms held c \<le> (\<Sum>x\<leftarrow>filter (\<lambda>x. ?P x \<and> x \<noteq> r) held. dim (cr_size (spec x)))"
    unfolding coming_def using assms(3,4) by (intro sum_list_filter_mono) auto
  ultimately show ?thesis by simp
qed

text \<open>Binding the guest of \<open>r\<close> takes \<open>r\<close> off the list of what is to come, and nothing else.\<close>

lemma coming_bound:
  assumes "distinct held" and "r \<in> set held" and "made_at r \<le> made_at c"
    and "cr_node (spec c) = cr_node (spec r)" and "\<not> claim_bound vms r"
    and "\<And>x. x \<in> set held \<Longrightarrow> claim_bound vms' x \<longleftrightarrow> claim_bound vms x \<or> x = r"
  shows "coming dim vms' held c + dim (cr_size (spec r)) = coming dim vms held c"
proof -
  let ?P = "\<lambda>x. cr_node (spec x) = cr_node (spec c) \<and> made_at x \<le> made_at c \<and> \<not> claim_bound vms x"
  have "coming dim vms held c = dim (cr_size (spec r)) + (\<Sum>x\<leftarrow>filter (\<lambda>x. ?P x \<and> x \<noteq> r) held. dim (cr_size (spec x)))"
    unfolding coming_def using assms(1,2)
    by (rule sum_list_filter_split) (simp add: assms(3,4,5))
  moreover have "filter (\<lambda>x. ?P x \<and> x \<noteq> r) held
      = filter (\<lambda>x. cr_node (spec x) = cr_node (spec c) \<and> made_at x \<le> made_at c \<and> \<not> claim_bound vms' x) held"
    using assms(6) by (intro filter_cong refl) auto
  ultimately show ?thesis by (simp add: coming_def)
qed

lemma coming_same:
  "(\<And>x. x \<in> set held \<Longrightarrow> cr_node (spec x) = cr_node (spec c) \<Longrightarrow> made_at x \<le> made_at c
      \<Longrightarrow> claim_bound vms' x = claim_bound vms x)
   \<Longrightarrow> coming dim vms' held c = coming dim vms held c"
  unfolding coming_def by (intro arg_cong [where f = sum_list] map_cong filter_cong refl) auto

text \<open>A claim written now comes after all that stand.\<close>

lemma made_at_new:
  assumes "queue_ok at held" and "c \<in> set held" and "Suc at < 2 ^ 63"
    and "md_resource_version (metadata r) = dec (Suc at)"
  shows "made_at c < made_at r"
proof -
  obtain k where "k \<le> at" "k < 2 ^ 63" "md_resource_version (metadata c) = dec k"
    using assms(1,2) by (auto simp: queue_ok_def)
  then show ?thesis
    using assms(3,4) by (simp add: made_at_def parse_i64_dec less_prod_def)
qed

lemma queue_ok_new:
  assumes "queue_ok at held" and "Suc at < 2 ^ 63"
    and "md_resource_version (metadata r) = dec (Suc at)"
    and "md_name (metadata r) \<notin> set (held_names held)"
    and "cr_claimant (spec r) = ClaimPlacement \<Longrightarrow>
           md_name (metadata r) = PLACEMENT_CLAIM_PREFIX @ cr_vm_uid (spec r)"
  shows "queue_ok (Suc at) (held @ [r])"
proof -
  have "\<exists>k\<le>Suc at. k < 2 ^ 63 \<and> md_resource_version (metadata x) = dec k" if "x \<in> set held" for x
    using assms(1) that unfolding queue_ok_def by (meson le_Suc_eq)
  then show ?thesis
    using assms by (auto simp: queue_ok_def held_names_def)
qed

lemma queue_ok_later: "queue_ok at held \<Longrightarrow> at \<le> k \<Longrightarrow> queue_ok k held"
  unfolding queue_ok_def by (meson le_trans)

lemma queue_ok_filter: "queue_ok at held \<Longrightarrow> queue_ok at (filter P held)"
  by (auto simp: queue_ok_def held_names_def distinct_map_filter)

section \<open>Every step keeps the books\<close>

lemma commit_invD:
  assumes "commit_inv dim J cap oc S"
  shows "distinct (vm_uids (kc_vms S))" "queue_ok (kc_rev S) (kc_held S)"
    "sizes_agree J (kc_vms S) (kc_held S)"
    "used dim J node (kc_vms S) \<le> dim (node_allowance cap oc node)"
    "kc_ok S \<subseteq> set (kc_held S)"
    "c \<in> kc_ok S \<Longrightarrow> 0 < dim (cr_size (spec c)) \<Longrightarrow>
       used dim J (cr_node (spec c)) (kc_vms S) + coming dim (kc_vms S) (kc_held S) c
         \<le> dim (node_allowance cap oc (cr_node (spec c)))"
  using assms by (simp_all add: commit_inv_def)

lemma sizes_agree_set_vm:
  "sizes_agree J vms held \<Longrightarrow> v \<in> set vms \<Longrightarrow> md_uid (metadata v') = md_uid (metadata v) \<Longrightarrow> wanted_by J v' = wanted_by J v
     \<Longrightarrow> sizes_agree J (set_vm v' vms) held"
  by (auto simp: sizes_agree_def set_vm_def is_placement_of_def)

lemma claim_bound_unbound:
  assumes "distinct (vm_uids vms)" and "v \<in> set vms" and "vs_node_name (spec v) = None" and "is_placement_of r v"
  shows "\<not> claim_bound vms r"
  using claim_bound_at [OF assms(1,2,4)] assms(3) by simp

text \<open>A claim taken: it is last in the queue, so nobody ahead of it notices.\<close>

lemma inv_claim:
  assumes inv: "commit_inv dim J cap oc S" and at: "Suc (kc_rev S) < 2 ^ 63"
    and r: "md_resource_version (metadata r) = dec (Suc (kc_rev S))"
      "md_name (metadata r) \<notin> set (held_names (kc_held S))"
      "cr_claimant (spec r) = ClaimPlacement \<Longrightarrow>
         md_name (metadata r) = PLACEMENT_CLAIM_PREFIX @ cr_vm_uid (spec r)"
      "\<And>v. v \<in> set (kc_vms S) \<Longrightarrow> is_placement_of r v \<Longrightarrow> cr_size (spec r) = wanted_by J v"
  shows "commit_inv dim J cap oc (S\<lparr>kc_held := kc_held S @ [r], kc_rev := Suc (kc_rev S)\<rparr>)"
proof -
  have later: "coming dim (kc_vms S) (kc_held S @ [r]) c = coming dim (kc_vms S) (kc_held S) c"
    if "c \<in> set (kc_held S)" for c
    using made_at_new [OF commit_invD(2) [OF inv] that at r(1)] by (auto simp: coming_def)
  have "sizes_agree J (kc_vms S) (kc_held S @ [r])"
    using commit_invD(3) [OF inv] r(4) by (auto simp: sizes_agree_def)
  moreover have "queue_ok (Suc (kc_rev S)) (kc_held S @ [r])"
    by (rule queue_ok_new [OF commit_invD(2) [OF inv] at r(1,2,3)])
  ultimately show ?thesis
    using inv later by (auto simp: commit_inv_def)
qed

text \<open>A claim confirmed: with everything ahead of it and everything bound, it fits.\<close>

lemma fits_behind:
  fixes d a u b m :: nat
  assumes "d \<le> a - min m u - min m b" and "0 < d" and "a \<le> m"
  shows "u + (d + b) \<le> a"
  using assms by linarith

context dimension
begin

lemma holds_fits:
  assumes "queue_ok at held" and "r \<in> set held" and "0 < dim (cr_size (spec r))"
    and holds: "reservation_holds (free_on J (cr_node (spec r)) (cap (cr_node (spec r))) vms oc) r held"
  shows "used dim J (cr_node (spec r)) vms + coming dim vms held r
     \<le> dim (node_allowance cap oc (cr_node (spec r)))"
proof -
  have "dim (cr_size (spec r)) \<le> dim (node_allowance cap oc (cr_node (spec r)))
      - min top (used dim J (cr_node (spec r)) vms)
      - min top (\<Sum>a\<leftarrow>ahead_of r held. dim (cr_size (spec a)))"
    using dim_fits [OF holds [unfolded reservation_holds_def Let_def]]
    by (simp add: dim_minus dim_sum free_on_def bound_on_def node_allowance_def used_def on_node_def o_def)
  from fits_behind [OF this assms(3) dim_top] coming_refl [OF assms(1,2), of dim vms]
  show ?thesis by linarith
qed

lemma inv_confirm:
  assumes inv: "commit_inv dim J cap oc S" and r: "r \<in> set (kc_held S)"
    and "nst_capacity (status n) = cap (cr_node (spec r))"
    and "confirmed J (Inr n) (Inr (kc_vms S, kc_held S)) r oc = Inr True"
  shows "commit_inv dim J cap oc (S\<lparr>kc_ok := insert r (kc_ok S)\<rparr>)"
proof -
  have "reservation_holds (free_on J (cr_node (spec r)) (cap (cr_node (spec r))) (kc_vms S) oc) r (kc_held S)"
    using assms(3,4) by (simp add: confirmed_def Let_def)
  from holds_fits [where cap = cap, OF commit_invD(2) [OF inv] r _ this] show ?thesis
    using inv r by (simp add: commit_inv_def)
qed

text \<open>A guest bound under its confirmed claim: what was to come has come.\<close>

lemma inv_bind:
  assumes inv: "commit_inv dim J cap oc S"
    and r: "r \<in> kc_ok S" and v: "v \<in> set (kc_vms S)" "vs_node_name (spec v) = None" "is_placement_of r v"
  shows "commit_inv dim J cap oc
    (S\<lparr>kc_vms := set_vm (bind_vm (cr_node (spec r)) v) (kc_vms S), kc_rev := Suc (kc_rev S)\<rparr>)"
proof -
  let ?vms = "set_vm (bind_vm (cr_node (spec r)) v) (kc_vms S)"
  note uids = commit_invD(1) [OF inv] and q = commit_invD(2) [OF inv] and sz = commit_invD(3) [OF inv]
  have held: "r \<in> set (kc_held S)" using commit_invD(5) [OF inv] r by blast
  have size_r: "cr_size (spec r) = wanted_by J v"
    using sz held v by (simp add: sizes_agree_def)
  have free: "\<not> claim_bound (kc_vms S) r" using claim_bound_unbound [OF uids v] .
  have bound: "claim_bound ?vms x \<longleftrightarrow> claim_bound (kc_vms S) x \<or> x = r" if "x \<in> set (kc_held S)" for x
    using claim_bound_set_vm [OF uids v(1), of "bind_vm (cr_node (spec r)) v" x]
      one_claim_each [OF q held that v(3)] claim_bound_unbound [OF uids v(1,2), of x] v(3) by auto
  have used: "used dim J node ?vms = used dim J node (kc_vms S)
      + (if node = cr_node (spec r) then dim (cr_size (spec r)) else 0)" for node
    using used_set_vm [OF uids v(1), of "bind_vm (cr_node (spec r)) v" dim J node] v(2) size_r by auto
  have room: "used dim J (cr_node (spec r)) (kc_vms S) + coming dim (kc_vms S) (kc_held S) r
      \<le> dim (node_allowance cap oc (cr_node (spec r)))" if "0 < dim (cr_size (spec r))"
    using commit_invD(6) [OF inv r that] .
  have own: "dim (cr_size (spec r)) \<le> coming dim (kc_vms S) (kc_held S) r"
    using coming_bound [OF queue_ok_distinct [OF q] held order_refl refl free bound, of dim] by linarith
  have "used dim J node ?vms \<le> dim (node_allowance cap oc node)" for node
    using commit_invD(4) [OF inv, of node] room own unfolding used
    by (cases "dim (cr_size (spec r)) = 0") auto
  moreover have "used dim J (cr_node (spec c)) ?vms + coming dim ?vms (kc_held S) c
      \<le> dim (node_allowance cap oc (cr_node (spec c)))" if c: "c \<in> kc_ok S" "0 < dim (cr_size (spec c))" for c
  proof (cases "cr_node (spec c) = cr_node (spec r)")
    case False
    then have "coming dim ?vms (kc_held S) c = coming dim (kc_vms S) (kc_held S) c"
      using bound by (intro coming_same) auto
    then show ?thesis using commit_invD(6) [OF inv c] False unfolding used by simp
  next
    case True
    show ?thesis
    proof (cases "made_at r \<le> made_at c")
      case True
      with \<open>cr_node (spec c) = cr_node (spec r)\<close> show ?thesis
        using coming_bound [OF queue_ok_distinct [OF q] held True _ free bound, of dim]
          commit_invD(6) [OF inv c] unfolding used by simp
    next
      case False
      then have before: "made_at c < made_at r" by simp
      then have "coming dim ?vms (kc_held S) c = coming dim (kc_vms S) (kc_held S) c"
        using bound by (intro coming_same) auto
      then show ?thesis
        using coming_le_later [OF q held before True free, of dim] room
          commit_invD(6) [OF inv c] True unfolding used by (cases "dim (cr_size (spec r)) = 0") auto
    qed
  qed
  ultimately show ?thesis
    using inv sizes_agree_set_vm [OF sz v(1)] by (simp add: commit_inv_def queue_ok_later [of "kc_rev S"])
qed

text \<open>A guest that leaves its node, by a deletion or by an unbinding. Its claim, if it still stands, is
  to come again; it takes no more than the guest gives back.\<close>

lemma leave_fits:
  assumes "queue_ok at held" and "distinct (vm_uids vms)" and "sizes_agree J vms held" and v: "v \<in> set vms"
    and used': "\<And>node. used dim J node vms'
      + (if vs_node_name (spec v) = Some node then dim (wanted_by J v) else 0) = used dim J node vms"
    and bound': "\<And>x. claim_bound vms' x \<longleftrightarrow> claim_bound vms x \<and> \<not> is_placement_of x v"
  shows "used dim J (cr_node (spec c)) vms' + coming dim vms' held c
     \<le> used dim J (cr_node (spec c)) vms + coming dim vms held c"
proof (cases "\<exists>r\<in>set held. is_placement_of r v \<and> claim_bound vms r
    \<and> cr_node (spec r) = cr_node (spec c) \<and> made_at r \<le> made_at c")
  case False
  then have "coming dim vms' held c = coming dim vms held c"
    using bound' by (intro coming_same) auto
  then show ?thesis using used' [of "cr_node (spec c)"] by linarith
next
  case True
  then obtain r where r: "r \<in> set held" "is_placement_of r v" "claim_bound vms r"
    "cr_node (spec c) = cr_node (spec r)" "made_at r \<le> made_at c" by auto
  have "vs_node_name (spec v) = Some (cr_node (spec c))"
    using claim_bound_at [OF assms(2) v r(2)] r(3,4) by simp
  moreover have "dim (cr_size (spec r)) = dim (wanted_by J v)"
    using assms(3) r(1,2) v by (simp add: sizes_agree_def)
  moreover have "coming dim vms held c + dim (cr_size (spec r)) = coming dim vms' held c"
  proof (rule coming_bound [OF queue_ok_distinct [OF assms(1)] r(1,5,4)])
    show "\<not> claim_bound vms' r" using bound' [of r] r(2) by simp
    show "claim_bound vms x \<longleftrightarrow> claim_bound vms' x \<or> x = r" if "x \<in> set held" for x
      using bound' [of x] one_claim_each [OF assms(1) r(1) that r(2)] r(2,3) by blast
  qed
  ultimately show ?thesis using used' [of "cr_node (spec c)"] by simp
qed

lemma inv_leave:
  assumes inv: "commit_inv dim J cap oc S" and v: "v \<in> set (kc_vms S)"
    and used': "\<And>node. used dim J node vms'
      + (if vs_node_name (spec v) = Some node then dim (wanted_by J v) else 0) = used dim J node (kc_vms S)"
    and bound': "\<And>x. claim_bound vms' x \<longleftrightarrow> claim_bound (kc_vms S) x \<and> \<not> is_placement_of x v"
    and "distinct (vm_uids vms')" and "sizes_agree J vms' (kc_held S)"
  shows "commit_inv dim J cap oc (S\<lparr>kc_vms := vms'\<rparr>)"
proof -
  note fits = leave_fits [OF commit_invD(2,1,3) [OF inv] v used' bound']
  have "used dim J node vms' \<le> dim (node_allowance cap oc node)" for node
    using used' [of node] commit_invD(4) [OF inv, of node] by linarith
  moreover have "used dim J (cr_node (spec c)) vms' + coming dim vms' (kc_held S) c
      \<le> dim (node_allowance cap oc (cr_node (spec c)))" if "c \<in> kc_ok S" "0 < dim (cr_size (spec c))" for c
    using fits [of c] commit_invD(6) [OF inv that] by linarith
  ultimately show ?thesis using inv assms(5,6) by (simp add: commit_inv_def)
qed

lemma inv_touch:
  assumes inv: "commit_inv dim J cap oc S" and v: "v \<in> set (kc_vms S)"
    and v': "md_uid (metadata v') = md_uid (metadata v)" "wanted_by J v' = wanted_by J v"
      "vs_node_name (spec v') = vs_node_name (spec v)"
  shows "commit_inv dim J cap oc (S\<lparr>kc_vms := set_vm v' (kc_vms S)\<rparr>)"
proof -
  note uids = commit_invD(1) [OF inv]
  have "used dim J node (set_vm v' (kc_vms S)) = used dim J node (kc_vms S)" for node
    using used_set_vm [OF uids v v'(1), of dim J node] by (simp add: v'(2,3) split: if_splits)
  moreover have "claim_bound (set_vm v' (kc_vms S)) x = claim_bound (kc_vms S) x" for x
    using claim_bound_set_vm [OF uids v v'(1), of x] claim_bound_at [OF uids v, of x] v'(3) by simp
  then have "coming dim (set_vm v' (kc_vms S)) (kc_held S) c = coming dim (kc_vms S) (kc_held S) c" for c
    by (intro coming_same) simp
  ultimately show ?thesis
    using inv sizes_agree_set_vm [OF commit_invD(3) [OF inv] v v'(1,2)] by (simp add: commit_inv_def)
qed

lemma inv_unbind:
  assumes inv: "commit_inv dim J cap oc S" and v: "v \<in> set (kc_vms S)"
    and v': "md_uid (metadata v') = md_uid (metadata v)" "wanted_by J v' = wanted_by J v"
      "vs_node_name (spec v') = None"
  shows "commit_inv dim J cap oc (S\<lparr>kc_vms := set_vm v' (kc_vms S)\<rparr>)"
proof (rule inv_leave [OF inv v])
  note uids = commit_invD(1) [OF inv]
  show "used dim J node (set_vm v' (kc_vms S))
      + (if vs_node_name (spec v) = Some node then dim (wanted_by J v) else 0) = used dim J node (kc_vms S)" for node
    using used_set_vm [OF uids v v'(1), of dim J node] v'(3) by simp
  show "claim_bound (set_vm v' (kc_vms S)) x \<longleftrightarrow> claim_bound (kc_vms S) x \<and> \<not> is_placement_of x v" for x
    using claim_bound_set_vm [OF uids v v'(1), of x] v'(3) by simp
qed (use commit_invD(1,3) [OF inv] v v' in \<open>simp_all add: sizes_agree_set_vm\<close>)

lemma inv_delete:
  assumes inv: "commit_inv dim J cap oc S"
  shows "commit_inv dim J cap oc (S\<lparr>kc_vms := filter (\<lambda>v. md_uid (metadata v) \<noteq> uid) (kc_vms S)\<rparr>)"
    (is "commit_inv dim J cap oc (S\<lparr>kc_vms := ?vms\<rparr>)")
proof (cases "\<exists>v\<in>set (kc_vms S). md_uid (metadata v) = uid")
  case False
  then have "?vms = kc_vms S" by (intro filter_True) simp
  then show ?thesis using inv by simp
next
  case True
  then obtain v where v: "v \<in> set (kc_vms S)" and uid: "md_uid (metadata v) = uid" by blast
  show ?thesis
  proof (rule inv_leave [OF inv v])
    show "used dim J node ?vms
        + (if vs_node_name (spec v) = Some node then dim (wanted_by J v) else 0) = used dim J node (kc_vms S)" for node
    proof (rule set_vm_split [OF commit_invD(1) [OF inv] v refl])
      fix xs ys
      assume vms: "kc_vms S = xs @ v # ys"
        and other: "\<And>w. w \<in> set xs \<union> set ys \<Longrightarrow> md_uid (metadata w) \<noteq> md_uid (metadata v)"
      have "filter (\<lambda>v. md_uid (metadata v) \<noteq> uid) xs = xs" "filter (\<lambda>v. md_uid (metadata v) \<noteq> uid) ys = ys"
        using other uid by (auto intro!: filter_True)
      then show ?thesis by (simp add: vms uid used_eq)
    qed
    show "claim_bound ?vms x \<longleftrightarrow> claim_bound (kc_vms S) x \<and> \<not> is_placement_of x v" for x
      using uid by (auto simp: claim_bound_def is_placement_of_def)
    show "distinct (vm_uids ?vms)"
      using commit_invD(1) [OF inv] by (simp add: vm_uids_def distinct_map_filter)
    show "sizes_agree J ?vms (kc_held S)"
      using commit_invD(3) [OF inv] by (simp add: sizes_agree_def)
  qed
qed

lemma inv_create:
  assumes inv: "commit_inv dim J cap oc S" and "vs_node_name (spec v) = None"
    and "md_uid (metadata v) \<notin> set (vm_uids (kc_vms S))"
    and "\<forall>r\<in>set (kc_held S). cr_vm_uid (spec r) \<noteq> md_uid (metadata v)"
  shows "commit_inv dim J cap oc (S\<lparr>kc_vms := v # kc_vms S\<rparr>)"
proof -
  have "used dim J node (v # kc_vms S) = used dim J node (kc_vms S)" for node
    using assms(2) by (simp add: used_eq)
  moreover have "claim_bound (v # kc_vms S) r = claim_bound (kc_vms S) r" for r
    using assms(2) by (simp add: claim_bound_def)
  then have "coming dim (v # kc_vms S) (kc_held S) c = coming dim (kc_vms S) (kc_held S) c" for c
    by (intro coming_same) simp
  moreover have "sizes_agree J (v # kc_vms S) (kc_held S)"
    using commit_invD(3) [OF inv] assms(4) by (auto simp: sizes_agree_def is_placement_of_def)
  ultimately show ?thesis
    using inv assms(3) by (simp add: commit_inv_def vm_uids_def)
qed

lemma inv_release:
  assumes inv: "commit_inv dim J cap oc S" and r: "r \<in> set (kc_held S)"
  shows "commit_inv dim J cap oc
    (S\<lparr>kc_held := filter (\<lambda>x. md_name (metadata x) \<noteq> md_name (metadata r)) (kc_held S),
       kc_ok := kc_ok S - {r}\<rparr>)" (is "commit_inv dim J cap oc (S\<lparr>kc_held := ?held, kc_ok := _\<rparr>)")
proof -
  have "x = r" if "x \<in> set (kc_held S)" "md_name (metadata x) = md_name (metadata r)" for x
    using commit_invD(2) [OF inv] that r by (auto simp: queue_ok_def held_names_def distinct_map inj_on_def)
  then have "kc_ok S - {r} \<subseteq> set ?held"
    using commit_invD(5) [OF inv] by auto
  moreover have "coming dim (kc_vms S) ?held c \<le> coming dim (kc_vms S) (kc_held S) c" for c
    unfolding coming_def filter_filter by (rule sum_list_filter_mono) simp
  then have "used dim J (cr_node (spec c)) (kc_vms S) + coming dim (kc_vms S) ?held c
      \<le> dim (node_allowance cap oc (cr_node (spec c)))" if "c \<in> kc_ok S" "0 < dim (cr_size (spec c))" for c
    using commit_invD(6) [OF inv that] by (meson add_left_mono le_trans)
  moreover have "sizes_agree J (kc_vms S) ?held"
    using commit_invD(3) [OF inv] by (simp add: sizes_agree_def)
  moreover have "queue_ok (kc_rev S) ?held"
    by (rule queue_ok_filter [OF commit_invD(2) [OF inv]])
  ultimately show ?thesis using inv by (simp add: commit_inv_def)
qed

end

lemma stored_simps [simp]:
  "spec (stored x at) = spec x" "md_name (metadata (stored x at)) = md_name (metadata x)"
  "md_resource_version (metadata (stored x at)) = dec at" "status (stored x at) = status x"
  by (simp_all add: stored_def)

lemma for_placement_simps [simp]:
  "md_name (metadata (for_placement J v node uid now)) = PLACEMENT_CLAIM_PREFIX @ md_uid (metadata v)"
  "cr_vm_uid (spec (for_placement J v node uid now)) = md_uid (metadata v)"
  "cr_size (spec (for_placement J v node uid now)) = wanted_by J v"
  "cr_claimant (spec (reservation_of J m v node uid now)) = ClaimMigration"
  by (simp_all add: for_placement_def reservation_of_def Let_def declare_object_def object_new_def cr_size_def)

context dimension
begin

lemma step_inv: "commit_step J cap oc S S' \<Longrightarrow> commit_inv dim J cap oc S \<Longrightarrow> commit_inv dim J cap oc S'"
proof (induction rule: commit_step.induct)
  case (claim_placement S v r node uid now)
  have "cr_size (spec r) = wanted_by J w" if "w \<in> set (kc_vms S)" "is_placement_of r w" for w
    using claim_placement.hyps(1,3) that by (simp add: is_placement_of_def)
  then show ?case
    using claim_placement by (intro inv_claim) simp_all
next
  case (claim_migration S r m v node uid now)
  then show ?case by (intro inv_claim) (simp_all add: is_placement_of_def)
next
  case (vm_updated v S v')
  then show ?case
    using inv_touch [OF vm_updated.prems vm_updated.hyps(1-3)] inv_unbind [OF vm_updated.prems vm_updated.hyps(1-3)]
    by auto
next
  case (other_write S k)
  then show ?case by (simp add: commit_inv_def queue_ok_later [of "kc_rev S"])
qed (auto intro: inv_confirm inv_bind inv_release inv_create inv_delete)

lemma steps_inv: "commit_steps J cap oc S S' \<Longrightarrow> commit_inv dim J cap oc S \<Longrightarrow> commit_inv dim J cap oc S'"
  by (induction rule: rtranclp_induct) (auto intro: step_inv)

end

section \<open>No interleaving overbooks a node\<close>

text \<open>C6: Start with no claim standing, every guest known by its own uid, and no node holding more than its
  allowance. Then whatever claims, confirmations, bindings, releases, creations and deletions any
  number of writers interleave, in every state they reach the guests bound to a node together want
  no more processors and no more memory than the allowance of that node. The sums are taken over
  the natural numbers, so no saturation or wrap-around hides an excess.\<close>

theorem placements_never_overbook:
  assumes "commit_steps J cap oc S0 S"
    and "kc_held S0 = []" and "kc_ok S0 = {}" and "distinct (vm_uids (kc_vms S0))"
    and "\<And>node. (\<Sum>v\<leftarrow>on_node node (kc_vms S0). unat (vcpus (wanted_by J v)))
                  \<le> unat (vcpus (node_allowance cap oc node))"
    and "\<And>node. (\<Sum>v\<leftarrow>on_node node (kc_vms S0). unat (mem_mib (wanted_by J v)))
                  \<le> unat (mem_mib (node_allowance cap oc node))"
  shows "(\<Sum>v\<leftarrow>on_node node (kc_vms S). unat (vcpus (wanted_by J v)))
           \<le> unat (vcpus (node_allowance cap oc node))
       \<and> (\<Sum>v\<leftarrow>on_node node (kc_vms S). unat (mem_mib (wanted_by J v)))
           \<le> unat (mem_mib (node_allowance cap oc node))"
proof -
  have start: "distinct (vm_uids (kc_vms S0))" "queue_ok (kc_rev S0) (kc_held S0)"
    "sizes_agree J (kc_vms S0) (kc_held S0)"
    using assms(2,4) by (simp_all add: queue_ok_def sizes_agree_def held_names_def)
  have "commit_inv (\<lambda>c. unat (vcpus c)) J cap oc S0"
    using start assms(3,5) by (simp add: commit_inv_def used_def)
  from commit_invD(4) [OF dim_vcpus.steps_inv [OF assms(1) this], of node]
  have "(\<Sum>v\<leftarrow>on_node node (kc_vms S). unat (vcpus (wanted_by J v)))
      \<le> unat (vcpus (node_allowance cap oc node))" by (simp add: used_def)
  moreover have "commit_inv (\<lambda>c. unat (mem_mib c)) J cap oc S0"
    using start assms(3,6) by (simp add: commit_inv_def used_def)
  from commit_invD(4) [OF dim_mem.steps_inv [OF assms(1) this], of node]
  have "(\<Sum>v\<leftarrow>on_node node (kc_vms S). unat (mem_mib (wanted_by J v)))
      \<le> unat (mem_mib (node_allowance cap oc node))" by (simp add: used_def)
  ultimately show ?thesis by simp
qed

definition race_start :: "json commit_state" where
  "race_start = \<lparr>kc_vms = [sample_vm ''a'' 2 3000, sample_vm ''b'' 2 3000], kc_held = [], kc_rev = 7, kc_ok = {}\<rparr>"

definition race_claim :: capacity_reservation where
  "race_claim = stored (for_placement tree_ops (sample_vm ''a'' 2 3000) ''n1'' ''r1'' 1000) 8"

definition race_bound :: "json commit_state" where
  "race_bound = \<lparr>kc_vms = set_vm (bind_vm ''n1'' (sample_vm ''a'' 2 3000)) (kc_vms race_start),
     kc_held = [race_claim], kc_rev = 9, kc_ok = {race_claim}\<rparr>"

lemma sample_allowance:
  "allowance overcommit_default \<lparr>vcpus = 1, mem_mib = 4096\<rparr> = \<lparr>vcpus = 4, mem_mib = 4096\<rparr>"
  by (simp add: allowance_default_eq)

lemma race_confirmed:
  "confirmed tree_ops (Inr (sample_node ''n1'' 1 4096)) (Inr (kc_vms race_start, [race_claim])) race_claim
     overcommit_default = Inr True"
proof -
  have wants: "wanted_by tree_ops (sample_vm ''a'' 2 3000) = \<lparr>vcpus = 2, mem_mib = 3000\<rparr>"
    by (simp add: sample_wanted)
  have "cr_size (spec race_claim) = \<lparr>vcpus = 2, mem_mib = 3000\<rparr>" "ahead_of race_claim [race_claim] = []"
    by (simp_all add: race_claim_def wants ahead_of_def)
  moreover have "bound_on tree_ops node (kc_vms race_start) = capacity_default" for node
    by (simp add: bound_on_def race_start_def sample_defs sum_caps_def)
  moreover have "nst_capacity (status (sample_node ''n1'' 1 4096)) = sample_capacity 1 4096"
    by (simp add: sample_node_def declare_object_def object_new_def)
  ultimately show ?thesis
    by (simp add: confirmed_def free_on_def sample_capacity_def sample_allowance reservation_holds_def
        sum_caps_def capacity_default_def minus_cap_def fits_in_def sat_sub_def)
qed

lemma race_runs: "commit_steps tree_ops (\<lambda>_. sample_capacity 1 4096) overcommit_default race_start race_bound"
proof -
  let ?step = "commit_step tree_ops (\<lambda>_. sample_capacity 1 4096) overcommit_default"
  let ?S1 = "race_start\<lparr>kc_held := kc_held race_start @ [race_claim], kc_rev := Suc (kc_rev race_start)\<rparr>"
  let ?S2 = "?S1\<lparr>kc_ok := insert race_claim (kc_ok ?S1)\<rparr>"
  have s1: "?step race_start ?S1"
    by (rule claim_placement [where v = "sample_vm ''a'' 2 3000" and node = "''n1''" and uid = "''r1''" and now = 1000])
      (simp_all add: race_start_def race_claim_def sample_defs held_names_def)
  have s2: "?step ?S1 ?S2"
    by (rule confirm [where n = "sample_node ''n1'' 1 4096"])
      (use race_confirmed in \<open>simp_all add: race_start_def sample_defs\<close>)
  have s3: "?step ?S2 race_bound"
  proof -
    have node: "cr_node (spec race_claim) = ''n1''"
      by (simp add: race_claim_def for_placement_def Let_def declare_object_def object_new_def)
    have "race_bound = ?S2\<lparr>kc_vms := set_vm (bind_vm (cr_node (spec race_claim)) (sample_vm ''a'' 2 3000)) (kc_vms ?S2),
        kc_rev := Suc (kc_rev ?S2)\<rparr>"
      by (simp add: race_bound_def race_start_def node)
    moreover have "is_placement_of race_claim (sample_vm ''a'' 2 3000)"
      by (simp add: is_placement_of_def race_claim_def for_placement_def Let_def declare_object_def object_new_def)
    ultimately show ?thesis
      using bind [of race_claim ?S2 "sample_vm ''a'' 2 3000" tree_ops _ overcommit_default]
      by (simp add: race_start_def sample_defs)
  qed
  from s1 s2 s3 show ?thesis
    by (meson rtranclp.rtrancl_into_rtrancl rtranclp.rtrancl_refl)
qed

theorem placements_never_overbook_witness:
  "(\<Sum>v\<leftarrow>on_node ''n1'' (kc_vms race_bound). unat (mem_mib (wanted_by tree_ops v))) = 3000
   \<and> (\<Sum>v\<leftarrow>on_node ''n1'' (kc_vms race_bound). unat (mem_mib (wanted_by tree_ops v)))
       \<le> unat (mem_mib (node_allowance (\<lambda>_. sample_capacity 1 4096) overcommit_default ''n1''))"
proof -
  have "on_node node (kc_vms race_start) = []" for node
    by (simp add: on_node_def race_start_def sample_defs)
  then have "(\<Sum>v\<leftarrow>on_node ''n1'' (kc_vms race_bound). unat (mem_mib (wanted_by tree_ops v)))
       \<le> unat (mem_mib (node_allowance (\<lambda>_. sample_capacity 1 4096) overcommit_default ''n1''))"
    using placements_never_overbook [OF race_runs, of "''n1''"]
    by (simp add: race_start_def vm_uids_def sample_defs)
  moreover have "on_node ''n1'' (kc_vms race_bound) = [bind_vm ''n1'' (sample_vm ''a'' 2 3000)]"
    by (simp add: race_bound_def race_start_def set_vm_def on_node_def sample_defs bind_vm_def)
  ultimately show ?thesis by (simp add: sample_wanted)
qed

end
