(* ===== verification/Placement_Program.thy ===== *)
theory Placement_Program
  imports Events Capacity_Commit
begin

text \<open>
  The store half of a placement: \<open>claim_holds\<close> and \<open>release\<close> of \<open>capacity.rs\<close>, \<open>claim\<close>,
  \<open>note_vm_pending\<close> and the commit at the end of \<open>place\<close> in
  \<open>components/cluster-controller/src/reconcile/placement.rs\<close>, as programs over the store. Metrics and
  log lines are left out. An \<open>anyhow\<close> error is the text it prints.
\<close>

definition vm_resource ::
  "(instant \<Rightarrow> string) \<Rightarrow> ('j vm \<Rightarrow> string + 'b) \<Rightarrow> ('b \<Rightarrow> string + 'j vm) \<Rightarrow>
   ('j vm_spec, vm_status, 'b) resource" where
  "vm_resource rfc tv fs =
     \<lparr>RESOURCE = ''vms'', KIND = ''Vm'', NAME_SHAPE = DnsLabel,
      settle = vm_settle rfc, to_vec = tv, from_slice = fs\<rparr>"

definition node_resource ::
  "(node \<Rightarrow> string + 'b) \<Rightarrow> ('b \<Rightarrow> string + node) \<Rightarrow> (node_spec, node_status, 'b) resource" where
  "node_resource tv fs =
     \<lparr>RESOURCE = ''nodes'', KIND = ''Node'', NAME_SHAPE = DnsLabel,
      settle = (\<lambda>_ obj. obj), to_vec = tv, from_slice = fs\<rparr>"

definition reservation_resource ::
  "(capacity_reservation \<Rightarrow> string + 'b) \<Rightarrow> ('b \<Rightarrow> string + capacity_reservation) \<Rightarrow>
   (capacity_reservation_spec, unit, 'b) resource" where
  "reservation_resource tv fs =
     \<lparr>RESOURCE = ''capacityreservations'', KIND = ''CapacityReservation'', NAME_SHAPE = Dotted,
      settle = (\<lambda>_ obj. obj), to_vec = tv, from_slice = fs\<rparr>"

text \<open>The resource types a placement touches.\<close>

record ('j, 'b) placement_types =
  pt_vm :: "('j vm_spec, vm_status, 'b) resource"
  pt_node :: "(node_spec, node_status, 'b) resource"
  pt_claim :: "(capacity_reservation_spec, unit, 'b) resource"
  pt_event :: "(event_spec, unit, 'b) resource"

definition claim_holds ::
  "('b, 'j) store \<Rightarrow> ('j, 'b) placement_types \<Rightarrow> capacity_reservation \<Rightarrow> overcommit \<Rightarrow>
   ('b, string + bool) io" where
  "claim_holds S P mine oc =
     and_then (store_get S (pt_node P) (cr_node (spec mine))) (\<lambda>nd.
     and_then (list2 S (pt_vm P) (pt_claim P)) (\<lambda>seen.
       Done (confirmed (st_json S) (map_sum store_error_display id nd)
               (map_sum store_error_display id seen) mine oc)))"

definition release ::
  "('b, 'j) store \<Rightarrow> ('j, 'b) placement_types \<Rightarrow> capacity_reservation \<Rightarrow> ('b, unit) io" where
  "release S P mine =
     and_then (delete_if S (pt_claim P) (md_name (metadata mine)) (md_resource_version (metadata mine)))
       (\<lambda>_. Done ())"

datatype claimed = Fresh capacity_reservation | Standing capacity_reservation | Gone

definition claim ::
  "('b, 'j) store \<Rightarrow> ('j, 'b) placement_types \<Rightarrow> 'j vm \<Rightarrow> string \<Rightarrow> ('b, string + claimed) io" where
  "claim S P vm node =
     and_then new_uid (\<lambda>uid. and_then utc_now (\<lambda>now.
       let want = for_placement (st_json S) vm node uid now;
           name = md_name (metadata want);
           standing = and_then (store_get S (pt_claim P) name) (\<lambda>r.
             case r of
               Inr other \<Rightarrow>
                 if is_placement_of other vm then Done (Inr (Standing other))
                 else Done (Inl (''the claim key '' @ name @
                        '' is held by something that is not this guest's claim (vm uid '' @
                        cr_vm_uid (spec other) @ ''); leaving it to the reaper''))
             | Inl (NotFound _) \<Rightarrow> Done (Inr Gone)
             | Inl e \<Rightarrow> Done (Inl (store_error_display e)))
       in and_then (create S (pt_claim P) want) (\<lambda>r.
            case r of
              Inr mine \<Rightarrow> Done (Inr (Fresh mine))
            | Inl (AlreadyExists _) \<Rightarrow> standing
            | Inl (Terminating _) \<Rightarrow> standing
            | Inl e \<Rightarrow> Done (Inl (store_error_display e)))))"

definition vm_happening :: "'j vm \<Rightarrow> string \<Rightarrow> string \<Rightarrow> event_type \<Rightarrow> happening" where
  "vm_happening vm reason message kind =
     \<lparr>hp_kind = ''Vm'', hp_name = md_name (metadata vm), hp_uid = md_uid (metadata vm),
      hp_reason = reason, hp_message = message, hp_event_type = kind, hp_tenant = vs_tenant (spec vm)\<rparr>"

definition note_vm_pending ::
  "('b, 'j) store \<Rightarrow> ('j, 'b) placement_types \<Rightarrow> 'j vm \<Rightarrow> pending_reason \<Rightarrow> string \<Rightarrow>
   ('b, string + unit) io" where
  "note_vm_pending S P vm reason_category reason =
     (if phase_message (vt_phase (status vm)) = Some reason then Done (Inr ())
      else and_then
        (mutate_if S (pt_vm P) (md_name (metadata vm)) (md_uid (metadata vm)) (\<lambda>v.
           and_then utc_now (\<lambda>now. Done (v\<lparr>status := (status v)
             \<lparr>vt_placement := Some \<lparr>vp_reason = category reason_category, vp_message = reason, vp_at = now\<rparr>\<rparr>\<rparr>))))
        (\<lambda>r. case r of
            Inl e \<Rightarrow> Done (Inl (store_error_display e))
          | Inr _ \<Rightarrow>
              and_then (record_event S (pt_event P)
                 (vm_happening vm REASON_FAILED_SCHEDULING reason EvWarning)) (\<lambda>_. Done (Inr ()))))"

definition bind_claimed ::
  "('b, 'j) store \<Rightarrow> ('j, 'b) placement_types \<Rightarrow> 'j vm \<Rightarrow> string \<Rightarrow> capacity_reservation \<Rightarrow>
   ('b, string + unit) io" where
  "bind_claimed S P vm node mine =
     (let bound = bind_vm node vm in
      and_then (update_if_standing S (pt_vm P) (pt_claim P) bound mine) (\<lambda>r.
        case r of
          Inr _ \<Rightarrow>
            and_then (release S P mine) (\<lambda>_.
            and_then (record_event S (pt_event P)
               (vm_happening bound REASON_SCHEDULED (''bound to node '' @ node) EvNormal)) (\<lambda>_.
            Done (Inr ())))
        | Inl (Conflict _) \<Rightarrow> and_then (release S P mine) (\<lambda>_. Done (Inr ()))
        | Inl e \<Rightarrow> Done (Inl (store_error_display e))))"

definition confirm_and_bind ::
  "('b, 'j) store \<Rightarrow> ('j, 'b) placement_types \<Rightarrow> overcommit \<Rightarrow> 'j vm \<Rightarrow> string \<Rightarrow> capacity_reservation \<Rightarrow>
   ('b, string + unit) io" where
  "confirm_and_bind S P oc vm node mine =
     and_then (claim_holds S P mine oc) (\<lambda>r.
       case r of
         Inr True \<Rightarrow> bind_claimed S P vm node mine
       | Inr False \<Rightarrow>
           and_then (release S P mine) (\<lambda>_.
             note_vm_pending S P vm NoCapacity
               (''node '' @ node @ '' had room when this pass began and another claim took it '' @
                ''first; measured again next pass''))
       | Inl e \<Rightarrow> Done (Inl (''vm '' @ md_name (metadata vm) @ '': the room on '' @ node @
                    '' could not be confirmed; nothing was bound: '' @ e)))"

text \<open>The commit of \<open>place\<close>, from the claim on.\<close>

definition place_commit ::
  "('b, 'j) store \<Rightarrow> ('j, 'b) placement_types \<Rightarrow> overcommit \<Rightarrow> 'j vm \<Rightarrow> string \<Rightarrow> ('b, string + unit) io" where
  "place_commit S P oc vm node =
     try_then (claim S P vm node) (\<lambda>c.
       case c of
         Fresh mine \<Rightarrow> confirm_and_bind S P oc vm node mine
       | Standing mine \<Rightarrow>
           if cr_node (spec mine) = node then confirm_and_bind S P oc vm node mine else Done (Inr ())
       | Gone \<Rightarrow> Done (Inr ()))"

end
