(* ===== verification/Placement_Steps.thy ===== *)
theory Placement_Steps
  imports Store_View Placement_Program
begin

text \<open>
  What the requests of a placement do to the books of \<open>Capacity_Commit\<close>. \<open>place_rel\<close> relates a state
  of the store to the guests, the claims and the revision of a commit state; every write that a
  placement, the tenants' edits, a migration's claim or the reaper makes is matched by steps of
  \<open>commit_step\<close>.
\<close>

definition cluster_types :: "('j, 'b) placement_types \<Rightarrow> bool" where
  "cluster_types P \<longleftrightarrow>
     (\<exists>rfc tv fs. pt_vm P = vm_resource rfc tv fs) \<and> (\<exists>tv fs. pt_node P = node_resource tv fs) \<and>
     (\<exists>tv fs. pt_claim P = reservation_resource tv fs) \<and> (\<exists>tv fs. pt_event P = event_resource tv fs)"

definition place_keys :: "('b, 'j) store \<Rightarrow> ('j, 'b) placement_types \<Rightarrow> string set" where
  "place_keys S P = {k. in_dir S (pt_vm P) k \<or> in_dir S (pt_node P) k \<or> in_dir S (pt_claim P) k}"

definition node_caps ::
  "('e, 'b) etcd_ops \<Rightarrow> ('b, 'j) store \<Rightarrow> ('j, 'b) placement_types \<Rightarrow> (string \<Rightarrow> node_capacity) \<Rightarrow> 'e \<Rightarrow> bool" where
  "node_caps X S P cap e \<longleftrightarrow>
     (\<forall>n x nd. et_look X e (obj_key S (pt_node P) n) = Some x \<longrightarrow>
        decode (pt_node P) (en_value x) (en_mod_revision x) = Inr nd \<longrightarrow> nst_capacity (status nd) = cap n)"

text \<open>A claim under a placement's name is that guest's placement claim.\<close>

definition placed_names :: "capacity_reservation list \<Rightarrow> bool" where
  "placed_names rs \<longleftrightarrow>
     (\<forall>r\<in>set rs. \<forall>u. md_name (metadata r) = PLACEMENT_CLAIM_PREFIX @ u \<longrightarrow>
        cr_claimant (spec r) = ClaimPlacement \<and> cr_vm_uid (spec r) = u)"

definition sizes_ok :: "'j json_ops \<Rightarrow> ('i \<Rightarrow> 'j vm) \<Rightarrow> 'j vm list \<Rightarrow> bool" where
  "sizes_ok J guests vms \<longleftrightarrow>
     (\<forall>i. \<forall>w\<in>set vms. md_uid (metadata w) = md_uid (metadata (guests i)) \<longrightarrow>
        wanted_by J w = wanted_by J (guests i))"

definition place_rel ::
  "('e, 'b) etcd_ops \<Rightarrow> ('b, 'j) store \<Rightarrow> ('j, 'b) placement_types \<Rightarrow> (string \<Rightarrow> node_capacity) \<Rightarrow>
   ('i \<Rightarrow> 'j vm) \<Rightarrow> 'e \<times> 'j commit_state \<Rightarrow> bool" where
  "place_rel X S P cap guests s \<longleftrightarrow>
     (case s of (e, A) \<Rightarrow>
        et_ok X e \<and> kc_rev A = nat (et_head X e) \<and>
        directory X S (pt_vm P) e (kc_vms A) \<and> distinct (vm_uids (kc_vms A)) \<and>
        directory X S (pt_claim P) e (kc_held A) \<and> placed_names (kc_held A) \<and>
        node_caps X S P cap e \<and> sizes_ok (st_json S) guests (kc_vms A) \<and>
        (\<forall>i. knows X S (pt_vm P) e (guests i)))"

definition place_rely where
  "place_rely X S P cap oc guests s s' \<longleftrightarrow>
     place_rel X S P cap guests s' \<and> commit_steps (st_json S) cap oc (snd s) (snd s') \<and>
     (\<forall>k\<in>place_keys S P. key_moves X k (fst s) (fst s'))"

text \<open>What others do to the three directories: nodes are written with their capacity unchanged, guests
  are created unbound under a new uid, edited or removed, claims are removed, and a migration claims
  room under its own name. Everything else in the store is free. Two writes of the cluster are not in
  it: a change of a node's capacity, and the settlement of a migration (\<open>migration.rs\<close>), which binds a
  bound guest to its destination.\<close>

inductive place_env for
  X :: "('e, 'b) etcd_ops" and S :: "('b, 'j) store" and P :: "('j, 'b) placement_types" and
  cap :: "string \<Rightarrow> node_capacity" and guests :: "'i \<Rightarrow> 'j vm" and e e' :: 'e where
  env_outside: "outside X (place_keys S P) e e' \<Longrightarrow> place_env X S P cap guests e e'"
| env_node_written:
    "puts X e (obj_key S (pt_node P) n) v e' \<Longrightarrow>
     (\<And>nd. decode (pt_node P) v (et_head X e') = Inr nd \<Longrightarrow> nst_capacity (status nd) = cap n) \<Longrightarrow>
     place_env X S P cap guests e e'"
| env_node_removed: "drops X e (obj_key S (pt_node P) n) e' \<Longrightarrow> place_env X S P cap guests e e'"
| env_vm_created:
    "et_look X e (obj_key S (pt_vm P) (obj_name v)) = None \<Longrightarrow>
     puts X e (obj_key S (pt_vm P) (obj_name v)) b e' \<Longrightarrow> decode (pt_vm P) b (et_head X e') = Inr v \<Longrightarrow>
     vs_node_name (spec v) = None \<Longrightarrow>
     (\<And>w. stands X S (pt_vm P) e w \<Longrightarrow> md_uid (metadata w) \<noteq> md_uid (metadata v)) \<Longrightarrow>
     (\<And>r. stands X S (pt_claim P) e r \<Longrightarrow> cr_vm_uid (spec r) \<noteq> md_uid (metadata v)) \<Longrightarrow>
     (\<And>i. md_uid (metadata (guests i)) \<noteq> md_uid (metadata v)) \<Longrightarrow>
     place_env X S P cap guests e e'"
| env_vm_edited:
    "stands X S (pt_vm P) e old \<Longrightarrow> obj_name v = obj_name old \<Longrightarrow>
     md_uid (metadata v) = md_uid (metadata old) \<Longrightarrow> wanted_by (st_json S) v = wanted_by (st_json S) old \<Longrightarrow>
     vs_node_name (spec v) \<in> {None, vs_node_name (spec old)} \<Longrightarrow>
     puts X e (obj_key S (pt_vm P) (obj_name v)) b e' \<Longrightarrow> decode (pt_vm P) b (et_head X e') = Inr v \<Longrightarrow>
     place_env X S P cap guests e e'"
| env_vm_removed: "drops X e (obj_key S (pt_vm P) n) e' \<Longrightarrow> place_env X S P cap guests e e'"
| env_claim_removed: "drops X e (obj_key S (pt_claim P) n) e' \<Longrightarrow> place_env X S P cap guests e e'"
| env_migration_claimed:
    "r = stored (reservation_of (st_json S) m v node uid now) (nat (et_head X e')) \<Longrightarrow>
     CHR ''.'' \<notin> set (obj_name r) \<Longrightarrow>
     et_look X e (obj_key S (pt_claim P) (obj_name r)) = None \<Longrightarrow>
     puts X e (obj_key S (pt_claim P) (obj_name r)) b e' \<Longrightarrow> decode (pt_claim P) b (et_head X e') = Inr r \<Longrightarrow>
     place_env X S P cap guests e e'"

section \<open>Abstract steps\<close>

lemma step_then_drift:
  assumes "commit_step J cap oc A A1" "kc_rev A1 \<le> k"
  shows "commit_steps J cap oc A (A1\<lparr>kc_rev := k\<rparr>)"
proof (rule converse_rtranclp_into_rtranclp)
  show "commit_step J cap oc A A1" by fact
  show "commit_steps J cap oc A1 (A1\<lparr>kc_rev := k\<rparr>)" using other_write [OF assms(2)] by (rule r_into_rtranclp)
qed

lemma drift: "kc_rev A \<le> k \<Longrightarrow> commit_steps J cap oc A (A\<lparr>kc_rev := k\<rparr>)"
  by (rule r_into_rtranclp) (rule other_write)

text \<open>A claim that was told to hold, and stands, is still one that was told so.\<close>

lemma dec_inj: "i < 2 ^ 63 \<Longrightarrow> j < 2 ^ 63 \<Longrightarrow> dec i = dec j \<Longrightarrow> i = j"
  by (metis of_nat_eq_iff option.inject parse_i64_dec)

lemma ok_or_gone:
  assumes "commit_steps J cap oc A A'" "r \<in> kc_ok A \<or> r \<notin> set (kc_held A)"
    and "md_resource_version (metadata r) = dec k" "k \<le> kc_rev A"
  shows "(r \<in> kc_ok A' \<or> r \<notin> set (kc_held A')) \<and> k \<le> kc_rev A'"
  using assms(1)
proof (induction rule: rtranclp_induct)
  case base
  show ?case using assms(2,4) by simp
next
  case (step A1 A2)
  have new: "r \<noteq> stored x (Suc (kc_rev A1))" if "Suc (kc_rev A1) < 2 ^ 63" for x
  proof
    assume "r = stored x (Suc (kc_rev A1))"
    then have "dec k = dec (Suc (kc_rev A1))" using assms(3) by simp
    then show False using dec_inj [of k "Suc (kc_rev A1)"] that step.IH by simp
  qed
  from step(2) show ?case using step.IH new by cases auto
qed

lemma sum_caps_perm:
  assumes "mset xs = mset ys"
  shows "sum_caps xs = sum_caps ys"
proof -
  have "(\<Sum>s\<leftarrow>xs. f s) = (\<Sum>s\<leftarrow>ys. f s)" for f :: "capacity \<Rightarrow> nat"
    using assms by (metis mset_map sum_mset_sum_list)
  then have "unat (vcpus (sum_caps xs)) = unat (vcpus (sum_caps ys))"
    "unat (mem_mib (sum_caps xs)) = unat (mem_mib (sum_caps ys))"
    by (simp_all add: unat_sum_caps)
  then show ?thesis by (simp add: word_unat_eq_iff)
qed

text \<open>The verdict on a claim does not depend on the order in which the store lists guests and claims.\<close>

lemma sum_caps_filter_perm:
  "mset xs = mset ys \<Longrightarrow> sum_caps (map f (filter p xs)) = sum_caps (map f (filter p ys))"
  by (rule sum_caps_perm) simp

lemma confirmed_perm:
  assumes vms: "mset vms = mset vms'" and rs: "mset rs = mset rs'"
  shows "confirmed J (Inr n) (Inr (vms, rs)) r oc = confirmed J (Inr n) (Inr (vms', rs')) r oc"
  unfolding confirmed_def sum.case prod.case Let_def free_on_def bound_on_def reservation_holds_def
    ahead_of_def filter_filter sum_caps_filter_perm [OF vms] sum_caps_filter_perm [OF rs] ..

end
