(* ===== verification/Placement_Refines.thy ===== *)
theory Placement_Refines
  imports Placement_Steps
begin

text \<open>
  The programs of \<open>Placement_Program\<close>, run by any number of replicas, take no steps but those of
  \<open>Capacity_Commit\<close>: the commit protocol is what the code does, whatever interleaving, outage or
  concurrent edit it meets.
\<close>

lemma place_relD:
  assumes "place_rel X S P cap guests (e, A)"
  shows "et_ok X e" "kc_rev A = nat (et_head X e)" "directory X S (pt_vm P) e (kc_vms A)"
    "distinct (vm_uids (kc_vms A))" "directory X S (pt_claim P) e (kc_held A)" "placed_names (kc_held A)"
    "node_caps X S P cap e" "sizes_ok (st_json S) guests (kc_vms A)" "knows X S (pt_vm P) e (guests i)"
  using assms by (simp_all add: place_rel_def)

lemma place_rely_trans:
  "place_rely X S P cap oc guests s1 s2 \<Longrightarrow> place_rely X S P cap oc guests s2 s3 \<Longrightarrow>
   place_rely X S P cap oc guests s1 s3"
  unfolding place_rely_def by (meson key_moves_trans rtranclp_trans)

lemma place_rely_refl: "place_rel X S P cap guests s \<Longrightarrow> place_rely X S P cap oc guests s s"
  by (simp add: place_rely_def key_moves_same)

text \<open>A claim its writer was told about: it holds, or it is gone and will not come back.\<close>

definition settled_claim :: "capacity_reservation \<Rightarrow> 'e \<times> 'j commit_state \<Rightarrow> bool" where
  "settled_claim r s \<longleftrightarrow> r \<in> kc_ok (snd s) \<or> r \<notin> set (kc_held (snd s))"

lemma guarded_Done: "guarded X R G (Done a) Q = Q a"
  by (rule ext) simp

locale placing = etcd X for X :: "('e, 'b) etcd_ops" +
  fixes S :: "('b, 'j) store" and P :: "('j, 'b) placement_types" and cap :: "string \<Rightarrow> node_capacity"
    and oc :: overcommit and guests :: "'i \<Rightarrow> 'j vm"
  assumes types: "cluster_types P" and vm_codec: "codec (pt_vm P)" and claim_codec: "codec (pt_claim P)"
    and headed: "always_headed X" and unbound: "vs_node_name (spec (guests i)) = None"
begin

lemma vm_type: "RESOURCE (pt_vm P) = ''vms''" "metadata (settle (pt_vm P) now v) = metadata v"
    "spec (settle (pt_vm P) now v) = spec v"
  and node_type: "RESOURCE (pt_node P) = ''nodes''"
  and claim_type: "RESOURCE (pt_claim P) = ''capacityreservations''" "settle (pt_claim P) now r = r"
    "KIND (pt_claim P) = ''CapacityReservation''"
  and event_type: "RESOURCE (pt_event P) = ''events''"
  using types
  by (auto simp: cluster_types_def vm_resource_def node_resource_def reservation_resource_def
      event_resource_def vm_settle_def)

lemma apart:
  "in_dir S (pt_vm P) k \<Longrightarrow> k \<noteq> obj_key S (pt_claim P) n" "in_dir S (pt_vm P) k \<Longrightarrow> k \<noteq> obj_key S (pt_node P) n"
  "in_dir S (pt_claim P) k \<Longrightarrow> k \<noteq> obj_key S (pt_vm P) n" "in_dir S (pt_claim P) k \<Longrightarrow> k \<noteq> obj_key S (pt_node P) n"
  "obj_key S (pt_node P) m \<noteq> obj_key S (pt_vm P) n" "obj_key S (pt_node P) m \<noteq> obj_key S (pt_claim P) n"
  "store_key S ''events'' n \<notin> place_keys S P"
proof -
  have dirs: "in_dir S (pt_vm P) k \<Longrightarrow> \<not> in_dir S (pt_claim P) k" "in_dir S (pt_vm P) k \<Longrightarrow> \<not> in_dir S (pt_node P) k"
    "in_dir S (pt_claim P) k \<Longrightarrow> \<not> in_dir S (pt_node P) k" "in_dir S (pt_event P) k \<Longrightarrow> k \<notin> place_keys S P" for k
    using in_other_dir [of "pt_vm P" "pt_claim P" S k] in_other_dir [of "pt_vm P" "pt_node P" S k]
      in_other_dir [of "pt_claim P" "pt_node P" S k] in_other_dir [of "pt_event P" "pt_node P" S k]
      in_other_dir [of "pt_event P" "pt_claim P" S k] in_other_dir [of "pt_event P" "pt_vm P" S k]
    by (auto simp: vm_type node_type claim_type event_type place_keys_def)
  show "in_dir S (pt_vm P) k \<Longrightarrow> k \<noteq> obj_key S (pt_claim P) n" "in_dir S (pt_vm P) k \<Longrightarrow> k \<noteq> obj_key S (pt_node P) n"
    "in_dir S (pt_claim P) k \<Longrightarrow> k \<noteq> obj_key S (pt_vm P) n" "in_dir S (pt_claim P) k \<Longrightarrow> k \<noteq> obj_key S (pt_node P) n"
    "obj_key S (pt_node P) m \<noteq> obj_key S (pt_vm P) n" "obj_key S (pt_node P) m \<noteq> obj_key S (pt_claim P) n"
    using dirs by (metis in_dir_key)+
  show "store_key S ''events'' n \<notin> place_keys S P"
    using dirs(4) in_dir_key [of S "pt_event P" n] by (simp add: obj_key_def event_type)
qed

text \<open>One move of the store, matched by steps of the protocol.\<close>

lemma rely_step:
  assumes rel: "place_rel X S P cap guests (e, A)" and ok: "et_ok X e'"
    and moves: "\<And>k. k \<in> place_keys S P \<Longrightarrow> key_moves X k e e'"
    and steps: "commit_steps (st_json S) cap oc A A'" and rev: "kc_rev A' = nat (et_head X e')"
    and vms: "directory X S (pt_vm P) e' (kc_vms A')" "distinct (vm_uids (kc_vms A'))"
      "sizes_ok (st_json S) guests (kc_vms A')"
    and claims: "directory X S (pt_claim P) e' (kc_held A')" "placed_names (kc_held A')"
    and nodes: "node_caps X S P cap e'"
  shows "place_rely X S P cap oc guests (e, A) (e', A')"
proof -
  have "knows X S (pt_vm P) e' (guests i)" for i
    by (rule knows_moves [OF place_relD(9) [OF rel] moves]) (simp add: place_keys_def)
  then show ?thesis using assms by (simp add: place_rely_def place_rel_def)
qed

lemma head_grows:
  "et_ok X e \<Longrightarrow> et_head X e \<le> et_head X e' \<Longrightarrow> nat (et_head X e) \<le> nat (et_head X e')"
  by simp

lemma claims_rest:
  assumes "place_rel X S P cap guests (e, A)" and "\<And>k. k \<noteq> obj_key S (pt_claim P) n \<Longrightarrow> et_look X e' k = et_look X e k"
  shows "directory X S (pt_vm P) e' (kc_vms A)" "node_caps X S P cap e'"
  using directory_away [OF place_relD(3) [OF assms(1)]] place_relD(7) [OF assms(1)] assms(2) apart
  by (auto simp: node_caps_def)

lemma vms_rest:
  assumes "place_rel X S P cap guests (e, A)" and "\<And>k. k \<noteq> obj_key S (pt_vm P) n \<Longrightarrow> et_look X e' k = et_look X e k"
  shows "directory X S (pt_claim P) e' (kc_held A)" "node_caps X S P cap e'"
  using directory_away [OF place_relD(5) [OF assms(1)]] place_relD(7) [OF assms(1)] assms(2) apart
  by (auto simp: node_caps_def)

lemma step_away:
  assumes rel: "place_rel X S P cap guests (e, A)" and out: "outside X (place_keys S P) e e'"
  shows "place_rely X S P cap oc guests (e, A) (e', A\<lparr>kc_rev := nat (et_head X e')\<rparr>)"
proof (rule rely_step [OF rel])
  have same: "et_look X e' k = et_look X e k" if "k \<in> place_keys S P" for k
    using out that by (simp add: outside_def)
  have grows: "et_head X e \<le> et_head X e'" using out by (simp add: outside_def)
  show "et_ok X e'" using out by (simp add: outside_def)
  show "key_moves X k e e'" if "k \<in> place_keys S P" for k using same [OF that] grows by (rule key_moves_same)
  show "commit_steps (st_json S) cap oc A (A\<lparr>kc_rev := nat (et_head X e')\<rparr>)"
    using grows place_relD(2) [OF rel] by (intro drift) simp
  show "directory X S (pt_vm P) e' (kc_vms (A\<lparr>kc_rev := nat (et_head X e')\<rparr>))"
    "directory X S (pt_claim P) e' (kc_held (A\<lparr>kc_rev := nat (et_head X e')\<rparr>))"
    using directory_away [OF place_relD(3) [OF rel]] directory_away [OF place_relD(5) [OF rel]] same
    by (auto simp: place_keys_def)
  show "node_caps X S P cap e'"
    using place_relD(7) [OF rel] same by (simp add: node_caps_def place_keys_def)
qed (use place_relD(4,6,8) [OF rel] in simp_all)

text \<open>A node written with the capacity it had, or removed.\<close>

lemma step_node:
  assumes rel: "place_rel X S P cap guests (e, A)" and ok: "et_ok X e'"
    and grows: "et_head X e \<le> et_head X e'" and moves: "\<And>k. key_moves X k e e'"
    and same: "\<And>k. k \<noteq> obj_key S (pt_node P) n \<Longrightarrow> et_look X e' k = et_look X e k"
    and at: "\<And>x nd. et_look X e' (obj_key S (pt_node P) n) = Some x \<Longrightarrow>
      decode (pt_node P) (en_value x) (en_mod_revision x) = Inr nd \<Longrightarrow> nst_capacity (status nd) = cap n"
  shows "\<exists>A'. place_rely X S P cap oc guests (e, A) (e', A')"
proof (rule exI, rule rely_step [OF rel ok moves])
  show "commit_steps (st_json S) cap oc A (A\<lparr>kc_rev := nat (et_head X e')\<rparr>)"
    using grows place_relD(2) [OF rel] by (intro drift) simp
  show "directory X S (pt_vm P) e' (kc_vms (A\<lparr>kc_rev := nat (et_head X e')\<rparr>))"
    "directory X S (pt_claim P) e' (kc_held (A\<lparr>kc_rev := nat (et_head X e')\<rparr>))"
    using directory_away [OF place_relD(3) [OF rel]] directory_away [OF place_relD(5) [OF rel]] same apart(2,4)
    by auto
  show "node_caps X S P cap e'"
    unfolding node_caps_def
  proof (intro allI impI)
    fix m x nd
    assume "et_look X e' (obj_key S (pt_node P) m) = Some x"
      and "decode (pt_node P) (en_value x) (en_mod_revision x) = Inr nd"
    then show "nst_capacity (status nd) = cap m"
      using at [of x nd] same [of "obj_key S (pt_node P) m"] place_relD(7) [OF rel]
      by (cases "m = n") (auto simp: node_caps_def)
  qed
qed (use place_relD(4,6,8) [OF rel] in simp_all)

text \<open>A claim written under a free name.\<close>

lemma step_claimed:
  assumes rel: "place_rel X S P cap guests (e, A)"
    and free: "et_look X e (obj_key S (pt_claim P) (obj_name r)) = None"
    and put: "puts X e (obj_key S (pt_claim P) (obj_name r)) b e'"
    and b: "decode (pt_claim P) b (et_head X e') = Inr r"
    and step: "obj_name r \<notin> set (held_names (kc_held A)) \<Longrightarrow> Suc (kc_rev A) < 2 ^ 63 \<Longrightarrow>
      nat (et_head X e') = Suc (kc_rev A) \<Longrightarrow>
      commit_step (st_json S) cap oc A (A\<lparr>kc_held := kc_held A @ [r], kc_rev := Suc (kc_rev A)\<rparr>)"
    and named: "\<And>u. obj_name r = PLACEMENT_CLAIM_PREFIX @ u \<Longrightarrow>
      cr_claimant (spec r) = ClaimPlacement \<and> cr_vm_uid (spec r) = u"
  shows "\<exists>A'. place_rely X S P cap oc guests (e, A) (e', A')"
proof (rule exI, rule rely_step [OF rel])
  note d = place_relD [OF rel]
  show ok: "et_ok X e'" using put by (simp add: puts_def)
  have rev: "nat (et_head X e') = Suc (kc_rev A)"
    using put d(2) head_i64 [OF d(1)] by (simp add: puts_def Suc_nat_eq_nat_zadd1)
  moreover have "Suc (kc_rev A) < 2 ^ 63" unfolding rev [symmetric] using head_i64 [OF ok] by (simp add: nat_less_iff)
  moreover have "obj_name r \<notin> set (held_names (kc_held A))"
    using directory_free [OF d(5) free] by (simp add: held_names_def)
  ultimately show "commit_steps (st_json S) cap oc A (A\<lparr>kc_held := kc_held A @ [r], kc_rev := Suc (kc_rev A)\<rparr>)"
    using step by (intro r_into_rtranclp) simp
  have same: "et_look X e' k = et_look X e k" if "k \<noteq> obj_key S (pt_claim P) (obj_name r)" for k
    using put that by (simp add: puts_def)
  note rest = claims_rest [OF rel same]
  show "node_caps X S P cap e'" by (rule rest(2))
  show "directory X S (pt_vm P) e' (kc_vms (A\<lparr>kc_held := kc_held A @ [r], kc_rev := Suc (kc_rev A)\<rparr>))"
    using rest(1) by simp
  show "directory X S (pt_claim P) e' (kc_held (A\<lparr>kc_held := kc_held A @ [r], kc_rev := Suc (kc_rev A)\<rparr>))"
    using directory_new [OF d(5) put b free] by simp
  show "placed_names (kc_held (A\<lparr>kc_held := kc_held A @ [r], kc_rev := Suc (kc_rev A)\<rparr>))"
    using d(6) named by (simp add: placed_names_def)
  show "kc_rev (A\<lparr>kc_held := kc_held A @ [r], kc_rev := Suc (kc_rev A)\<rparr>) = nat (et_head X e')"
    using rev by simp
  show "key_moves X k e e'" for k by (rule puts_moves [OF put])
qed (use place_relD(4,8) [OF rel] in simp_all)

text \<open>A claim removed, by its owner or by anybody else.\<close>

lemma step_released:
  assumes rel: "place_rel X S P cap guests (e, A)" and drop: "drops X e (obj_key S (pt_claim P) n) e'"
  shows "\<exists>A'. place_rely X S P cap oc guests (e, A) (e', A')"
proof -
  note d = place_relD [OF rel]
  let ?rest = "filter (\<lambda>x. obj_name x \<noteq> n) (kc_held A)"
  have grows: "kc_rev A \<le> nat (et_head X e')" using drop d(2) by (simp add: drops_def nat_mono)
  have same: "et_look X e' k = et_look X e k" if "k \<noteq> obj_key S (pt_claim P) n" for k
    using drop that by (simp add: drops_def)
  note rest = claims_rest [OF rel same]
  have "place_rely X S P cap oc guests (e, A) (e', A1\<lparr>kc_rev := nat (et_head X e')\<rparr>)"
    if "commit_steps (st_json S) cap oc A (A1\<lparr>kc_rev := nat (et_head X e')\<rparr>)"
      "kc_vms A1 = kc_vms A" "kc_held A1 = ?rest" for A1
  proof (rule rely_step [OF rel _ drops_moves [OF drop] that(1)])
    show "directory X S (pt_claim P) e' (kc_held (A1\<lparr>kc_rev := nat (et_head X e')\<rparr>))"
      using directory_drop [OF d(5) drop] that(3) by simp
  qed (use d rest that drop in \<open>auto simp: drops_def placed_names_def\<close>)
  note match = this
  show ?thesis
  proof (cases "\<exists>r\<in>set (kc_held A). obj_name r = n")
    case True
    then obtain r where r: "r \<in> set (kc_held A)" "obj_name r = n" by blast
    let ?A1 = "A\<lparr>kc_held := ?rest, kc_ok := kc_ok A - {r}\<rparr>"
    have "commit_steps (st_json S) cap oc A (?A1\<lparr>kc_rev := nat (et_head X e')\<rparr>)"
      using commit_step.release [OF r(1), of "st_json S" cap oc] grows r(2) by (intro step_then_drift) auto
    then show ?thesis using match [of ?A1] by auto
  next
    case False
    then have "?rest = kc_held A" by (intro filter_True) auto
    then show ?thesis using match [of A] drift [OF grows, of "st_json S" cap oc] by auto
  qed
qed

text \<open>A guest replaced under its name: the list of the guests changes in one place.\<close>

lemma set_vm_by_name:
  assumes d: "directory X S (pt_vm P) e vms" "distinct (vm_uids vms)" and old: "old \<in> set vms"
    and v: "obj_name v = obj_name old" "md_uid (metadata v) = md_uid (metadata old)"
  shows "map (\<lambda>o1. if obj_name o1 = obj_name v then v else o1) vms = set_vm v vms"
proof -
  have "obj_name w = obj_name v \<longleftrightarrow> md_uid (metadata w) = md_uid (metadata v)" if "w \<in> set vms" for w
    using same_uid [OF d(2) old that] directoryD(1) [OF d(1)] old that v
    by (auto simp: distinct_map inj_on_def)
  then show ?thesis by (simp add: set_vm_def)
qed

lemma vm_replaced:
  assumes rel: "place_rel X S P cap guests (e, A)" and old: "stands X S (pt_vm P) e old"
    and v: "obj_name v = obj_name old" "md_uid (metadata v) = md_uid (metadata old)"
      "wanted_by (st_json S) v = wanted_by (st_json S) old"
    and put: "puts X e (obj_key S (pt_vm P) (obj_name v)) b e'"
    and b: "decode (pt_vm P) b (et_head X e') = Inr v"
    and steps: "old \<in> set (kc_vms A) \<Longrightarrow> Suc (kc_rev A) < 2 ^ 63 \<Longrightarrow> nat (et_head X e') = Suc (kc_rev A) \<Longrightarrow>
      commit_steps (st_json S) cap oc A (A\<lparr>kc_vms := set_vm v (kc_vms A), kc_rev := Suc (kc_rev A)\<rparr>)"
  shows "place_rely X S P cap oc guests (e, A) (e', A\<lparr>kc_vms := set_vm v (kc_vms A), kc_rev := Suc (kc_rev A)\<rparr>)"
    (is "place_rely X S P cap oc guests _ (e', ?A)")
proof (rule rely_step [OF rel])
  note d = place_relD [OF rel]
  show ok: "et_ok X e'" using put by (simp add: puts_def)
  have rev: "nat (et_head X e') = Suc (kc_rev A)"
    using put d(2) head_i64 [OF d(1)] by (simp add: puts_def Suc_nat_eq_nat_zadd1)
  have small: "Suc (kc_rev A) < 2 ^ 63" unfolding rev [symmetric] using head_i64 [OF ok] by (simp add: nat_less_iff)
  have in_vms: "old \<in> set (kc_vms A)" using old directoryD(2) [OF d(3)] by simp
  show "commit_steps (st_json S) cap oc A ?A" by (rule steps [OF in_vms small rev])
  have same: "et_look X e' k = et_look X e k" if "k \<noteq> obj_key S (pt_vm P) (obj_name v)" for k
    using put that by (simp add: puts_def)
  note rest = vms_rest [OF rel same]
  show "node_caps X S P cap e'" by (rule rest(2))
  show "directory X S (pt_claim P) e' (kc_held ?A)" using rest(1) by simp
  show "directory X S (pt_vm P) e' (kc_vms ?A)"
    using directory_edit [OF d(3) in_vms v(1) [symmetric] put b] set_vm_by_name [OF d(3,4) in_vms v(1,2)] by simp
  show "sizes_ok (st_json S) guests (kc_vms ?A)"
    using d(8) in_vms v by (auto simp: sizes_ok_def set_vm_def)
  show "kc_rev ?A = nat (et_head X e')" using rev by simp
  show "key_moves X k e e'" for k by (rule puts_moves [OF put])
qed (use place_relD(4,6) [OF rel] in simp_all)

lemma step_edited:
  assumes rel: "place_rel X S P cap guests (e, A)" and old: "stands X S (pt_vm P) e old"
    and v: "obj_name v = obj_name old" "md_uid (metadata v) = md_uid (metadata old)"
      "wanted_by (st_json S) v = wanted_by (st_json S) old" "vs_node_name (spec v) \<in> {None, vs_node_name (spec old)}"
    and put: "puts X e (obj_key S (pt_vm P) (obj_name v)) b e'"
    and b: "decode (pt_vm P) b (et_head X e') = Inr v"
  shows "\<exists>A'. place_rely X S P cap oc guests (e, A) (e', A')"
proof (rule exI, rule vm_replaced [OF rel old v(1-3) put b])
  assume "old \<in> set (kc_vms A)"
  from step_then_drift [OF vm_updated [OF this v(2,3,4)], of "Suc (kc_rev A)"]
  show "commit_steps (st_json S) cap oc A (A\<lparr>kc_vms := set_vm v (kc_vms A), kc_rev := Suc (kc_rev A)\<rparr>)"
    by simp
qed

text \<open>A guest bound under a claim that was told to hold and still stands.\<close>

lemma set_vm_twice: "md_uid (metadata w) = md_uid (metadata v) \<Longrightarrow> set_vm v (set_vm w vms) = set_vm v vms"
  by (simp add: set_vm_def)

lemma step_bound:
  assumes rel: "place_rel X S P cap guests (e, A)" and old: "stands X S (pt_vm P) e old"
    and r: "r \<in> kc_ok A" "stands X S (pt_claim P) e r" "is_placement_of r old"
    and free: "vs_node_name (spec old) = None"
    and v: "obj_name v = obj_name old" "md_uid (metadata v) = md_uid (metadata old)"
      "wanted_by (st_json S) v = wanted_by (st_json S) old" "vs_node_name (spec v) = Some (cr_node (spec r))"
    and put: "puts X e (obj_key S (pt_vm P) (obj_name v)) b e'"
    and b: "decode (pt_vm P) b (et_head X e') = Inr v"
  shows "\<exists>A'. place_rely X S P cap oc guests (e, A) (e', A')"
proof (rule exI, rule vm_replaced [OF rel old v(1-3) put b])
  assume old': "old \<in> set (kc_vms A)" and small: "Suc (kc_rev A) < 2 ^ 63"
  have held: "r \<in> set (kc_held A)" using r(2) directoryD(2) [OF place_relD(5) [OF rel]] by simp
  let ?w = "bind_vm (cr_node (spec r)) old"
  let ?A1 = "A\<lparr>kc_vms := set_vm ?w (kc_vms A), kc_rev := Suc (kc_rev A)\<rparr>"
  have "commit_step (st_json S) cap oc A ?A1"
    by (rule bind [OF r(1) held old' free r(3) small])
  moreover have "commit_step (st_json S) cap oc ?A1 (?A1\<lparr>kc_vms := set_vm v (kc_vms ?A1)\<rparr>)"
    by (rule vm_updated [where v = ?w]) (use old' v in \<open>auto simp: set_vm_def\<close>)
  ultimately have "commit_steps (st_json S) cap oc A (?A1\<lparr>kc_vms := set_vm v (kc_vms ?A1)\<rparr>)"
    by (meson converse_rtranclp_into_rtranclp r_into_rtranclp)
  then show "commit_steps (st_json S) cap oc A (A\<lparr>kc_vms := set_vm v (kc_vms A), kc_rev := Suc (kc_rev A)\<rparr>)"
    using v(2) by (cases A) (simp add: set_vm_twice)
qed

text \<open>A guest created unbound under a uid of its own, and a guest removed.\<close>

lemma step_created:
  assumes rel: "place_rel X S P cap guests (e, A)"
    and free: "et_look X e (obj_key S (pt_vm P) (obj_name v)) = None"
    and put: "puts X e (obj_key S (pt_vm P) (obj_name v)) b e'"
    and b: "decode (pt_vm P) b (et_head X e') = Inr v" and node: "vs_node_name (spec v) = None"
    and uid: "\<And>w. stands X S (pt_vm P) e w \<Longrightarrow> md_uid (metadata w) \<noteq> md_uid (metadata v)"
      "\<And>r. stands X S (pt_claim P) e r \<Longrightarrow> cr_vm_uid (spec r) \<noteq> md_uid (metadata v)"
      "\<And>i. md_uid (metadata (guests i)) \<noteq> md_uid (metadata v)"
  shows "\<exists>A'. place_rely X S P cap oc guests (e, A) (e', A')"
proof (rule exI, rule rely_step [OF rel])
  let ?A = "A\<lparr>kc_vms := v # kc_vms A, kc_rev := nat (et_head X e')\<rparr>"
  note d = place_relD [OF rel]
  show ok: "et_ok X e'" using put by (simp add: puts_def)
  have fresh: "md_uid (metadata v) \<notin> set (vm_uids (kc_vms A))"
  proof
    assume "md_uid (metadata v) \<in> set (vm_uids (kc_vms A))"
    then obtain w where "w \<in> set (kc_vms A)" "md_uid (metadata w) = md_uid (metadata v)"
      by (auto simp: vm_uids_def)
    then show False using uid(1) [of w] directoryD(2) [OF d(3), of w] by simp
  qed
  have claims: "\<forall>r\<in>set (kc_held A). cr_vm_uid (spec r) \<noteq> md_uid (metadata v)"
    using uid(2) directoryD(2) [OF d(5)] by blast
  have "kc_rev A \<le> nat (et_head X e')" using put d(2) by (simp add: puts_def nat_mono)
  then show "commit_steps (st_json S) cap oc A ?A"
    using step_then_drift [OF vm_created [OF node fresh claims]] by simp
  have same: "et_look X e' k = et_look X e k" if "k \<noteq> obj_key S (pt_vm P) (obj_name v)" for k
    using put that by (simp add: puts_def)
  note rest = vms_rest [OF rel same]
  show "node_caps X S P cap e'" by (rule rest(2))
  show "directory X S (pt_claim P) e' (kc_held ?A)" using rest(1) by simp
  show "directory X S (pt_vm P) e' (kc_vms ?A)"
    by (rule directory_perm [OF directory_new [OF d(3) put b free]]) simp
  show "sizes_ok (st_json S) guests (kc_vms ?A)" 
    unfolding sizes_ok_def
  proof (intro allI ballI impI)
    fix i w
    assume w: "w \<in> set (kc_vms ?A)" "md_uid (metadata w) = md_uid (metadata (guests i))"
    then have "w \<noteq> v" using uid(3) [of i] by auto
    then show "wanted_by (st_json S) w = wanted_by (st_json S) (guests i)"
      using d(8) w by (simp add: sizes_ok_def)
  qed
  show "distinct (vm_uids (kc_vms ?A))" using d(4) fresh by (simp add: vm_uids_def)
  show "key_moves X k e e'" for k by (rule puts_moves [OF put])
qed (use place_relD(6) [OF rel] in simp_all)

lemma step_removed:
  assumes rel: "place_rel X S P cap guests (e, A)" and drop: "drops X e (obj_key S (pt_vm P) n) e'"
  shows "\<exists>A'. place_rely X S P cap oc guests (e, A) (e', A')"
proof -
  note d = place_relD [OF rel]
  let ?rest = "filter (\<lambda>x. obj_name x \<noteq> n) (kc_vms A)"
  have grows: "kc_rev A \<le> nat (et_head X e')" using drop d(2) by (simp add: drops_def nat_mono)
  have same: "et_look X e' k = et_look X e k" if "k \<noteq> obj_key S (pt_vm P) n" for k
    using drop that by (simp add: drops_def)
  note rest = vms_rest [OF rel same]
  have "place_rely X S P cap oc guests (e, A) (e', A\<lparr>kc_vms := ?rest, kc_rev := nat (et_head X e')\<rparr>)"
    if "commit_steps (st_json S) cap oc A (A\<lparr>kc_vms := ?rest, kc_rev := nat (et_head X e')\<rparr>)"
  proof (rule rely_step [OF rel _ drops_moves [OF drop] that])
    show "directory X S (pt_vm P) e' (kc_vms (A\<lparr>kc_vms := ?rest, kc_rev := nat (et_head X e')\<rparr>))"
      using directory_drop [OF d(3) drop] by simp
    show "distinct (vm_uids (kc_vms (A\<lparr>kc_vms := ?rest, kc_rev := nat (et_head X e')\<rparr>)))"
      using d(4) by (simp add: vm_uids_def distinct_map_filter)
  qed (use d rest drop in \<open>auto simp: drops_def sizes_ok_def\<close>)
  note match = this
  show ?thesis
  proof (cases "\<exists>v\<in>set (kc_vms A). obj_name v = n")
    case True
    then obtain v where v: "v \<in> set (kc_vms A)" "obj_name v = n" by blast
    have "obj_name w \<noteq> n \<longleftrightarrow> md_uid (metadata w) \<noteq> md_uid (metadata v)" if "w \<in> set (kc_vms A)" for w
      using same_uid [OF d(4) v(1) that] directoryD(1) [OF d(3)] v that by (auto simp: distinct_map inj_on_def)
    then have "?rest = filter (\<lambda>w. md_uid (metadata w) \<noteq> md_uid (metadata v)) (kc_vms A)"
      by (intro filter_cong) auto
    then show ?thesis
      using match step_then_drift [OF vm_deleted [of "st_json S" cap oc A "md_uid (metadata v)"]] grows
      by auto
  next
    case False
    then have "?rest = kc_vms A" by (intro filter_True) auto
    then show ?thesis using match drift [OF grows, of "st_json S" cap oc] by auto
  qed
qed

text \<open>Everything the environment does is a step of the protocol.\<close>

lemma env_step:
  assumes "place_env X S P cap guests e e'" and rel: "place_rel X S P cap guests (e, A)"
  shows "\<exists>A'. place_rely X S P cap oc guests (e, A) (e', A')"
  using assms(1)
proof cases
  case env_outside
  then show ?thesis using step_away [OF rel] by blast
next
  case (env_node_written n v)
  then show ?thesis
    by (intro step_node [OF rel, where n = n]) (auto simp: puts_def put_entry_def intro: puts_moves)
next
  case (env_node_removed n)
  then show ?thesis
    by (intro step_node [OF rel, where n = n]) (auto simp: drops_def intro: drops_moves)
next
  case (env_vm_created v b)
  then show ?thesis by (intro step_created [OF rel])
next
  case (env_vm_edited old v b)
  then show ?thesis by (intro step_edited [OF rel])
next
  case (env_vm_removed n)
  then show ?thesis by (rule step_removed [OF rel])
next
  case (env_claim_removed n)
  then show ?thesis by (rule step_released [OF rel])
next
  case (env_migration_claimed r m v node uid now b)
  have "obj_name r \<noteq> PLACEMENT_CLAIM_PREFIX @ u" for u
    using env_migration_claimed(2) by (auto simp: PLACEMENT_CLAIM_PREFIX_def)
  then show ?thesis
    using env_migration_claimed
    by (intro step_claimed [OF rel env_migration_claimed(3-5)] claim_migration) auto
qed

end

sublocale placing \<subseteq> rep: replica X "place_rely X S P cap oc guests" "place_rely X S P cap oc guests"
proof unfold_locales
  fix s s1 s2 s3 e g e'
  show "place_rely X S P cap oc guests s (e, g) \<Longrightarrow> et_ok X e"
    using place_relD(1) by (auto simp: place_rely_def)
  show "place_rely X S P cap oc guests s1 s2 \<Longrightarrow> place_rely X S P cap oc guests s2 s3 \<Longrightarrow>
      place_rely X S P cap oc guests s1 s3"
    by (rule place_rely_trans)
  show "place_rely X S P cap oc guests s1 s2 \<Longrightarrow> place_rely X S P cap oc guests s2 s2"
    by (rule place_rely_refl) (simp add: place_rely_def)
  assume r: "place_rely X S P cap oc guests s (e, g)" and "et_ok X e'" "unchanged X e e'"
  then have rel: "place_rel X S P cap guests (e, g)" and out: "outside X (place_keys S P) e e'"
    and head: "et_head X e' = et_head X e"
    by (auto simp: place_rely_def outside_def unchanged_def)
  have "nat (et_head X e') = kc_rev g" using place_relD(2) [OF rel] head by simp
  then have "g\<lparr>kc_rev := nat (et_head X e')\<rparr> = g" by simp
  then have "place_rely X S P cap oc guests (e, g) (e', g)" using step_away [OF rel out] by simp
  then show "place_rely X S P cap oc guests s (e', g) \<and> place_rely X S P cap oc guests (e, g) (e', g)"
    using place_rely_trans [OF r] by blast
qed

context placing
begin

abbreviation (input) rely where "rely \<equiv> place_rely X S P cap oc guests"

lemma rely_rel: "rely s s' \<Longrightarrow> place_rel X S P cap guests s'"
  by (simp add: place_rely_def)

lemma rely_knows_claim: "rely s s' \<Longrightarrow> knows X S (pt_claim P) (fst s) r \<Longrightarrow> knows X S (pt_claim P) (fst s') r"
  by (rule knows_moves) (auto simp: place_rely_def place_keys_def)

lemma rely_knows_vm: "rely s s' \<Longrightarrow> knows X S (pt_vm P) (fst s) v \<Longrightarrow> knows X S (pt_vm P) (fst s') v"
  by (rule knows_moves) (auto simp: place_rely_def place_keys_def)

lemma rely_settled_claim:
  assumes r: "rely s s'" and rel: "place_rel X S P cap guests s"
    and k: "knows X S (pt_claim P) (fst s) mine" and t: "settled_claim mine s"
  shows "settled_claim mine s'"
proof -
  obtain v where v: "md_resource_version (metadata mine) = int_display v" "0 < v" "v \<le> et_head X (fst s)"
    using k by (auto simp: knows_def)
  have "kc_rev (snd s) = nat (et_head X (fst s))" using rel place_relD(2) by (cases s) auto
  then have "md_resource_version (metadata mine) = dec (nat v)" "nat v \<le> kc_rev (snd s)"
    using v by (simp_all add: int_display_def)
  then show ?thesis
    using ok_or_gone [of "st_json S" cap oc "snd s" "snd s'" mine "nat v"] r t by (simp add: place_rely_def settled_claim_def)
qed

lemma release_ok:
  assumes rel: "place_rel X S P cap guests s" and out: "\<And>s'. rely s s' \<Longrightarrow> Q () s'"
  shows "guarded X rely rely (release S P mine) Q s"
  unfolding release_def guarded_and_then guarded.simps(1)
proof (rule rep.delete_if_rule, goal_cases)
  case 1 show ?case by (rule out) (rule place_rely_refl [OF rel])
next
  case (2 e g err) then show ?case by (intro out)
next
  case (3 e g e' rv r)
  obtain g' where "rely (e, g) (e', g')"
    using step_released [OF rely_rel [OF 3(1)]] 3(4) unfolding obj_key_def by blast
  then show ?case using out place_rely_trans [OF 3(1)] by blast
qed

lemma events_avoid: "avoids (place_keys S P) (record_event S (pt_event P) h)"
proof -
  have key: "store_key S (RESOURCE (pt_event P)) n \<notin> place_keys S P" for n
    by (simp add: event_type apart)
  show ?thesis
    unfolding record_event_def create_with_ttl_def Let_def mutate_def
    by (intro avoids_now avoids_uid avoids_and_then avoids_try_timed avoids_create key)
      (auto simp: request_writes_def split: sum.splits store_error.splits
        intro!: avoids_and_then avoids_mutate_loop key)
qed

lemma event_ok:
  assumes rel: "place_rel X S P cap guests s" and out: "\<And>s'. rely s s' \<Longrightarrow> Q () s'"
  shows "guarded X rely rely (record_event S (pt_event P) h) Q s"
proof (rule rep.avoiding_rule [OF _ _ _ events_avoid])
  show "\<exists>g'. rely (e, g) (e', g') \<and> rely s (e', g')"
    if "rely s (e, g)" "outside X (place_keys S P) e e'" for s e g e'
    using step_away [OF rely_rel [OF that(1)] that(2)] place_rely_trans [OF that(1)] by blast
qed (use out place_rely_refl [OF rel] in simp_all)

text \<open>What a read of the guests' directory returns stands there, under the name that was asked for.\<close>

lemma found_stands:
  assumes d: "directory X S T e xs" and x: "et_look X e (obj_key S T n) = Some x"
    and obj: "decode T (en_value x) (en_mod_revision x) = Inr obj"
  shows "obj_name obj = n" "stands X S T e obj"
proof -
  show "obj_name obj = n" using directoryD(3) [OF d in_dir_key x obj] by simp
  then show "stands X S T e obj" using x obj by (auto simp: stands_def)
qed

lemma wanted_by_spec_only: "spec v = spec w \<Longrightarrow> wanted_by J v = wanted_by J w"
  by (simp add: wanted_by_def)

lemma decode_vm:
  assumes "encode (pt_vm P) v now = Inr b"
  obtains w where "decode (pt_vm P) b r = Inr w" "obj_name w = obj_name v"
    "md_uid (metadata w) = md_uid (metadata v)" "spec w = spec v"
  using codec.decode_encode [OF vm_codec assms, of r] that by (simp add: Let_def vm_type)

text \<open>An edit of a guest's status, written over the guest that was read.\<close>

lemma touch_ok:
  assumes rel: "place_rel X S P cap guests s" and k: "knows X S (pt_vm P) (fst s) old"
    and v: "metadata v = metadata old" "spec v = spec old"
    and out: "\<And>r s'. rely s s' \<Longrightarrow> Q r s'"
  shows "guarded X rely rely (update S (pt_vm P) v) Q s"
proof (rule rep.update_rule)
  have moved: "\<exists>g'. rely (e, g) (e', g') \<and> rely s (e', g')"
    if r: "rely s (e, g)" and x: "et_look X e (store_key S (RESOURCE (pt_vm P)) (obj_name v)) = Some x"
      "parse_i64 (md_resource_version (metadata v)) = Some (en_mod_revision x)"
      and b: "encode (pt_vm P) v now = Inr b"
      and put: "puts X e (store_key S (RESOURCE (pt_vm P)) (obj_name v)) b e'" for e g e' x b now
  proof -
    have "stands X S (pt_vm P) e old"
      by (rule knows_found [where rv = "en_mod_revision x"])
        (use rely_knows_vm [OF r k] x v(1) in \<open>simp_all add: obj_key_def\<close>)
    moreover obtain w where "decode (pt_vm P) b (et_head X e') = Inr w" "obj_name w = obj_name v"
        "md_uid (metadata w) = md_uid (metadata v)" "spec w = spec v"
      by (rule decode_vm [OF b])
    ultimately have "\<exists>g'. rely (e, g) (e', g')"
      using v wanted_by_spec_only [of w old] put
      by (intro step_edited [OF rely_rel [OF r], of old w]) (auto simp: obj_key_def)
    then show ?thesis using place_rely_trans [OF r] by blast
  qed
  show "\<exists>g'. rely (e, g) (e', g') \<and> Q (Inl err) (e', g')"
    if "rely s (e, g)" "et_look X e (store_key S (RESOURCE (pt_vm P)) (obj_name v)) = Some x"
      "parse_i64 (md_resource_version (metadata v)) = Some (en_mod_revision x)"
      "encode (pt_vm P) v now = Inr b" "puts X e (store_key S (RESOURCE (pt_vm P)) (obj_name v)) b e'"
    for e g e' x b now err
    using moved [OF that] out by blast
  show "\<exists>g'. rely (e, g) (e', g') \<and> Q (decode (pt_vm P) b (et_head X e')) (e', g') \<and>
      (always_headed X \<or> guarded X rely rely (store_get S (pt_vm P) (obj_name v)) Q (e', g'))"
    if "rely s (e, g)" "et_look X e (store_key S (RESOURCE (pt_vm P)) (obj_name v)) = Some x"
      "parse_i64 (md_resource_version (metadata v)) = Some (en_mod_revision x)"
      "encode (pt_vm P) v now = Inr b" "puts X e (store_key S (RESOURCE (pt_vm P)) (obj_name v)) b e'"
    for e g e' x b now
    using moved [OF that] out headed by blast
qed (use out place_rely_refl [OF rel] in blast)+

lemma edits_ok:
  assumes keeps: "\<And>v now. metadata (f now v) = metadata v" "\<And>v now. spec (f now v) = spec v"
  shows "place_rel X S P cap guests s \<Longrightarrow> (\<And>r s'. rely s s' \<Longrightarrow> Q r s') \<Longrightarrow>
    guarded X rely rely
      (mutate_if_loop n S (pt_vm P) name uid (\<lambda>v. and_then utc_now (\<lambda>now. Done (f now v)))) Q s"
proof (induction n arbitrary: s)
  case 0
  show ?case by (simp, intro 0(2) place_rely_refl [OF 0(1)])
next
  case (Suc n)
  note out = Suc.prems(2)
  have again: "guarded X rely rely
      (mutate_if_loop n S (pt_vm P) name uid (\<lambda>v. and_then utc_now (\<lambda>now. Done (f now v)))) Q s1"
    if "rely s s1" for s1
    using Suc.IH [OF rely_rel [OF that]] out place_rely_trans [OF that] by blast
  show ?case
    unfolding mutate_if_loop.simps try_then_def guarded_and_then
  proof (rule rep.get_rule, goal_cases)
    case (1 e g err) then show ?case using out by simp
  next
    case (2 e g) then show ?case using out by simp
  next
    case (3 e g x)
    show ?case
    proof (cases "decode (pt_vm P) (en_value x) (en_mod_revision x)")
      case (Inl err) then show ?thesis using out 3 by simp
    next
      case (Inr v)
      have st: "stands X S (pt_vm P) e v"
        using found_stands(2) [OF place_relD(3) [OF rely_rel [OF 3(1)]] _ Inr] 3(2) by (simp add: obj_key_def)
      have k: "knows X S (pt_vm P) e v"
        by (rule knows_stands [OF place_relD(1) [OF rely_rel [OF 3(1)]] st])
      have edit: "guarded X rely rely (and_then utc_now (\<lambda>now. Done (f now v)))
          (\<lambda>w. guarded X rely rely (retry_conflict (update S (pt_vm P) w)
            (mutate_if_loop n S (pt_vm P) name uid (\<lambda>v. and_then utc_now (\<lambda>now. Done (f now v))))) Q) (e, g)"
      proof (rule rep.now_rule)
        fix t e1 g1
        assume r1: "rely (e, g) (e1, g1)"
        have r: "rely s (e1, g1)" by (rule place_rely_trans [OF 3(1) r1])
        have "guarded X rely rely (update S (pt_vm P) (f t v)) (\<lambda>r. guarded X rely rely
            (case r of Inl (Conflict m) \<Rightarrow> mutate_if_loop n S (pt_vm P) name uid (\<lambda>v. and_then utc_now (\<lambda>now. Done (f now v)))
              | Inl err \<Rightarrow> Done (Inl err) | Inr o1 \<Rightarrow> Done (Inr o1)) Q) (e1, g1)"
          by (rule touch_ok [OF rely_rel [OF r], of v])
            (use rely_knows_vm [OF r1] k keeps out again place_rely_trans [OF r] in
              \<open>auto split: sum.splits store_error.splits\<close>)
        then show "guarded X rely rely (Done (f t v)) (\<lambda>w. guarded X rely rely (retry_conflict (update S (pt_vm P) w)
            (mutate_if_loop n S (pt_vm P) name uid (\<lambda>v. and_then utc_now (\<lambda>now. Done (f now v))))) Q) (e1, g1)"
          by (simp add: retry_conflict_def guarded_and_then)
      qed
      show ?thesis using edit out 3(1) by (simp add: Inr guarded_and_then guarded_Done)
    qed
  qed
qed

lemma pending_ok:
  assumes rel: "place_rel X S P cap guests s" and out: "\<And>r s'. rely s s' \<Longrightarrow> Q r s'"
  shows "guarded X rely rely (note_vm_pending S P v why text1) Q s"
proof -
  have "guarded X rely rely
      (mutate_if S (pt_vm P) (obj_name v) (md_uid (metadata v)) (\<lambda>v.
           and_then utc_now (\<lambda>now. Done (v\<lparr>status := (status v)
             \<lparr>vt_placement := Some \<lparr>vp_reason = category why, vp_message = text1, vp_at = now\<rparr>\<rparr>\<rparr>))))
      (\<lambda>r. guarded X rely rely (case r of
            Inl e \<Rightarrow> Done (Inl (store_error_display e))
          | Inr _ \<Rightarrow>
              and_then (record_event S (pt_event P)
                 (vm_happening v REASON_FAILED_SCHEDULING text1 EvWarning)) (\<lambda>_. Done (Inr ()))) Q) s"
    unfolding mutate_if_def
  proof (rule edits_ok [OF _ _ rel])
    fix r s' assume r: "rely s s'"
    show "guarded X rely rely (case r of
            Inl e \<Rightarrow> Done (Inl (store_error_display e))
          | Inr _ \<Rightarrow>
              and_then (record_event S (pt_event P)
                 (vm_happening v REASON_FAILED_SCHEDULING text1 EvWarning)) (\<lambda>_. Done (Inr ()))) Q s'"
      using out r place_rely_trans [OF r]
      by (auto simp: guarded_and_then split: sum.splits intro!: event_ok [OF rely_rel [OF r]])
  qed simp_all
  then show ?thesis
    using out place_rely_refl [OF rel] by (simp add: note_vm_pending_def guarded_and_then)
qed

text \<open>Confirming: a yes on one reading of guests and claims is recorded for a claim that stands.\<close>

lemma step_confirmed:
  assumes rel: "place_rel X S P cap guests (e, A)" and ok: "et_ok X e'" and un: "unchanged X e e'"
    and r: "r \<in> set (kc_held A)" and n: "nst_capacity (status n) = cap (cr_node (spec r))"
    and yes: "confirmed (st_json S) (Inr n) (Inr (kc_vms A, kc_held A)) r oc = Inr True"
  shows "rely (e, A) (e', A\<lparr>kc_ok := insert r (kc_ok A)\<rparr>)"
proof (rule rely_step [OF rel ok])
  note d = place_relD [OF rel]
  have same: "et_look X e' = et_look X e" "et_head X e' = et_head X e" using un by (simp_all add: unchanged_def)
  show "key_moves X k e e'" for k using same by (simp add: key_moves_same)
  show "commit_steps (st_json S) cap oc A (A\<lparr>kc_ok := insert r (kc_ok A)\<rparr>)"
    by (rule r_into_rtranclp, rule confirm [where n = n]) (use r n yes in simp_all)
  show "directory X S (pt_vm P) e' (kc_vms (A\<lparr>kc_ok := insert r (kc_ok A)\<rparr>))"
    "directory X S (pt_claim P) e' (kc_held (A\<lparr>kc_ok := insert r (kc_ok A)\<rparr>))"
    using directory_away [OF d(3)] directory_away [OF d(5)] same by auto
  show "node_caps X S P cap e'" using d(7) same by (simp add: node_caps_def)
qed (use place_relD(2,4,6,8) [OF rel] un in \<open>simp_all add: unchanged_def\<close>)

lemma holds_ok:
  assumes rel: "place_rel X S P cap guests s"
    and out: "\<And>r s'. rely s s' \<Longrightarrow> (r = Inr True \<Longrightarrow> settled_claim mine s') \<Longrightarrow> Q r s'"
  shows "guarded X rely rely (claim_holds S P mine oc) Q s"
proof -
  have listing: "guarded X rely rely (list2 S (pt_vm P) (pt_claim P)) (\<lambda>seen. guarded X rely rely
      (Done (confirmed (st_json S) nd (map_sum store_error_display id seen) mine oc)) Q) s1"
    if r1: "rely s s1" and nd: "\<And>n. nd = Inr n \<Longrightarrow> nst_capacity (status n) = cap (cr_node (spec mine))" for nd s1
  proof (rule rep.list2_rule, goal_cases)
    case (1 e g err)
    have "confirmed (st_json S) nd (Inl m) mine oc \<noteq> Inr True" for m
      by (auto simp: confirmed_def split: sum.splits)
    then show ?case
      unfolding guarded.simps(1) map_sum.simps by (intro out place_rely_trans [OF r1 1]) blast
  next
    case (2 e g e' kvs1 kvs2)
    note rel2 = rely_rel [OF 2(1)]
    let ?seen = "(decode_range (pt_vm P) kvs1, decode_range (pt_claim P) kvs2)"
    note onward = place_rely_trans [OF place_rely_trans [OF r1 2(1)]]
    show ?case
    proof (cases "confirmed (st_json S) nd (Inr ?seen) mine oc = Inr True \<and> mine \<in> set (kc_held g)")
      case True
      then obtain n where n: "nd = Inr n" by (cases nd) (auto simp: confirmed_def)
      have "confirmed (st_json S) (Inr n) (Inr (kc_vms g, kc_held g)) mine oc = Inr True"
        using True confirmed_perm [OF directory_range [OF place_relD(3) [OF rel2] 2(2)]
            directory_range [OF place_relD(5) [OF rel2] 2(3)]] n by simp
      then have st: "rely (e, g) (e', g\<lparr>kc_ok := insert mine (kc_ok g)\<rparr>)"
        using step_confirmed [OF rel2 2(5,4)] True nd [OF n] by blast
      have "Q (confirmed (st_json S) nd (Inr ?seen) mine oc) (e', g\<lparr>kc_ok := insert mine (kc_ok g)\<rparr>)"
        by (rule out [OF onward [OF st]]) (simp add: settled_claim_def)
      then show ?thesis using st by auto
    next
      case False
      have st: "rely (e, g) (e', g)" using rep.still [OF 2(1,5,4)] by blast
      have "Q (confirmed (st_json S) nd (Inr ?seen) mine oc) (e', g)"
        by (rule out [OF onward [OF st]]) (use False in \<open>simp add: settled_claim_def\<close>)
      then show ?thesis using st by auto
    qed
  qed
  show ?thesis
    unfolding claim_holds_def guarded_and_then
  proof (rule rep.get_rule, goal_cases)
    case (1 e g err) then show ?case by (intro listing) auto
  next
    case (2 e g) then show ?case by (intro listing) auto
  next
    case (3 e g x)
    show ?case
    proof (rule listing [OF 3(1)])
      fix n assume "map_sum store_error_display id (decode (pt_node P) (en_value x) (en_mod_revision x)) = Inr n"
      then have "decode (pt_node P) (en_value x) (en_mod_revision x) = Inr n"
        by (cases "decode (pt_node P) (en_value x) (en_mod_revision x)") auto
      then show "nst_capacity (status n) = cap (cr_node (spec mine))"
        using place_relD(7) [OF rely_rel [OF 3(1)]] 3(2) by (simp add: node_caps_def obj_key_def)
    qed
  qed
qed

text \<open>Binding: the transaction succeeds only over the guest this pass read and under the claim it holds.\<close>

lemma bind_ok:
  assumes rel: "place_rel X S P cap guests s" and k: "knows X S (pt_claim P) (fst s) mine"
    and t: "settled_claim mine s" and mine: "is_placement_of mine (guests i)" "cr_node (spec mine) = node"
    and out: "\<And>r s'. rely s s' \<Longrightarrow> Q r s'"
  shows "guarded X rely rely (bind_claimed S P (guests i) node mine) Q s"
proof -
  let ?v = "bind_vm node (guests i)"
  let ?after = "\<lambda>r. case r of
          Inr _ \<Rightarrow> and_then (release S P mine) (\<lambda>_. and_then (record_event S (pt_event P)
               (vm_happening ?v REASON_SCHEDULED (''bound to node '' @ node) EvNormal)) (\<lambda>_. Done (Inr ())))
        | Inl (Conflict _) \<Rightarrow> and_then (release S P mine) (\<lambda>_. Done (Inr ()))
        | Inl e \<Rightarrow> Done (Inl (store_error_display e))"
  have after: "guarded X rely rely (?after r) Q s1" if r1: "rely s s1" for r s1
  proof -
    have rel': "guarded X rely rely (release S P mine) Q' s1" if "\<And>s'. rely s1 s' \<Longrightarrow> Q' () s'" for Q'
      by (rule release_ok [OF rely_rel [OF r1]]) (rule that)
    have ev: "guarded X rely rely (and_then (record_event S (pt_event P) h) (\<lambda>_. Done (Inr ()))) Q s2"
      if r2: "rely s1 s2" for h s2
      unfolding guarded_and_then guarded_Done
      by (rule event_ok [OF rely_rel [OF r2]]) (intro out place_rely_trans [OF place_rely_trans [OF r1 r2]])
    have "guarded X rely rely (and_then (release S P mine) (\<lambda>_. and_then (record_event S (pt_event P) h) (\<lambda>_. Done (Inr ())))) Q s1" for h
      unfolding guarded_and_then [of _ _ _ "release S P mine"] by (intro rel' ev)
    moreover have "guarded X rely rely (and_then (release S P mine) (\<lambda>_. Done (Inr ()))) Q s1"
      unfolding guarded_and_then guarded_Done by (intro rel' out place_rely_trans [OF r1])
    ultimately show ?thesis using out r1 by (auto split: sum.splits store_error.splits)
  qed
  have bound: "\<exists>g'. rely (e, g) (e', g') \<and> rely s (e', g')"
    if r: "rely s (e, g)" and x: "et_look X e (store_key S (RESOURCE (pt_vm P)) (obj_name ?v)) = Some x"
      "parse_i64 (md_resource_version (metadata ?v)) = Some (en_mod_revision x)"
      and y: "parse_i64 (md_resource_version (metadata mine)) = Some y"
        "compare_holds (et_look X e) (ModRevisionEq (store_key S (RESOURCE (pt_claim P)) (obj_name mine)) y)"
      and b: "encode (pt_vm P) ?v now = Inr b"
      and put: "puts X e (store_key S (RESOURCE (pt_vm P)) (obj_name ?v)) b e'" for e g e' x y b now
  proof -
    note rel2 = rely_rel [OF r]
    have old: "stands X S (pt_vm P) e (guests i)"
      by (rule knows_found [OF place_relD(9) [OF rel2], where rv = "en_mod_revision x"])
        (use x in \<open>simp_all add: obj_key_def\<close>)
    have claim: "stands X S (pt_claim P) e mine"
      by (rule knows_found [where rv = y]) (use rely_knows_claim [OF r k] y in \<open>simp_all add: obj_key_def\<close>)
    then have "mine \<in> kc_ok g"
      using rely_settled_claim [OF r rel k t] directoryD(2) [OF place_relD(5) [OF rel2]]
      by (simp add: settled_claim_def)
    moreover obtain w where "decode (pt_vm P) b (et_head X e') = Inr w" "obj_name w = obj_name ?v"
        "md_uid (metadata w) = md_uid (metadata ?v)" "spec w = spec ?v"
      by (rule decode_vm [OF b])
    ultimately have "\<exists>g'. rely (e, g) (e', g')"
      using mine put old claim unbound [of i] wanted_by_spec_only [of w ?v "st_json S"]
      by (intro step_bound [OF rel2 old, of mine w]) (auto simp: obj_key_def)
    then show ?thesis using place_rely_trans [OF r] by blast
  qed
  have "guarded X rely rely (update_if_standing S (pt_vm P) (pt_claim P) ?v mine)
      (\<lambda>r. guarded X rely rely (?after r) Q) s"
  proof (rule rep.update_if_standing_rule, goal_cases)
    case (3 e g e' x y b now err)
    then show ?case using bound [OF 3(1-7)] after by blast
  next
    case (4 e g e' x y b now)
    then show ?case using bound [OF 4(1-7)] after headed by blast
  qed (use after place_rely_refl [OF rel] in blast)+
  then show ?thesis unfolding bind_claimed_def Let_def by (subst guarded_and_then)
qed

text \<open>Claiming: what comes back as a claim is this guest's, and stands or stood as it was read.\<close>

definition claim_post :: "'i \<Rightarrow> string \<Rightarrow> 'e \<times> 'j commit_state \<Rightarrow> string + claimed \<Rightarrow> 'e \<times> 'j commit_state \<Rightarrow> bool" where
  "claim_post i node s r s' \<longleftrightarrow> rely s s' \<and>
     (\<forall>mine. r = Inr (Fresh mine) \<or> r = Inr (Standing mine) \<longrightarrow>
        knows X S (pt_claim P) (fst s') mine \<and> is_placement_of mine (guests i)) \<and>
     (\<forall>mine. r = Inr (Fresh mine) \<longrightarrow> cr_node (spec mine) = node)"

lemma decode_claim:
  assumes "encode (pt_claim P) (want\<lparr>metadata := metadata want\<lparr>md_generation := 1\<rparr>\<rparr>) now = Inr b" "0 \<le> r"
  shows "decode (pt_claim P) b r = Inr (stored want (nat r))"
  using codec.decode_encode [OF claim_codec assms(1), of r] assms(2)
  by (simp add: Let_def claim_type stored_def int_display_def)

lemma for_placement_is:
  "is_placement_of (stored (for_placement J v node uid now) at) v"
  "cr_node (spec (stored (for_placement J v node uid now) at)) = node"
  "cr_claimant (spec (stored (for_placement J v node uid now) at)) = ClaimPlacement"
  by (simp_all add: is_placement_of_def for_placement_def Let_def declare_object_def object_new_def)

lemma claim_written:
  assumes rel: "place_rel X S P cap guests (e, A)"
    and free: "et_look X e (obj_key S (pt_claim P) (obj_name want)) = None"
    and want: "want = for_placement (st_json S) (guests i) node uid now"
    and b: "encode (pt_claim P) (want\<lparr>metadata := metadata want\<lparr>md_generation := 1\<rparr>\<rparr>) t = Inr b"
    and put: "puts X e (obj_key S (pt_claim P) (obj_name want)) b e'"
  obtains A' mine where "rely (e, A) (e', A')" "decode (pt_claim P) b (et_head X e') = Inr mine"
    "knows X S (pt_claim P) e' mine" "is_placement_of mine (guests i)" "cr_node (spec mine) = node"
proof -
  let ?mine = "stored want (nat (et_head X e'))"
  have ok: "et_ok X e'" using put by (simp add: puts_def)
  have dec: "decode (pt_claim P) b (et_head X e') = Inr ?mine"
    by (rule decode_claim [OF b]) (use head_i64 [OF ok] in simp)
  have sizes: "\<forall>w\<in>set (kc_vms A). md_uid (metadata w) = md_uid (metadata (guests i)) \<longrightarrow>
      wanted_by (st_json S) w = wanted_by (st_json S) (guests i)"
    using place_relD(8) [OF rel] by (simp add: sizes_ok_def)
  have "\<exists>A'. rely (e, A) (e', A')"
  proof (rule step_claimed [OF rel _ _ dec])
    show "commit_step (st_json S) cap oc A (A\<lparr>kc_held := kc_held A @ [?mine], kc_rev := Suc (kc_rev A)\<rparr>)"
      if "obj_name ?mine \<notin> set (held_names (kc_held A))" "Suc (kc_rev A) < 2 ^ 63"
        "nat (et_head X e') = Suc (kc_rev A)"
      by (rule claim_placement [OF sizes that(2) _ that(1)]) (simp add: want that(3))
    show "cr_claimant (spec ?mine) = ClaimPlacement \<and> cr_vm_uid (spec ?mine) = u"
      if "obj_name ?mine = PLACEMENT_CLAIM_PREFIX @ u" for u
      using that for_placement_is(3) by (simp add: want)
  qed (use free put in simp_all)
  then obtain A' where A': "rely (e, A) (e', A')" by blast
  have "stands X S (pt_claim P) e' ?mine"
    using put dec by (simp add: stands_def puts_def put_entry_def)
  then have "knows X S (pt_claim P) e' ?mine" by (rule knows_stands [OF ok])
  then show ?thesis using that [OF A' dec] for_placement_is(1,2) unfolding want by blast
qed

lemma claim_ok:
  assumes rel: "place_rel X S P cap guests s"
  shows "guarded X rely rely (claim S P (guests i) node) (claim_post i node s) s"
proof -
  have standing: "guarded X rely rely
      (and_then (store_get S (pt_claim P) name) (\<lambda>r.
             case r of
               Inr other \<Rightarrow>
                 if is_placement_of other (guests i) then Done (Inr (Standing other)) else Done (Inl (why other))
             | Inl (NotFound _) \<Rightarrow> Done (Inr Gone)
             | Inl e \<Rightarrow> Done (Inl (store_error_display e)))) (claim_post i node s) s1"
    if r1: "rely s s1" for name why s1
    unfolding guarded_and_then
  proof (rule rep.get_rule, goal_cases)
    case (1 e g err)
    then show ?case using place_rely_trans [OF r1 1(1)]
      by (auto simp: claim_post_def split: store_error.splits)
  next
    case (2 e g)
    then show ?case using place_rely_trans [OF r1 2(1)] by (simp add: claim_post_def)
  next
    case (3 e g x)
    note rel3 = rely_rel [OF 3(1)] and r3 = place_rely_trans [OF r1 3(1)]
    show ?case
    proof (cases "decode (pt_claim P) (en_value x) (en_mod_revision x)")
      case (Inl err)
      then show ?thesis using r3 decode_Inl [OF Inl] by (auto simp: claim_post_def)
    next
      case (Inr other)
      have "stands X S (pt_claim P) e other"
        using found_stands(2) [OF place_relD(5) [OF rel3] _ Inr] 3(2) by (simp add: obj_key_def)
      from knows_stands [OF place_relD(1) [OF rel3] this] show ?thesis
        using r3 Inr by (simp add: claim_post_def)
    qed
  qed
  have made: "guarded X rely rely
      (and_then (create S (pt_claim P) want) (\<lambda>r.
            case r of
              Inr mine \<Rightarrow> Done (Inr (Fresh mine))
            | Inl (AlreadyExists _) \<Rightarrow> again
            | Inl (Terminating _) \<Rightarrow> again
            | Inl e \<Rightarrow> Done (Inl (store_error_display e)))) (claim_post i node s) s1"
    if want: "want = for_placement (st_json S) (guests i) node uid now" and r1: "rely s s1"
      and again: "\<And>s2. rely s s2 \<Longrightarrow> guarded X rely rely again (claim_post i node s) s2" for want uid now s1 again
    unfolding guarded_and_then create_def
  proof (rule rep.create_rule, goal_cases)
    case (1 err) then show ?case using r1 by (simp add: claim_post_def)
  next
    case (2 e g err)
    then show ?case using place_rely_trans [OF r1 2(1)] by (cases err) (auto simp: claim_post_def)
  next
    case (3 e g x err)
    then show ?case using again [OF place_rely_trans [OF r1 3(1)]] by auto
  next
    case (4 e g e' b t err)
    obtain A' where "rely (e, g) (e', A')"
      by (rule claim_written [OF rely_rel [OF 4(1)] _ want 4(3)]) (use 4 in \<open>auto simp: obj_key_def\<close>)
    then show ?case using place_rely_trans [OF place_rely_trans [OF r1 4(1)]] 4(5)
      by (cases err) (auto simp: claim_post_def)
  next
    case (5 e g e' b t)
    obtain A' mine where "rely (e, g) (e', A')" "decode (pt_claim P) b (et_head X e') = Inr mine"
        "knows X S (pt_claim P) e' mine" "is_placement_of mine (guests i)" "cr_node (spec mine) = node"
      by (rule claim_written [OF rely_rel [OF 5(1)] _ want 5(4)]) (use 5 in \<open>auto simp: obj_key_def\<close>)
    then show ?case using place_rely_trans [OF place_rely_trans [OF r1 5(1)]] headed
      by (intro exI [of _ A']) (auto simp: claim_post_def)
  qed
  show ?thesis
    unfolding claim_def Let_def
    by (intro rep.uid_rule rep.now_rule made refl standing) (auto intro: place_rely_trans)
qed

lemma confirm_ok:
  assumes rel: "place_rel X S P cap guests s" and k: "knows X S (pt_claim P) (fst s) mine"
    and mine: "is_placement_of mine (guests i)" "cr_node (spec mine) = node"
    and out: "\<And>r s'. rely s s' \<Longrightarrow> Q r s'"
  shows "guarded X rely rely (confirm_and_bind S P oc (guests i) node mine) Q s"
  unfolding confirm_and_bind_def guarded_and_then [of _ _ _ "claim_holds S P mine oc"]
proof (rule holds_ok [OF rel])
  fix r :: "string + bool" and s1
  assume r1: "rely s s1" and yes: "r = Inr True \<Longrightarrow> settled_claim mine s1"
  note rel1 = rely_rel [OF r1] and k1 = rely_knows_claim [OF r1 k] and out1 = out [OF place_rely_trans [OF r1]]
  have "guarded X rely rely (and_then (release S P mine) (\<lambda>_. note_vm_pending S P (guests i) why text1)) Q s1" for why text1
    unfolding guarded_and_then
  proof (rule release_ok [OF rel1])
    fix s2 assume r2: "rely s1 s2"
    show "guarded X rely rely (note_vm_pending S P (guests i) why text1) Q s2"
      by (rule pending_ok [OF rely_rel [OF r2]]) (intro out1 place_rely_trans [OF r2])
  qed
  moreover have "guarded X rely rely (bind_claimed S P (guests i) node mine) Q s1" if "r = Inr True"
    by (rule bind_ok [OF rel1 k1 yes [OF that] mine]) (rule out1)
  ultimately show "guarded X rely rely
      (case r of
         Inr True \<Rightarrow> bind_claimed S P (guests i) node mine
       | Inr False \<Rightarrow>
           and_then (release S P mine) (\<lambda>_.
             note_vm_pending S P (guests i) NoCapacity
               (''node '' @ node @ '' had room when this pass began and another claim took it '' @
                ''first; measured again next pass''))
       | Inl e \<Rightarrow> Done (Inl (''vm '' @ md_name (metadata (guests i)) @ '': the room on '' @ node @
                    '' could not be confirmed; nothing was bound: '' @ e))) Q s1"
    using out r1 by (auto split: sum.splits bool.splits)
qed

lemma commit_ok:
  assumes rel: "place_rel X S P cap guests s"
  shows "guarded X rely rely (place_commit S P oc (guests i) node) (\<lambda>_ _. True) s"
  unfolding place_commit_def try_then_def guarded_and_then
proof (rule guarded_mono [OF claim_ok [OF rel]])
  fix r s1
  assume post: "claim_post i node s r s1"
  then have rel1: "place_rel X S P cap guests s1" using rely_rel unfolding claim_post_def by blast
  show "guarded X rely rely (case r of Inl e \<Rightarrow> Done (Inl e)
      | Inr c \<Rightarrow> (case c of
         Fresh mine \<Rightarrow> confirm_and_bind S P oc (guests i) node mine
       | Standing mine \<Rightarrow>
           if cr_node (spec mine) = node then confirm_and_bind S P oc (guests i) node mine else Done (Inr ())
       | Gone \<Rightarrow> Done (Inr ()))) (\<lambda>_ _. True) s1"
    using post by (auto simp: claim_post_def split: sum.splits claimed.splits intro!: confirm_ok [OF rel1])
qed

end

end
