(* ===== verification/Placement_Safety.thy ===== *)
theory Placement_Safety
  imports Placement_Refines Vni_Alloc
begin

text \<open>
  The two statements about any number of replicas that place guests at the same time, and a run of
  two of them over the service in memory.
\<close>

text \<open>A judgement may assume more of the others, and promise what follows where it is in force.\<close>

lemma guarded_conseq:
  assumes g: "guarded X R G m Q s" and i: "I s"
    and rely: "\<And>s s'. I s \<Longrightarrow> R' s s' \<Longrightarrow> R s s' \<and> I s'"
    and guar: "\<And>s s'. I s \<Longrightarrow> G s s' \<Longrightarrow> G' s s' \<and> I s'"
  shows "guarded X R' G' m Q s"
  using g i
proof (induction m arbitrary: s)
  case (Ask q k)
  have step: "\<exists>g'. G' (e, g) (e', g') \<and> guarded X R' G' (k r) Q (e', g')"
    if r: "R' s (e, g)" and sv: "et_serve X e q r e'" for e g r e'
  proof -
    note there = rely [OF Ask.prems(2) r]
    obtain g' where g': "G (e, g) (e', g')" "guarded X R G (k r) Q (e', g')"
      using Ask.prems(1) there sv by (simp, blast)
    have "G' (e, g) (e', g') \<and> I (e', g')" using guar there g'(1) by blast
    then show ?thesis using Ask.IH [OF rangeI, of r] g'(2) by blast
  qed
  then show ?case by simp
qed simp

lemma replicas_commit:
  fixes X :: "('e, 'b) etcd_ops" and guests :: "'i \<Rightarrow> 'j vm"
  assumes place: "placing X P guests" and start: "place_rel X S P cap guests (e0, A0)"
    and run: "sys_run X (place_env X S P cap guests)
      (e0, \<lambda>i. place_commit S P oc (guests i) (nodes i)) (e, ps)"
  shows "\<exists>A. place_rel X S P cap guests (e, A) \<and> commit_steps (st_json S) cap oc A0 A"
proof -
  let ?R = "place_rely X S P cap oc guests"
  let ?I = "\<lambda>s. commit_steps (st_json S) cap oc A0 (snd s)"
  let ?R' = "\<lambda>s s'. ?R s s' \<and> ?I s"
  have go: "?I s'" if "?I s" "?R s s'" for s s'
    using that by (auto simp: place_rely_def intro: rtranclp_trans)
  have refl: "?R' s s" if "?R' s1 s" for s s1
  proof -
    have "place_rel X S P cap guests s" using that by (simp add: place_rely_def)
    then show ?thesis using place_rely_refl go [of s1 s] that by blast
  qed
  have "\<exists>g. \<forall>i. \<exists>s. ?R' s (e, g) \<and> guarded X ?R' ?R' (ps i) (\<lambda>_ _. True) s"
  proof (rule replicas_together [OF run, where ?g0.0 = A0], goal_cases)
    case (1 i)
    show ?case
      by (rule guarded_conseq [OF placing.commit_ok [OF place start], where I = ?I]) (use go in auto)
  next
    case (2 i) show ?case using place_rely_refl [OF start] by simp
  next
    case (3 i s1 s2 s3) then show ?case using place_rely_trans by blast
  next
    case (4 i j s1 s2) then show ?case by simp
  next
    case (5 i s1 s2) then show ?case using refl by blast
  next
    case (6 e1 g1 e2)
    obtain s where s: "?R' s (e1, g1)" using 6(2) by blast
    then have rel: "place_rel X S P cap guests (e1, g1)" by (simp add: place_rely_def)
    obtain g2 where "?R (e1, g1) (e2, g2)" using placing.env_step [OF place 6(1) rel] by blast
    then show ?case using go [of s "(e1, g1)"] s by auto
  qed
  then obtain g s where "?R' s (e, g)" by blast
  then show ?thesis using go [of s "(e, g)"] by (auto simp: place_rely_def)
qed

section \<open>A guest placed over the service in memory\<close>

datatype doc = DocVm "json vm" | DocNode node | DocClaim capacity_reservation | DocEvent event

fun doc_vm :: "doc \<Rightarrow> string + json vm" where
  "doc_vm (DocVm v) = Inr v" | "doc_vm _ = Inl ''kind''"

fun doc_node :: "doc \<Rightarrow> string + node" where
  "doc_node (DocNode n) = Inr n" | "doc_node _ = Inl ''kind''"

fun doc_claim :: "doc \<Rightarrow> string + capacity_reservation" where
  "doc_claim (DocClaim r) = Inr r" | "doc_claim _ = Inl ''kind''"

fun doc_event :: "doc \<Rightarrow> string + event" where
  "doc_event (DocEvent e) = Inr e" | "doc_event _ = Inl ''kind''"

definition sample_types :: "(json, doc) placement_types" where
  "sample_types = \<lparr>pt_vm = vm_resource (\<lambda>_. []) (\<lambda>v. Inr (DocVm v)) doc_vm,
     pt_node = node_resource (\<lambda>n. Inr (DocNode n)) doc_node,
     pt_claim = reservation_resource (\<lambda>r. Inr (DocClaim r)) doc_claim,
     pt_event = event_resource (\<lambda>e. Inr (DocEvent e)) doc_event\<rparr>"

definition doc_store :: "(doc, json) store" where "doc_store = sample_store"

definition place_mem :: "doc mem" where
  "place_mem = \<lparr>mem_keys =
     [(''/m/registry/vms/a'',
        \<lparr>en_value = DocVm (sample_vm ''a'' 2 3000), en_create_revision = 2, en_mod_revision = 2\<rparr>),
      (''/m/registry/nodes/n1'',
        \<lparr>en_value = DocNode (sample_node ''n1'' 1 4096), en_create_revision = 1, en_mod_revision = 1\<rparr>)],
     mem_revision = 2\<rparr>"

definition sample_guest :: "json vm" where
  "sample_guest = (sample_vm ''a'' 2 3000)
     \<lparr>metadata := metadata (sample_vm ''a'' 2 3000)\<lparr>md_resource_version := ''2''\<rparr>\<rparr>"

definition place_start :: "json commit_state" where
  "place_start = \<lparr>kc_vms = [sample_guest], kc_held = [], kc_rev = 2, kc_ok = {}\<rparr>"

definition fresh_claim :: capacity_reservation where
  "fresh_claim = for_placement tree_ops sample_guest ''n1'' ''2'' 2"

definition my_claim :: capacity_reservation where
  "my_claim = stored fresh_claim 3"

definition claimed_mem :: "doc mem" where
  "claimed_mem = \<lparr>mem_keys =
     (''/m/registry/capacityreservations/place.uid-a'',
       \<lparr>en_value = DocClaim (fresh_claim\<lparr>metadata := metadata fresh_claim\<lparr>md_generation := 1\<rparr>\<rparr>),
        en_create_revision = 3, en_mod_revision = 3\<rparr>) # mem_keys place_mem, mem_revision = 3\<rparr>"

definition bound_mem :: "doc mem" where
  "bound_mem = fst (drive (Suc (Suc 0)) claimed_mem
     (bind_claimed doc_store sample_types sample_guest ''n1'' my_claim))"

lemma place_names: "check_name ''a'' DnsLabel = Inr ()" "check_name ''place.uid-a'' Dotted = Inr ()"
  by (simp_all add: check_name_iff MAX_NAME_def name_byte_def is_ascii_lowercase_def is_digit_def
      is_ascii_alphanumeric_def)

lemma dec_2_3: "dec 2 = ''2''" "dec 3 = ''3''" "int_display 3 = ''3''" "parse_i64 ''3'' = Some 3"
proof -
  have chars: "char_of (50 :: nat) = CHR ''2''" "char_of (51 :: nat) = CHR ''3''" by code_simp+
  show "dec 2 = ''2''" by (subst dec.simps) (simp add: digit_char_def chars)
  show "dec 3 = ''3''" by (subst dec.simps) (simp add: digit_char_def chars)
  then show three: "int_display 3 = ''3''" by (simp add: int_display_def)
  show "parse_i64 ''3'' = Some 3" using parse_int_display [of 3] three by simp
qed

lemma guest_eval:
  "md_uid (metadata sample_guest) = ''uid-a''" "md_resource_version (metadata sample_guest) = ''2''"
  "md_name (metadata sample_guest) = ''a''" "vs_node_name (spec sample_guest) = None"
  "sample_vm ''a'' 2 3000\<lparr>metadata := metadata (sample_vm ''a'' 2 3000)\<lparr>md_resource_version := ''2''\<rparr>\<rparr> = sample_guest"
  by (simp_all add: sample_guest_def) (simp_all add: sample_defs)

lemma claim_eval:
  "for_placement tree_ops sample_guest ''n1'' ''2'' 2 = fresh_claim"
  "md_name (metadata fresh_claim) = ''place.uid-a''" "md_resource_version (metadata fresh_claim) = []"
  "fresh_claim\<lparr>metadata := metadata fresh_claim\<lparr>md_generation := 1, md_resource_version := ''3''\<rparr>\<rparr> = my_claim"
  "cr_node (spec my_claim) = ''n1''" "md_resource_version (metadata my_claim) = ''3''"
  "md_name (metadata my_claim) = ''place.uid-a''"
  by (simp_all add: my_claim_def fresh_claim_def for_placement_def Let_def declare_object_def object_new_def
      PLACEMENT_CLAIM_PREFIX_def guest_eval metadata_default_def stored_def dec_2_3)

lemma my_claim_confirmed:
  "confirmed tree_ops (Inr (sample_node ''n1'' 1 4096
      \<lparr>metadata := metadata (sample_node ''n1'' 1 4096)\<lparr>md_resource_version := rv\<rparr>\<rparr>))
     (Inr ([sample_guest], [my_claim])) my_claim overcommit_default = Inr True"
proof -
  have "wanted_by tree_ops sample_guest = \<lparr>vcpus = 2, mem_mib = 3000\<rparr>"
    using sample_wanted by (simp add: wanted_by_def sample_guest_def)
  then have "cr_size (spec my_claim) = \<lparr>vcpus = 2, mem_mib = 3000\<rparr>" "ahead_of my_claim [my_claim] = []"
    by (simp_all add: my_claim_def fresh_claim_def ahead_of_def)
  moreover have "bound_on tree_ops node [sample_guest] = capacity_default" for node
    by (simp add: bound_on_def sample_guest_def sample_defs sum_caps_def)
  moreover have "nst_capacity (status (sample_node ''n1'' 1 4096)) = sample_capacity 1 4096"
    by (simp add: sample_node_def declare_object_def object_new_def)
  ultimately show ?thesis
    by (simp add: confirmed_def free_on_def sample_capacity_def sample_allowance reservation_holds_def
        sum_caps_def capacity_default_def minus_cap_def fits_in_def sat_sub_def)
qed

lemmas place_eval = mem_eval store_eval doc_store_def sample_store_def sample_types_def vm_resource_def
  node_resource_def reservation_resource_def event_resource_def PLACEMENT_CLAIM_PREFIX_def place_names
  dec_samples dec_2_3 place_mem_def claimed_mem_def guest_eval claim_eval

lemma place_claims:
  "drive (Suc (Suc (Suc (Suc 0)))) place_mem (place_commit doc_store sample_types oc sample_guest ''n1'')
   = (claimed_mem, confirm_and_bind doc_store sample_types oc sample_guest ''n1'' my_claim)"
  by (simp add: place_commit_def claim_def place_eval)

lemma place_confirms:
  "drive (Suc (Suc 0)) claimed_mem
     (confirm_and_bind doc_store sample_types overcommit_default sample_guest ''n1'' my_claim)
   = (claimed_mem, bind_claimed doc_store sample_types sample_guest ''n1'' my_claim)"
  by (simp add: confirm_and_bind_def claim_holds_def list2_def decode_range_def store_dir_def mem_range_def
      place_eval map_filter_simps my_claim_confirmed)

lemma place_binds:
  "map_of (mem_keys bound_mem) ''/m/registry/vms/a'' =
     Some \<lparr>en_value = DocVm (vm_settle (\<lambda>_. []) 3 (bind_vm ''n1'' sample_guest
            \<lparr>metadata := metadata sample_guest\<lparr>md_resource_version := []\<rparr>\<rparr>)),
           en_create_revision = 2, en_mod_revision = 4\<rparr>"
  by (simp add: bound_mem_def bind_claimed_def update_if_standing_def place_eval)

lemma place_runs:
  "\<exists>ps. sys_run mem_etcd env
     (place_mem, \<lambda>i :: unit. place_commit doc_store sample_types overcommit_default sample_guest ''n1'')
     (bound_mem, ps)"
proof -
  let ?ps = "\<lambda>i :: unit. place_commit doc_store sample_types overcommit_default sample_guest ''n1''"
  let ?m1 = "confirm_and_bind doc_store sample_types overcommit_default sample_guest ''n1'' my_claim"
  let ?m2 = "bind_claimed doc_store sample_types sample_guest ''n1'' my_claim"
  have "sys_run mem_etcd env (place_mem, ?ps) (claimed_mem, ?ps(() := ?m1))"
    by (rule drive_runs [where n = "Suc (Suc (Suc (Suc 0)))"]) (rule place_claims)
  moreover have "sys_run mem_etcd env (claimed_mem, ?ps(() := ?m1)) (claimed_mem, (?ps(() := ?m1))(() := ?m2))"
    by (rule drive_runs [where n = "Suc (Suc 0)"]) (simp add: place_confirms)
  moreover have "sys_run mem_etcd env (claimed_mem, (?ps(() := ?m1))(() := ?m2))
      (bound_mem, ((?ps(() := ?m1))(() := ?m2))(() := snd (drive (Suc (Suc 0)) claimed_mem ?m2)))"
    by (rule drive_runs [where n = "Suc (Suc 0)"]) (simp add: bound_mem_def del: drive.simps)
  ultimately show ?thesis by (meson rtranclp_trans)
qed

lemma sample_cluster: "cluster_types sample_types" "codec (pt_vm sample_types)" "codec (pt_claim sample_types)"
  by (auto simp: cluster_types_def sample_types_def vm_resource_def reservation_resource_def codec_def)

lemma place_starts:
  "place_rel mem_etcd doc_store sample_types (\<lambda>_. sample_capacity 1 4096) (\<lambda>i :: unit. sample_guest)
     (place_mem, place_start)"
proof -
  have "directory mem_etcd doc_store (pt_vm sample_types) place_mem [sample_guest]"
    "directory mem_etcd doc_store (pt_claim sample_types) place_mem []"
    "node_caps mem_etcd doc_store sample_types (\<lambda>_. sample_capacity 1 4096) place_mem"
    by (auto simp: directory_def stands_def node_caps_def mem_etcd_def place_eval obj_key_def in_dir_def
        store_dir_def sample_node_def declare_object_def object_new_def)
  moreover have "knows mem_etcd doc_store (pt_vm sample_types) place_mem sample_guest"
    by (auto simp: knows_def mem_etcd_def place_eval obj_key_def intro!: exI [of _ 2])
  moreover have "et_ok mem_etcd place_mem" by (simp add: mem_etcd_def mem_ok_def place_mem_def)
  ultimately show ?thesis
    by (simp add: place_rel_def place_start_def vm_uids_def placed_names_def sizes_ok_def mem_etcd_def place_mem_def)
qed

interpretation sample_placing: placing mem_etcd doc_store sample_types "\<lambda>_. sample_capacity 1 4096"
    overcommit_default "\<lambda>i :: unit. sample_guest"
  using sample_cluster mem_headed guest_eval(4) mem.etcd_axioms
  by (simp add: placing_def placing_axioms_def)

lemma bound_stands:
  "\<exists>v. stands mem_etcd doc_store (pt_vm sample_types) bound_mem v \<and> vs_node_name (spec v) = Some ''n1''"
proof -
  define w where "w = vm_settle (\<lambda>_. []) 3 (bind_vm ''n1'' sample_guest
      \<lparr>metadata := metadata sample_guest\<lparr>md_resource_version := []\<rparr>\<rparr>)"
  let ?v = "w\<lparr>metadata := metadata w\<lparr>md_resource_version := int_display 4\<rparr>\<rparr>"
  have "metadata w = metadata sample_guest\<lparr>md_resource_version := []\<rparr>" "vs_node_name (spec w) = Some ''n1''"
    by (simp_all add: w_def vm_settle_def)
  moreover have "obj_key doc_store (pt_vm sample_types) ''a'' = ''/m/registry/vms/a''"
    by (simp add: obj_key_def store_key_def doc_store_def sample_store_def sample_types_def vm_resource_def)
  moreover have "decode (pt_vm sample_types) (DocVm w) 4 = Inr ?v"
    by (simp add: decode_def sample_types_def vm_resource_def)
  ultimately have "stands mem_etcd doc_store (pt_vm sample_types) bound_mem ?v"
    using place_binds [folded w_def] by (simp add: stands_def mem_etcd_def guest_eval)
  then show ?thesis using \<open>vs_node_name (spec w) = Some ''n1''\<close> by (intro exI [of _ ?v]) simp
qed

section \<open>What the replicas do together\<close>

text \<open>C2: The controllers take no steps but those of the commit protocol. Any number of replicas run the
  commit of a placement, each for the copy of the guest it read and the node it chose, over one etcd
  whose answers carry their revision. Their requests interleave in any order, any of them may fail or
  time out before or after it took effect, guests are created, edited and removed, migrations claim
  and claims are taken back meanwhile. Every state the store reaches is a state of the protocol: the
  guests and claims in it are those of a commit state that steps of the protocol reach. Three things
  are fixed during a run: the copies of the guests were read before it began, though they may be
  stale by the time they are used; what a guest wants and what a node has does not change; and the
  settlement of a migration, which binds a guest that is already bound to another node, is not among
  the writes.\<close>

theorem replicas_refine_the_commit:
  fixes X :: "('e, 'b) etcd_ops" and guests :: "'i \<Rightarrow> 'j vm"
  assumes "etcd X" "always_headed X" and "cluster_types P" "codec (pt_vm P)" "codec (pt_claim P)"
    and "\<And>i. vs_node_name (spec (guests i)) = None" and "place_rel X S P cap guests (e0, A0)"
    and "sys_run X (place_env X S P cap guests)
      (e0, \<lambda>i. place_commit S P oc (guests i) (nodes i)) (e, ps)"
  shows "\<exists>A. place_rel X S P cap guests (e, A) \<and> commit_steps (st_json S) cap oc A0 A"
  by (rule replicas_commit [OF _ assms(7,8)])
    (use assms(1-6) in \<open>simp add: placing_def placing_axioms_def\<close>)

theorem replicas_refine_the_commit_witness:
  "\<exists>A. place_rel mem_etcd doc_store sample_types (\<lambda>_. sample_capacity 1 4096) (\<lambda>i :: unit. sample_guest) (bound_mem, A) \<and>
     commit_steps tree_ops (\<lambda>_. sample_capacity 1 4096) overcommit_default place_start A \<and>
     (\<exists>v\<in>set (kc_vms A). vs_node_name (spec v) = Some ''n1'')"
proof -
  let ?P = sample_types and ?cap = "\<lambda>_ :: string. sample_capacity 1 4096" and ?g = "\<lambda>i :: unit. sample_guest"
  obtain ps where run: "sys_run mem_etcd (place_env mem_etcd doc_store ?P ?cap ?g)
      (place_mem, \<lambda>i. place_commit doc_store ?P overcommit_default (?g i) ''n1'') (bound_mem, ps)"
    using place_runs by blast
  obtain A where A: "place_rel mem_etcd doc_store ?P ?cap ?g (bound_mem, A)"
    "commit_steps (st_json doc_store) ?cap overcommit_default place_start A"
    using replicas_refine_the_commit [OF mem.etcd_axioms mem_headed sample_cluster guest_eval(4) place_starts run]
    by blast
  moreover have "\<exists>v\<in>set (kc_vms A). vs_node_name (spec v) = Some ''n1''"
    using bound_stands directoryD(2) [OF place_relD(3) [OF A(1)]] by blast
  moreover have "st_json doc_store = tree_ops" by (simp add: doc_store_def sample_store_def)
  ultimately show ?thesis by auto
qed

text \<open>C1: No run of the controllers overbooks a node. Start from a store in which no node carries more than its
  allowance, whatever claims are left standing from earlier. Then after any interleaving of any number
  of replicas that place guests, with outages and concurrent edits as above, the guests stored as bound
  to a node together want no more processors and no more memory than the allowance of that node,
  summed without wrap-around or saturation. As above, the copies of the guests were read before the
  run began, sizes and capacities do not change during it, and no migration is settled in it.\<close>

theorem replicas_never_overbook:
  fixes X :: "('e, 'b) etcd_ops" and guests :: "'i \<Rightarrow> 'j vm"
  assumes "etcd X" "always_headed X" and "cluster_types P" "codec (pt_vm P)" "codec (pt_claim P)"
    and "\<And>i. vs_node_name (spec (guests i)) = None" and "place_rel X S P cap guests (e0, A0)"
    and "kc_ok A0 = {}" "queue_ok (kc_rev A0) (kc_held A0)" "sizes_agree (st_json S) (kc_vms A0) (kc_held A0)"
    and "\<And>node. (\<Sum>v\<leftarrow>on_node node (kc_vms A0). unat (vcpus (wanted_by (st_json S) v)))
                  \<le> unat (vcpus (node_allowance cap oc node))"
    and "\<And>node. (\<Sum>v\<leftarrow>on_node node (kc_vms A0). unat (mem_mib (wanted_by (st_json S) v)))
                  \<le> unat (mem_mib (node_allowance cap oc node))"
    and "sys_run X (place_env X S P cap guests)
      (e0, \<lambda>i. place_commit S P oc (guests i) (nodes i)) (e, ps)"
  shows "\<exists>vms. directory X S (pt_vm P) e vms \<and>
    (\<forall>node. (\<Sum>v\<leftarrow>on_node node vms. unat (vcpus (wanted_by (st_json S) v)))
              \<le> unat (vcpus (node_allowance cap oc node)) \<and>
            (\<Sum>v\<leftarrow>on_node node vms. unat (mem_mib (wanted_by (st_json S) v)))
              \<le> unat (mem_mib (node_allowance cap oc node)))"
proof -
  have "placing X P guests" using assms(1-6) by (simp add: placing_def placing_axioms_def)
  from replicas_commit [OF this assms(7,13)] obtain A
    where A: "place_rel X S P cap guests (e, A)" and steps: "commit_steps (st_json S) cap oc A0 A" by blast
  have start: "commit_inv (\<lambda>c. unat (vcpus c)) (st_json S) cap oc A0"
    "commit_inv (\<lambda>c. unat (mem_mib c)) (st_json S) cap oc A0"
    using assms(8-12) place_relD(4) [OF assms(7)] by (simp_all add: commit_inv_def used_def)
  show ?thesis
    using place_relD(3) [OF A] commit_invD(4) [OF dim_vcpus.steps_inv [OF steps start(1)]]
      commit_invD(4) [OF dim_mem.steps_inv [OF steps start(2)]]
    by (intro exI [of _ "kc_vms A"]) (simp add: used_def)
qed

theorem replicas_never_overbook_witness:
  "\<exists>vms. directory mem_etcd doc_store (pt_vm sample_types) bound_mem vms \<and>
     (\<exists>v\<in>set vms. vs_node_name (spec v) = Some ''n1'') \<and>
     (\<Sum>v\<leftarrow>on_node ''n1'' vms. unat (mem_mib (wanted_by tree_ops v)))
       \<le> unat (mem_mib (node_allowance (\<lambda>_. sample_capacity 1 4096) overcommit_default ''n1''))"
proof -
  let ?P = sample_types and ?cap = "\<lambda>_ :: string. sample_capacity 1 4096" and ?g = "\<lambda>i :: unit. sample_guest"
  obtain ps where run: "sys_run mem_etcd (place_env mem_etcd doc_store ?P ?cap ?g)
      (place_mem, \<lambda>i. place_commit doc_store ?P overcommit_default (?g i) ''n1'') (bound_mem, ps)"
    using place_runs by blast
  have free: "on_node node (kc_vms place_start) = []" for node
    by (simp add: on_node_def place_start_def guest_eval)
  have start: "kc_ok place_start = {}" "queue_ok (kc_rev place_start) (kc_held place_start)"
    "sizes_agree (st_json doc_store) (kc_vms place_start) (kc_held place_start)"
    by (simp_all add: place_start_def queue_ok_def held_names_def sizes_agree_def)
  obtain vms where vms: "directory mem_etcd doc_store (pt_vm ?P) bound_mem vms"
    "\<forall>node. (\<Sum>v\<leftarrow>on_node node vms. unat (mem_mib (wanted_by (st_json doc_store) v)))
       \<le> unat (mem_mib (node_allowance ?cap overcommit_default node))"
    using replicas_never_overbook [OF mem.etcd_axioms mem_headed sample_cluster guest_eval(4) place_starts
        start _ _ run] free by auto
  moreover have "\<exists>v\<in>set vms. vs_node_name (spec v) = Some ''n1''"
    using bound_stands directoryD(2) [OF vms(1)] by blast
  moreover have "st_json doc_store = tree_ops" by (simp add: doc_store_def sample_store_def)
  ultimately show ?thesis by auto
qed

end
