(* ===== verification/Image_Resource.thy ===== *)
theory Image_Resource
  imports Object_Model
begin

text \<open>
  \<open>resources/image.rs\<close>: catalogue entries, and the phase derived from what the nodes said about
  the bytes.
\<close>

datatype image_format = ImgRaw | ImgQcow2

datatype image_reason =
    IR_Unrecorded | IR_AwaitingNode | IR_NotFound | IR_NotAFile | IR_ChecksumMismatch
  | IR_FetchFailed | IR_DigestMismatch

definition image_reason_all :: "image_reason list" where
  "image_reason_all =
     [IR_Unrecorded, IR_AwaitingNode, IR_NotFound, IR_NotAFile, IR_ChecksumMismatch,
      IR_FetchFailed, IR_DigestMismatch]"

fun image_reason_str :: "image_reason \<Rightarrow> string" where
  "image_reason_str IR_Unrecorded = ''Unrecorded''"
| "image_reason_str IR_AwaitingNode = ''AwaitingNode''"
| "image_reason_str IR_NotFound = ''NotFound''"
| "image_reason_str IR_NotAFile = ''NotAFile''"
| "image_reason_str IR_ChecksumMismatch = ''ChecksumMismatch''"
| "image_reason_str IR_FetchFailed = ''FetchFailed''"
| "image_reason_str IR_DigestMismatch = ''DigestMismatch''"

datatype image_phase_kind =
    IP_Pending | IP_Ready | IP_Failed

definition image_phase_kind_all :: "image_phase_kind list" where
  "image_phase_kind_all =
     [IP_Pending, IP_Ready, IP_Failed]"

fun image_phase_kind_str :: "image_phase_kind \<Rightarrow> string" where
  "image_phase_kind_str IP_Pending = ''Pending''"
| "image_phase_kind_str IP_Ready = ''Ready''"
| "image_phase_kind_str IP_Failed = ''Failed''"

definition image_vocab :: "(image_phase_kind, image_reason) vocab" where
  "image_vocab =
     \<lparr>vc_kinds = image_phase_kind_all, vc_kind_str = image_phase_kind_str,
      vc_has_reason = (\<lambda>k. k \<notin> {IP_Ready}),
      vc_reasons = image_reason_all, vc_reason_str = image_reason_str,
      vc_unrecorded = IR_Unrecorded\<rparr>"

interpretation image_reason_words: closed_words image_reason_all image_reason_str
proof
  show "x \<in> set image_reason_all" for x
    by (cases x) (simp_all add: image_reason_all_def)
  show "distinct (map image_reason_str image_reason_all)"
    by (simp add: image_reason_all_def)
qed

interpretation image_kind_words: closed_words image_phase_kind_all image_phase_kind_str
proof
  show "x \<in> set image_phase_kind_all" for x
    by (cases x) (simp_all add: image_phase_kind_all_def)
  show "distinct (map image_phase_kind_str image_phase_kind_all)"
    by (simp add: image_phase_kind_all_def)
qed

interpretation image_phases: phase_vocab image_vocab
proof
  show "vc_reason_str image_vocab r \<noteq> []" for r
    by (cases r) (simp_all add: image_vocab_def)
qed (simp_all add: image_vocab_def image_kind_words.all_UNIV image_kind_words.distinct_words
      image_reason_words.all_UNIV image_reason_words.distinct_words)

lemma image_vocab_simps [simp]:
  "vc_has_reason image_vocab k \<longleftrightarrow> k \<notin> {IP_Ready}"
  "vc_unrecorded image_vocab = IR_Unrecorded"
  "vc_kind_str image_vocab = image_phase_kind_str"
  "vc_reason_str image_vocab = image_reason_str"
  by (simp_all add: image_vocab_def)

definition image_is_terminal :: "image_phase_kind \<Rightarrow> bool" where
  "image_is_terminal k \<longleftrightarrow> k \<in> {IP_Ready, IP_Failed}"

record image_spec =
  is_source :: string
  is_url :: "string option"
  is_sha256 :: "string option"
  is_format :: image_format
  is_size_bytes :: u64
  is_tenant :: "string option"
  is_public :: bool
  is_labels :: labels

record image_node_state =
  in_name :: string
  in_cluster :: string
  in_phase :: image_phase_kind
  in_reason :: image_reason
  in_message :: "string option"
  in_digest :: "string option"

record image_status =
  it_phase :: "(image_phase_kind, image_reason) phase"
  it_nodes :: "image_node_state list"
  it_digest :: "string option"

definition image_line :: "image_node_state \<Rightarrow> string" where
  "image_line line =
     (case in_message line of
        Some message \<Rightarrow> in_name line @ '': '' @ message
      | None \<Rightarrow> in_name line @ '' says '' @ image_reason_str (in_reason line))"

definition wrong_bytes :: "image_node_state \<Rightarrow> bool" where
  "wrong_bytes n \<longleftrightarrow> in_reason n \<in> {IR_ChecksumMismatch, IR_NotAFile}"

definition wrong_digest :: "string option \<Rightarrow> image_node_state \<Rightarrow> bool" where
  "wrong_digest pinned n =
     (case pinned of None \<Rightarrow> False | Some p \<Rightarrow>
        in_phase n = IP_Ready \<and> (case in_digest n of Some d \<Rightarrow> d \<noteq> p | None \<Rightarrow> False))"

definition settle_image :: "image_spec \<Rightarrow> image_status \<Rightarrow> (image_phase_kind, image_reason) phase" where
  "settle_image s t =
     (case find wrong_bytes (it_nodes t) of
        Some bytes \<Rightarrow> phase_new image_vocab IP_Failed (in_reason bytes) (Some (image_line bytes)) UNSTAMPED
      | None \<Rightarrow>
     (case find (wrong_digest (it_digest t)) (it_nodes t) of
        Some bad \<Rightarrow>
          phase_new image_vocab IP_Failed IR_DigestMismatch
            (Some (''the file under '' @ is_source s @ '' on '' @ in_name bad
                   @ '' is not the one this image was bound to'')) UNSTAMPED
      | None \<Rightarrow>
     (case find (\<lambda>n. in_phase n = IP_Ready) (it_nodes t) of
        Some ready \<Rightarrow> phase_said image_vocab IP_Ready (in_message ready) UNSTAMPED
      | None \<Rightarrow>
     (case it_nodes t of
        first # _ \<Rightarrow> phase_new image_vocab IP_Failed (in_reason first) (Some (image_line first)) UNSTAMPED
      | [] \<Rightarrow>
          phase_new image_vocab IP_Pending IR_AwaitingNode
            (Some (case is_url s of
                     Some _ \<Rightarrow> ''not fetched by any node yet''
                   | None \<Rightarrow> ''no node has looked for '' @ is_source s @ '' yet'')) UNSTAMPED))))"

definition first_bound_digest :: "image_node_state list \<Rightarrow> string option" where
  "first_bound_digest nodes =
     Option.bind (find (\<lambda>n. in_phase n = IP_Ready \<and> in_digest n \<noteq> None) nodes) in_digest"

lemma settle_image_ready_iff:
  "ph_kind (settle_image s t) = IP_Ready \<longleftrightarrow>
     (\<exists>n\<in>set (it_nodes t). in_phase n = IP_Ready)
     \<and> (\<forall>n\<in>set (it_nodes t). \<not> wrong_bytes n \<and> \<not> wrong_digest (it_digest t) n)"
proof -
  have found: "(\<exists>x. find P xs = Some x) \<longleftrightarrow> (\<exists>x\<in>set xs. P x)" for P and xs :: "'x list"
    using find_None_iff [of P xs] by (cases "find P xs") auto
  show ?thesis
    using found [of wrong_bytes "it_nodes t"] found [of "wrong_digest (it_digest t)" "it_nodes t"]
      found [of "\<lambda>n. in_phase n = IP_Ready" "it_nodes t"]
    by (auto simp: settle_image_def phase_said_def split: option.splits list.splits)
qed

lemma settle_image_pending_iff: "ph_kind (settle_image s t) = IP_Pending \<longleftrightarrow> it_nodes t = []"
  by (auto simp: settle_image_def phase_said_def split: option.splits list.splits)

text \<open>C33: An image is ready exactly when some node holds it ready and no node has been seen with wrong bytes or
  with a digest other than the one the image is bound to; it is pending exactly as long as no node
  has said anything.\<close>

theorem image_ready_iff:
  "(ph_kind (settle_image s t) = IP_Ready \<longleftrightarrow>
      (\<exists>n\<in>set (it_nodes t). in_phase n = IP_Ready)
      \<and> \<not> (\<exists>n\<in>set (it_nodes t). wrong_bytes n \<or> wrong_digest (it_digest t) n))
   \<and> (ph_kind (settle_image s t) = IP_Pending \<longleftrightarrow> it_nodes t = [])"
  using settle_image_ready_iff [of s t] settle_image_pending_iff [of s t] by blast

end
