(* ===== verification/Network_Resource.thy ===== *)
theory Network_Resource
  imports Object_Model
begin

text \<open>
  \<open>resources/network.rs\<close>: provider networks, routers, and the translations a router carries.
\<close>

record provider_network_spec =
  pn_physnet :: string
  pn_cidr :: string
  pn_gateway :: string
  pn_allocation :: "string list"
  pn_description :: string

type_synonym provider_network = "(provider_network_spec, unit) object"

datatype nat_kind = Snat | DnatAndSnat | Routed

definition nat_kind_all :: "nat_kind list" where "nat_kind_all = [Snat, DnatAndSnat, Routed]"

fun nat_kind_str :: "nat_kind \<Rightarrow> string" where
  "nat_kind_str Snat = ''snat''"
| "nat_kind_str DnatAndSnat = ''dnat_and_snat''"
| "nat_kind_str Routed = ''routed''"

definition nat_kind_parse :: "string \<Rightarrow> nat_kind option" where
  "nat_kind_parse = parse_in nat_kind_all nat_kind_str"

interpretation nat_kind_words: closed_words nat_kind_all nat_kind_str
  by unfold_locales (use nat_kind.exhaust in \<open>auto simp: nat_kind_all_def\<close>)

record nat_rule =
  nr_kind :: nat_kind
  nr_external_ip :: string
  nr_logical_ip :: string

definition CLASS_ROUTER :: string where "CLASS_ROUTER = ''router''"

record router_spec =
  rs_tenant :: string
  rs_provider_network :: string
  rs_class_field :: string
  rs_snat :: bool
  rs_vni :: "u32 option"
  rs_internal_addr :: string
  rs_routed_subnets :: "string list"
  rs_description :: string

definition rs_class :: "router_spec \<Rightarrow> string" where
  "rs_class s = (if rs_class_field s = [] then CLASS_ROUTER else rs_class_field s)"

datatype router_reason =
    RR_Unrecorded | RR_AwaitingNode | RR_Unplaced | RR_Dispatched | RR_Refused | RR_Silent
  | RR_NetnsGone | RR_LegGone | RR_DriverUnreachable

definition router_reason_all :: "router_reason list" where
  "router_reason_all =
     [RR_Unrecorded, RR_AwaitingNode, RR_Unplaced, RR_Dispatched, RR_Refused, RR_Silent,
      RR_NetnsGone, RR_LegGone, RR_DriverUnreachable]"

fun router_reason_str :: "router_reason \<Rightarrow> string" where
  "router_reason_str RR_Unrecorded = ''Unrecorded''"
| "router_reason_str RR_AwaitingNode = ''AwaitingNode''"
| "router_reason_str RR_Unplaced = ''Unplaced''"
| "router_reason_str RR_Dispatched = ''Dispatched''"
| "router_reason_str RR_Refused = ''Refused''"
| "router_reason_str RR_Silent = ''Silent''"
| "router_reason_str RR_NetnsGone = ''NetnsGone''"
| "router_reason_str RR_LegGone = ''LegGone''"
| "router_reason_str RR_DriverUnreachable = ''DriverUnreachable''"

datatype router_phase_kind =
    RP_Pending | RP_Provisioning | RP_Active | RP_Standby | RP_Failed | RP_Unknown

definition router_phase_kind_all :: "router_phase_kind list" where
  "router_phase_kind_all =
     [RP_Pending, RP_Provisioning, RP_Active, RP_Standby, RP_Failed, RP_Unknown]"

fun router_phase_kind_str :: "router_phase_kind \<Rightarrow> string" where
  "router_phase_kind_str RP_Pending = ''Pending''"
| "router_phase_kind_str RP_Provisioning = ''Provisioning''"
| "router_phase_kind_str RP_Active = ''Active''"
| "router_phase_kind_str RP_Standby = ''Standby''"
| "router_phase_kind_str RP_Failed = ''Failed''"
| "router_phase_kind_str RP_Unknown = ''Unknown''"

definition router_vocab :: "(router_phase_kind, router_reason) vocab" where
  "router_vocab =
     \<lparr>vc_kinds = router_phase_kind_all, vc_kind_str = router_phase_kind_str,
      vc_has_reason = (\<lambda>k. k \<notin> {RP_Active, RP_Standby}),
      vc_reasons = router_reason_all, vc_reason_str = router_reason_str,
      vc_unrecorded = RR_Unrecorded\<rparr>"

interpretation router_reason_words: closed_words router_reason_all router_reason_str
proof
  show "x \<in> set router_reason_all" for x
    by (cases x) (simp_all add: router_reason_all_def)
  show "distinct (map router_reason_str router_reason_all)"
    by (simp add: router_reason_all_def)
qed

interpretation router_kind_words: closed_words router_phase_kind_all router_phase_kind_str
proof
  show "x \<in> set router_phase_kind_all" for x
    by (cases x) (simp_all add: router_phase_kind_all_def)
  show "distinct (map router_phase_kind_str router_phase_kind_all)"
    by (simp add: router_phase_kind_all_def)
qed

interpretation router_phases: phase_vocab router_vocab
proof
  show "vc_reason_str router_vocab r \<noteq> []" for r
    by (cases r) (simp_all add: router_vocab_def)
qed (simp_all add: router_vocab_def router_kind_words.all_UNIV router_kind_words.distinct_words
      router_reason_words.all_UNIV router_reason_words.distinct_words)

lemma router_vocab_simps [simp]:
  "vc_has_reason router_vocab k \<longleftrightarrow> k \<notin> {RP_Active, RP_Standby}"
  "vc_unrecorded router_vocab = RR_Unrecorded"
  "vc_kind_str router_vocab = router_phase_kind_str"
  "vc_reason_str router_vocab = router_reason_str"
  by (simp_all add: router_vocab_def)

definition router_is_terminal :: "router_phase_kind \<Rightarrow> bool" where
  "router_is_terminal k \<longleftrightarrow> k \<in> {RP_Active, RP_Standby}"

record router_status =
  rt_phase :: "(router_phase_kind, router_reason) phase"
  rt_reported :: "(router_phase_kind, router_reason) said option"
  rt_external_addr :: string
  rt_cluster :: string
  rt_nodes :: "string list"
  rt_active_node :: string
  rt_nats :: "nat_rule list"
  rt_refused :: "string list"
  rt_releasing :: "string list"
  rt_announced :: "string list"
  rt_observed_generation :: u64

type_synonym router = "(router_spec, router_status) object"

definition settle_router :: "router_status \<Rightarrow> (router_phase_kind, router_reason) phase" where
  "settle_router t =
     (case Option.bind (rt_reported t) (said_phase router_vocab) of
        Some phase \<Rightarrow> phase
      | None \<Rightarrow> phase_new router_vocab RP_Pending RR_AwaitingNode
                 (Some ''no pass has placed it yet'') UNSTAMPED)"

lemma settle_router_resting:
  assumes "ph_kind (settle_router t) \<in> {RP_Active, RP_Standby}"
  shows "\<exists>r. rt_reported t = Some r \<and> sa_phase r = ph_kind (settle_router t) \<and> sa_node r \<noteq> []"
proof -
  obtain r where "rt_reported t = Some r" "said_phase router_vocab r = Some (settle_router t)"
    using assms by (auto simp: settle_router_def bind_eq_Some_conv split: option.splits)
  then show ?thesis
    using assms said_phase_resting [of router_vocab r] said_phase_kind [of router_vocab r] by auto
qed

end
