(* ===== verification/Deletion.thy ===== *)
theory Deletion
  imports Store_View Store_Mutate
begin

text \<open>
  \<open>shared/controller-api/src/deletion.rs\<close>: deletes that remove the object that was judged, never
  whatever its name names by the time of the delete, as programs over the store, and the proof
  that they do under any interleaving with other writers. Log lines are left out.
\<close>

section \<open>A closure that leaves something behind\<close>

text \<open>\<open>mutate_if\<close> with a closure that sets a variable of its caller: the variable is what the last run
  of the closure left in it.\<close>

primrec mutate_noting_loop ::
  "nat \<Rightarrow> ('b, 'j) store \<Rightarrow> ('s, 't, 'b) resource \<Rightarrow> string \<Rightarrow> string \<Rightarrow>
   (('s, 't) object \<Rightarrow> ('b, 'c \<times> ('s, 't) object) io) \<Rightarrow> 'c \<Rightarrow> ('b, 'c \<times> (store_error + ('s, 't) object)) io" where
  "mutate_noting_loop 0 S R name uid f c = Done (c, Inl (retries_exhausted (RESOURCE R) name))"
| "mutate_noting_loop (Suc n) S R name uid f c =
     and_then (store_get S R name) (\<lambda>got.
       case got of
         Inl e \<Rightarrow> Done (c, Inl e)
       | Inr obj \<Rightarrow>
           if md_uid (metadata obj) \<noteq> uid
           then Done (c, Inl (Conflict (''resource version conflict on '' @ RESOURCE R @ ''/'' @ name @
                  '' (recreated under the same name)'')))
           else and_then (f obj) (\<lambda>(c', obj').
                and_then (update S R obj') (\<lambda>put.
                  case put of
                    Inr stored1 \<Rightarrow> Done (c', Inr stored1)
                  | Inl (Conflict _) \<Rightarrow> mutate_noting_loop n S R name uid f c'
                  | Inl e \<Rightarrow> Done (c', Inl e))))"

definition mutate_noting ::
  "('b, 'j) store \<Rightarrow> ('s, 't, 'b) resource \<Rightarrow> string \<Rightarrow> string \<Rightarrow>
   (('s, 't) object \<Rightarrow> ('b, 'c \<times> ('s, 't) object) io) \<Rightarrow> 'c \<Rightarrow> ('b, 'c \<times> (store_error + ('s, 't) object)) io" where
  "mutate_noting S R name uid f c = mutate_noting_loop 8 S R name uid f c"

section \<open>The programs\<close>

definition FINISH_DELETE_ATTEMPTS :: nat where "FINISH_DELETE_ATTEMPTS = 8"

primrec finish_delete_loop ::
  "nat \<Rightarrow> ('b, 'j) store \<Rightarrow> ('s, 't, 'b) resource \<Rightarrow> string \<Rightarrow> string \<Rightarrow> (('s, 't) object \<Rightarrow> bool) \<Rightarrow>
   ('s, 't) object \<Rightarrow> ('b, store_error + bool) io" where
  "finish_delete_loop 0 S T name uid concluded current = Done (Inr False)"
| "finish_delete_loop (Suc n) S T name uid concluded current =
     (if \<not> concluded current then Done (Inr False)
      else and_then (delete_if S T name (md_resource_version (metadata current))) (\<lambda>r.
        case r of
          Inr _ \<Rightarrow> Done (Inr True)
        | Inl (Conflict _) \<Rightarrow>
            and_then (store_get S T name) (\<lambda>got.
              case got of
                Inr fresh \<Rightarrow>
                  if md_uid (metadata fresh) = uid then finish_delete_loop n S T name uid concluded fresh
                  else Done (Inr False)
              | Inl (NotFound _) \<Rightarrow> Done (Inr False)
              | Inl e \<Rightarrow> Done (Inl e))
        | Inl e \<Rightarrow> Done (Inl e)))"

definition finish_delete ::
  "('b, 'j) store \<Rightarrow> ('s, 't, 'b) resource \<Rightarrow> ('s, 't) object \<Rightarrow> (('s, 't) object \<Rightarrow> bool) \<Rightarrow>
   ('b, store_error + bool) io" where
  "finish_delete S T checked concluded =
     finish_delete_loop FINISH_DELETE_ATTEMPTS S T (md_name (metadata checked)) (md_uid (metadata checked))
       concluded checked"

definition is_gone ::
  "('b, 'j) store \<Rightarrow> ('s, 't, 'b) resource \<Rightarrow> ('s, 't) object \<Rightarrow> ('b, store_error + bool) io" where
  "is_gone S T created =
     and_then (store_get S T (md_name (metadata created))) (\<lambda>got.
       case got of
         Inr current \<Rightarrow> Done (Inr (md_uid (metadata current) \<noteq> md_uid (metadata created)))
       | Inl (NotFound _) \<Rightarrow> Done (Inr True)
       | Inl e \<Rightarrow> Done (Inl e))"

definition take_back_created ::
  "('b, 'j) store \<Rightarrow> ('s, 't, 'b) resource \<Rightarrow> ('s, 't) object \<Rightarrow> ('b, store_error + unit) io" where
  "take_back_created S T created =
     try_then (finish_delete S T created (\<lambda>_. True)) (\<lambda>deleted.
       if deleted then Done (Inr ())
       else try_then (is_gone S T created) (\<lambda>gone.
         if gone then Done (Inr ())
         else Done (Inl (Conflict (RESOURCE T @ ''/'' @ md_name (metadata created) @
                '' kept changing while it was taken back and is still there'')))))"

datatype taken_back = TakenGone | TakenMarked

definition take_back_or_mark ::
  "('b, 'j) store \<Rightarrow> ('s, 't, 'b) resource \<Rightarrow> ('s, 't) object \<Rightarrow> (('s, 't) object \<Rightarrow> bool) \<Rightarrow>
   ('b, store_error + taken_back) io" where
  "take_back_or_mark S T created deletable =
     try_then (finish_delete S T created deletable) (\<lambda>deleted.
       if deleted then Done (Inr TakenGone)
       else and_then (mutate_if S T (md_name (metadata created)) (md_uid (metadata created)) (\<lambda>obj.
              case md_deletion_timestamp (metadata obj) of
                Some _ \<Rightarrow> Done obj
              | None \<Rightarrow> and_then utc_now (\<lambda>now.
                  Done (obj\<lparr>metadata := (metadata obj)\<lparr>md_deletion_timestamp := Some now\<rparr>\<rparr>)))) (\<lambda>marked.
         case marked of
           Inr _ \<Rightarrow> Done (Inr TakenMarked)
         | Inl e \<Rightarrow> try_then (is_gone S T created) (\<lambda>gone.
             if gone then Done (Inr TakenGone) else Done (Inl e))))"

definition without_finalizer :: "string \<Rightarrow> ('s, 't) object \<Rightarrow> ('s, 't) object" where
  "without_finalizer fin obj =
     obj\<lparr>metadata := (metadata obj)\<lparr>md_finalizers := filter (\<lambda>f. f \<noteq> fin) (md_finalizers (metadata obj))\<rparr>\<rparr>"

definition take_finalizer ::
  "('b, 'j) store \<Rightarrow> ('s, 't, 'b) resource \<Rightarrow> ('s, 't) object \<Rightarrow> string \<Rightarrow> (('s, 't) object \<Rightarrow> bool) \<Rightarrow>
   ('b, store_error + ('s, 't) object option) io" where
  "take_finalizer S T checked fin holds =
     and_then (mutate_noting S T (md_name (metadata checked)) (md_uid (metadata checked))
                 (\<lambda>obj. Done (holds obj, if holds obj then without_finalizer fin obj else obj)) False)
       (\<lambda>(applied, wrote). case wrote of
            Inr obj \<Rightarrow> Done (Inr (if applied then Some obj else None))
          | Inl (Conflict _) \<Rightarrow> Done (Inr None)
          | Inl (NotFound _) \<Rightarrow> Done (Inr None)
          | Inl e \<Rightarrow> Done (Inl e))"

definition finish_release ::
  "('b, 'j) store \<Rightarrow> ('s, 't, 'b) resource \<Rightarrow> ('s, 't) object \<Rightarrow> string \<Rightarrow> (('s, 't) object \<Rightarrow> bool) \<Rightarrow>
   ('b, store_error + bool) io" where
  "finish_release S T taken_off fin holds =
     finish_delete S T taken_off (\<lambda>obj. holds obj \<and> fin \<notin> set (md_finalizers (metadata obj)))"

definition release_and_delete ::
  "('b, 'j) store \<Rightarrow> ('s, 't, 'b) resource \<Rightarrow> ('s, 't) object \<Rightarrow> string \<Rightarrow> (('s, 't) object \<Rightarrow> bool) \<Rightarrow>
   ('b, store_error + bool) io" where
  "release_and_delete S T checked fin holds =
     try_then (take_finalizer S T checked fin holds) (\<lambda>taken.
       case taken of
         None \<Rightarrow> Done (Inr False)
       | Some taken_off \<Rightarrow> finish_release S T taken_off fin holds)"

section \<open>Proof rules\<close>

context replica
begin

lemma mutate_noting_rule:
  fixes T :: "('s, 't, 'b) resource" and S :: "('b, 'j) store" and name uid :: string
    and f :: "('s, 't) object \<Rightarrow> 'c \<times> ('s, 't) object"
  defines "key \<equiv> store_key S (RESOURCE T) name"
  assumes headed: "always_headed X"
    and moves: "\<And>s1 s2. R s1 s2 \<Longrightarrow> key_moves X key (fst s1) (fst s2)"
    and named: "\<And>s1 e g obj. R s1 (e, g) \<Longrightarrow> found_at X key T e obj \<Longrightarrow> obj_name obj = name"
    and keeps: "\<And>obj. obj_name (snd (f obj)) = obj_name obj"
      "\<And>obj. md_resource_version (metadata (snd (f obj))) = md_resource_version (metadata obj)"
    and failed: "\<And>c e g err. R s (e, g) \<Longrightarrow> Q (c, Inl err) (e, g)"
    and wrote: "\<And>e g e' obj w now. R s (e, g) \<Longrightarrow> found_at X key T e obj \<Longrightarrow> md_uid (metadata obj) = uid \<Longrightarrow>
          encode T (snd (f obj)) now = Inr w \<Longrightarrow> puts X e key w e' \<Longrightarrow>
          \<exists>g'. G (e, g) (e', g') \<and> Q (fst (f obj), decode T w (et_head X e')) (e', g') \<and>
               (\<forall>err. unavailable err \<longrightarrow> Q (fst (f obj), Inl err) (e', g'))"
  shows "R s s1 \<Longrightarrow> guarded X R G (mutate_noting_loop n S T name uid (\<lambda>obj. Done (f obj)) c) Q s1"
proof (induction n arbitrary: s1 c)
  case 0
  then show ?case using failed [of "fst s1" "snd s1"] by simp
next
  case (Suc n)
  let ?loop = "\<lambda>c. mutate_noting_loop n S T name uid (\<lambda>obj. Done (f obj)) c"
  show ?case
    unfolding mutate_noting_loop.simps guarded_and_then
  proof (rule get_rule, goal_cases)
    case (1 e g err)
    then show ?case using failed [OF rely_trans [OF Suc.prems]] by simp
  next
    case (2 e g)
    then show ?case using failed [OF rely_trans [OF Suc.prems]] by simp
  next
    case (3 e g x)
    have r: "R s (e, g)" by (rule rely_trans [OF Suc.prems 3(1)])
    show ?case
    proof (cases "decode T (en_value x) (en_mod_revision x)")
      case (Inl err) then show ?thesis using failed [OF r] by simp
    next
      case (Inr obj)
      have at: "found_at X key T e obj" using 3(2) Inr by (auto simp: found_at_def key_def)
      have nm: "obj_name (snd (f obj)) = name" using named [OF r at] keeps by simp
      have known: "known_at X key T e obj" by (rule found_known [OF rely_ok [OF r] at])
      have again: "found_at X key T e1 obj"
        if r1: "R (e, g) (e1, g1)" and y: "et_look X e1 key = Some y"
          and v: "parse_i64 (md_resource_version (metadata (snd (f obj)))) = Some (en_mod_revision y)" for e1 g1 y
        by (rule known_at_found [where rv = "en_mod_revision y"])
          (use known_at_moves [OF known] moves [OF r1] y v keeps in auto)
      have cont: "guarded X R G (case put of Inr stored1 \<Rightarrow> Done (fst (f obj), Inr stored1)
            | Inl (Conflict _) \<Rightarrow> ?loop (fst (f obj)) | Inl e \<Rightarrow> Done (fst (f obj), Inl e)) Q s2"
        if "Q (fst (f obj), put) s2" "\<And>m. put \<noteq> Inl (Conflict m)" for put s2
        using that by (auto split: sum.splits store_error.splits)
      have "guarded X R G (update S T (snd (f obj))) (\<lambda>put. guarded X R G
          (case put of Inr stored1 \<Rightarrow> Done (fst (f obj), Inr stored1)
            | Inl (Conflict _) \<Rightarrow> ?loop (fst (f obj)) | Inl e \<Rightarrow> Done (fst (f obj), Inl e)) Q) (e, g)" if u: "md_uid (metadata obj) = uid"
      proof (rule update_rule, goal_cases)
        case (1 err) then show ?case using failed [OF r] by simp
      next
        case (2 e1 g1 err)
        then show ?case using failed [OF rely_trans [OF r 2(1)]] by (intro cont) auto
      next
        case (3 e1 g1)
        then show ?case using Suc.IH [OF rely_trans [OF r 3(1)]] by (simp add: concurrent_write_def)
      next
        case (4 e1 g1 e' y w now err)
        have "\<exists>g'. G (e1, g1) (e', g') \<and> Q (fst (f obj), Inl err) (e', g')"
          using wrote [OF rely_trans [OF r 4(1)] again [OF 4(1), of y] u 4(4), of e'] 4 nm
          unfolding key_def by blast
        then show ?case using cont [of "Inl err"] 4(6) by (cases err) auto
      next
        case (5 e1 g1 e' y w now)
        obtain g' where "G (e1, g1) (e', g')" "Q (fst (f obj), decode T w (et_head X e')) (e', g')"
          using wrote [OF rely_trans [OF r 5(1)] again [OF 5(1), of y] u 5(4), of e'] 5 nm
          unfolding key_def by blast
        then show ?case using headed cont [of "decode T w (et_head X e')"] decode_Inl [of T w "et_head X e'"]
          by (intro exI [of _ g']) auto
      qed
      then show ?thesis using Inr failed [OF r] by (simp add: guarded_and_then split_beta)
    qed
  qed
qed

lemma finish_delete_rule:
  fixes T :: "('s, 't, 'b) resource" and S :: "('b, 'j) store" and name uid :: string
    and concluded :: "('s, 't) object \<Rightarrow> bool"
  defines "key \<equiv> store_key S (RESOURCE T) name"
  assumes moves: "\<And>s1 s2. R s1 s2 \<Longrightarrow> key_moves X key (fst s1) (fst s2)"
    and failed: "\<And>e g r. R s (e, g) \<Longrightarrow> r \<noteq> Inr True \<Longrightarrow> Q r (e, g)"
    and gone: "\<And>e g e' obj. R s (e, g) \<Longrightarrow> found_at X key T e obj \<Longrightarrow> md_uid (metadata obj) = uid \<Longrightarrow>
          concluded obj \<Longrightarrow> drops X e key e' \<Longrightarrow>
          \<exists>g'. G (e, g) (e', g') \<and> Q (Inr True) (e', g') \<and> (\<forall>err. unavailable err \<longrightarrow> Q (Inl err) (e', g'))"
  shows "R s s1 \<Longrightarrow> known_at X key T (fst s1) current \<Longrightarrow> md_uid (metadata current) = uid \<Longrightarrow>
    guarded X R G (finish_delete_loop n S T name uid concluded current) Q s1"
proof (induction n arbitrary: s1 current)
  case 0
  then show ?case using failed [of "fst s1" "snd s1"] by simp
next
  case (Suc n)
  note r0 = Suc.prems(1)
  have here: "r \<noteq> Inr True \<Longrightarrow> Q r s1" for r
    using failed [of "fst s1" "snd s1" r] r0 by simp
  let ?read = "and_then (store_get S T name) (\<lambda>got. case got of
       Inr fresh \<Rightarrow> if md_uid (metadata fresh) = uid then finish_delete_loop n S T name uid concluded fresh
                    else Done (Inr False)
     | Inl (NotFound _) \<Rightarrow> Done (Inr False) | Inl e \<Rightarrow> Done (Inl e))"
  have read: "guarded X R G ?read Q (e, g)" if r: "R s (e, g)" for e g
    unfolding guarded_and_then
  proof (rule get_rule, goal_cases)
    case (1 e1 g1 err)
    then show ?case using failed [OF rely_trans [OF r]] by (cases err) auto
  next
    case (2 e1 g1)
    then show ?case using failed [OF rely_trans [OF r]] by simp
  next
    case (3 e1 g1 x)
    have r1: "R s (e1, g1)" by (rule rely_trans [OF r 3(1)])
    show ?case
    proof (cases "decode T (en_value x) (en_mod_revision x)")
      case (Inl err)
      then show ?thesis using failed [OF r1] decode_Inl [of T] by force
    next
      case (Inr fresh)
      have "known_at X key T e1 fresh"
        by (rule found_known [OF rely_ok [OF r1]]) (use 3(2) Inr in \<open>auto simp: found_at_def key_def\<close>)
      then show ?thesis using Inr failed [OF r1] Suc.IH [OF r1, of fresh] by simp
    qed
  qed
  have "guarded X R G (delete_if S T name (md_resource_version (metadata current))) (\<lambda>r. guarded X R G
      (case r of Inr _ \<Rightarrow> Done (Inr True) | Inl (Conflict _) \<Rightarrow> ?read | Inl e \<Rightarrow> Done (Inl e)) Q) s1"
    if c: "concluded current"
  proof (rule delete_if_rule, goal_cases)
    case (1 err) then show ?case by (simp add: here)
  next
    case (2 e g err)
    have "R s (e, g)" by (rule rely_trans [OF r0 2(1)])
    then show ?case using failed read by (cases err) simp_all
  next
    case (3 e g e' rv r)
    have r1: "R s (e, g)" by (rule rely_trans [OF r0 3(1)])
    have "found_at X key T e current"
      by (rule known_at_found [where rv = rv])
        (use known_at_moves [OF Suc.prems(2)] moves [OF 3(1)] 3 in \<open>auto simp: key_def\<close>)
    then obtain g' where g': "G (e, g) (e', g')" "Q (Inr True) (e', g')"
        "\<And>err. unavailable err \<Longrightarrow> Q (Inl err) (e', g')"
      using gone [OF r1 _ Suc.prems(3) c, of e'] 3(4) unfolding key_def by blast
    show ?case
    proof (intro exI [of _ g'] conjI g'(1))
      show "guarded X R G (case r of Inr _ \<Rightarrow> Done (Inr True) | Inl (Conflict _) \<Rightarrow> ?read | Inl e \<Rightarrow> Done (Inl e))
          Q (e', g')"
        using 3(5) g'(2,3) by (auto split: store_error.splits)
    qed
  qed
  then show ?case using here [of "Inr False"] by (simp add: guarded_and_then)
qed

end

section \<open>Only the judged object goes\<close>

definition well_named :: "('e, 'b) etcd_ops \<Rightarrow> ('b, 'j) store \<Rightarrow> ('s, 't, 'b) resource \<Rightarrow> 'e \<Rightarrow> bool" where
  "well_named X S T e \<longleftrightarrow> (\<forall>n obj. found_at X (obj_key S T n) T e obj \<longrightarrow> obj_name obj = n)"

text \<open>What anybody may do to the store: create, edit, delete and recreate anything, each object under
  its own name.\<close>

definition anyone :: "('e, 'b) etcd_ops \<Rightarrow> ('b, 'j) store \<Rightarrow> ('s, 't, 'b) resource \<Rightarrow> 'e \<Rightarrow> 'e \<Rightarrow> bool" where
  "anyone X S T e e' \<longleftrightarrow> et_ok X e' \<and> well_named X S T e' \<and> (\<forall>k. key_moves X k e e')"

text \<open>The object a write of \<open>obj\<close> leaves in the store.\<close>

definition stored_as :: "('s, 't, 'b) resource \<Rightarrow> instant \<Rightarrow> int \<Rightarrow> ('s, 't) object \<Rightarrow> ('s, 't) object" where
  "stored_as T now r obj =
     (let clean = settle T now (obj\<lparr>metadata := (metadata obj)\<lparr>md_resource_version := []\<rparr>\<rparr>)
      in clean\<lparr>metadata := (metadata clean)\<lparr>md_resource_version := int_display r\<rparr>\<rparr>)"

definition removes_judged where
  "removes_judged X S T checked fin holds e e' \<longleftrightarrow>
     (\<exists>obj. found_at X (obj_key S T (obj_name checked)) T e obj \<and>
        md_uid (metadata obj) = md_uid (metadata checked) \<and> holds obj \<and> fin \<notin> set (md_finalizers (metadata obj)) \<and>
        et_look X e' (obj_key S T (obj_name checked)) = None)"

definition frees_judged where
  "frees_judged X S T checked fin holds e e' \<longleftrightarrow>
     (\<exists>obj now r. found_at X (obj_key S T (obj_name checked)) T e obj \<and>
        md_uid (metadata obj) = md_uid (metadata checked) \<and>
        found_at X (obj_key S T (obj_name checked)) T e'
          (stored_as T now r (if holds obj then without_finalizer fin obj else obj)))"

definition judged_step where
  "judged_step X S T checked fin holds e e' \<longleftrightarrow>
     (\<forall>k. k \<noteq> obj_key S T (obj_name checked) \<longrightarrow> et_look X e' k = et_look X e k) \<and>
     (et_look X e' = et_look X e \<or> removes_judged X S T checked fin holds e e' \<or>
      frees_judged X S T checked fin holds e e')"

definition release_rely ::
  "('e, 'b) etcd_ops \<Rightarrow> ('b, 'j) store \<Rightarrow> ('s, 't, 'b) resource \<Rightarrow> 'e \<times> unit \<Rightarrow> 'e \<times> unit \<Rightarrow> bool" where
  "release_rely X S T s s' \<longleftrightarrow> anyone X S T (fst s) (fst s')"

definition release_guar ::
  "('e, 'b) etcd_ops \<Rightarrow> ('b, 'j) store \<Rightarrow> ('s, 't, 'b) resource \<Rightarrow> ('s, 't) object \<Rightarrow> string \<Rightarrow>
   (('s, 't) object \<Rightarrow> bool) \<Rightarrow> 'e \<times> unit \<Rightarrow> 'e \<times> unit \<Rightarrow> bool" where
  "release_guar X S T checked fin holds s s' \<longleftrightarrow>
     anyone X S T (fst s) (fst s') \<and> judged_step X S T checked fin holds (fst s) (fst s')"

lemma anyone_trans: "anyone X S T e1 e2 \<Longrightarrow> anyone X S T e2 e3 \<Longrightarrow> anyone X S T e1 e3"
  unfolding anyone_def by (metis key_moves_trans)

lemma anyone_refl: "et_ok X e \<Longrightarrow> well_named X S T e \<Longrightarrow> anyone X S T e e"
  by (simp add: anyone_def key_moves_same)

lemma well_named_same: "well_named X S T e \<Longrightarrow> et_look X e' = et_look X e \<Longrightarrow> well_named X S T e'"
  by (simp add: well_named_def found_at_def)

lemma well_named_put:
  assumes "well_named X S T e" "puts X e (obj_key S T n) w e'" "decode T w (et_head X e') = Inr obj" "obj_name obj = n"
  shows "well_named X S T e'"
  using assms by (auto simp: well_named_def found_at_def puts_def put_entry_def)

lemma well_named_drop: "well_named X S T e \<Longrightarrow> drops X e k e' \<Longrightarrow> well_named X S T e'"
  by (auto simp: well_named_def found_at_def drops_def split: if_splits)

lemma found_put: "puts X e k w e' \<Longrightarrow> decode T w (et_head X e') = Inr obj \<Longrightarrow> found_at X k T e' obj"
  by (simp add: found_at_def puts_def put_entry_def)

locale releaser = etcd X + codec T
  for X :: "('e, 'b) etcd_ops" and T :: "('s, 't, 'b) resource" +
  fixes S :: "('b, 'j) store" and checked :: "('s, 't) object" and fin :: string
    and holds :: "('s, 't) object \<Rightarrow> bool"
  assumes headed: "always_headed X"
    and settle_keeps: "md_name (metadata (settle T now obj)) = md_name (metadata obj)"
      "md_uid (metadata (settle T now obj)) = md_uid (metadata obj)"

sublocale releaser \<subseteq> replica X "release_rely X S T" "release_guar X S T checked fin holds"
proof
  fix s e g e'
  assume r: "release_rely X S T s (e, g)" and ok: "et_ok X e'" and un: "unchanged X e e'"
  have "anyone X S T e e'"
    using r ok un well_named_same [of X S T e e'] key_moves_same [of X e' _ e]
    by (auto simp: anyone_def release_rely_def unchanged_def)
  then show "release_rely X S T s (e', g) \<and> release_guar X S T checked fin holds (e, g) (e', g)"
    using r un anyone_trans [of X S T "fst s" e e']
    by (auto simp: release_rely_def release_guar_def judged_step_def unchanged_def)
next
  fix s e g
  assume "release_rely X S T s (e, g)"
  then show "et_ok X e" by (simp add: release_rely_def anyone_def)
next
  fix s1 s2
  assume "release_rely X S T s1 s2"
  then show "release_rely X S T s2 s2" by (auto simp: release_rely_def anyone_def intro: key_moves_same)
next
  fix s1 s2 s3
  assume "release_rely X S T s1 s2" "release_rely X S T s2 s3"
  then show "release_rely X S T s1 s3" unfolding release_rely_def by (rule anyone_trans)
qed

context releaser
begin

abbreviation (input) key where "key \<equiv> obj_key S T (obj_name checked)"

lemma drop_allowed:
  assumes "release_rely X S T s (e, g)" "found_at X key T e obj" "md_uid (metadata obj) = md_uid (metadata checked)"
    "holds obj" "fin \<notin> set (md_finalizers (metadata obj))" "drops X e key e'"
  shows "release_guar X S T checked fin holds (e, g) (e', g)"
proof -
  have "anyone X S T e e'"
    using assms(1,6) drops_moves [OF assms(6)] well_named_drop [of X S T e key e']
    by (auto simp: anyone_def release_rely_def drops_def)
  then show ?thesis
    using assms by (auto simp: release_guar_def judged_step_def removes_judged_def drops_def)
qed

lemma put_allowed:
  assumes r: "release_rely X S T s (e, g)" and at: "found_at X key T e obj"
    and uid: "md_uid (metadata obj) = md_uid (metadata checked)"
    and w: "encode T (if holds obj then without_finalizer fin obj else obj) now = Inr w" and put: "puts X e key w e'"
  shows "release_guar X S T checked fin holds (e, g) (e', g)"
    and "decode T w (et_head X e') = Inr (stored_as T now (et_head X e') (if holds obj then without_finalizer fin obj else obj))"
    and "obj_name (stored_as T now r1 (if holds obj then without_finalizer fin obj else obj)) = obj_name checked"
    and "md_uid (metadata (stored_as T now r1 (if holds obj then without_finalizer fin obj else obj))) = md_uid (metadata checked)"
proof -
  let ?obj = "if holds obj then without_finalizer fin obj else obj"
  have wn: "well_named X S T e" using r by (simp add: release_rely_def anyone_def)
  have nm: "obj_name obj = obj_name checked" using wn at by (simp add: well_named_def)
  show dec: "decode T w (et_head X e') = Inr (stored_as T now (et_head X e') ?obj)"
    using decode_encode [OF w] by (simp add: stored_as_def Let_def)
  show nm': "obj_name (stored_as T now r1 ?obj) = obj_name checked" for r1
    using nm by (simp add: stored_as_def Let_def settle_keeps without_finalizer_def)
  show "md_uid (metadata (stored_as T now r1 ?obj)) = md_uid (metadata checked)"
    using uid by (simp add: stored_as_def Let_def settle_keeps without_finalizer_def)
  have "anyone X S T e e'"
    using well_named_put [OF wn put dec nm'] puts_moves [OF put] put by (simp add: anyone_def puts_def)
  moreover have "frees_judged X S T checked fin holds e e'"
    unfolding frees_judged_def using at uid found_put [OF put dec] by blast
  ultimately show "release_guar X S T checked fin holds (e, g) (e', g)"
    using put by (simp add: release_guar_def judged_step_def puts_def)
qed

lemma rely_moves: "release_rely X S T s1 s2 \<Longrightarrow> key_moves X k (fst s1) (fst s2)"
  by (simp add: release_rely_def anyone_def)

lemma finish_release_safe:
  assumes "release_rely X S T s s" "known_at X key T (fst s) taken"
    "obj_name taken = obj_name checked" "md_uid (metadata taken) = md_uid (metadata checked)"
  shows "guarded X (release_rely X S T) (release_guar X S T checked fin holds)
           (finish_release S T taken fin holds) (\<lambda>_ _. True) s"
  unfolding finish_release_def finish_delete_def
proof (rule finish_delete_rule [where s = s], goal_cases)
  case (3 e g e' obj)
  then show ?case using drop_allowed [of s e g obj e'] assms by (auto simp: obj_key_def)
qed (use assms in \<open>auto simp: rely_moves obj_key_def\<close>)

lemma release_safe:
  assumes "release_rely X S T s s"
  shows "guarded X (release_rely X S T) (release_guar X S T checked fin holds)
           (release_and_delete S T checked fin holds) (\<lambda>_ _. True) s"
proof -
  let ?R = "release_rely X S T" and ?G = "release_guar X S T checked fin holds"
  let ?f = "\<lambda>obj. (holds obj, if holds obj then without_finalizer fin obj else obj)"
  let ?Q = "\<lambda>r s. \<forall>taken. snd r = Inr taken \<longrightarrow> ?R s s \<and> known_at X key T (fst s) taken \<and>
      obj_name taken = obj_name checked \<and> md_uid (metadata taken) = md_uid (metadata checked)"
  have "guarded X ?R ?G (mutate_noting_loop 8 S T (obj_name checked) (md_uid (metadata checked)) (\<lambda>obj. Done (?f obj)) False) ?Q s"
  proof (rule mutate_noting_rule [where s = s and f = ?f], goal_cases)
    case 1 show ?case by (rule headed)
  next
    case (3 s1 e g obj)
    then show ?case by (auto simp: release_rely_def anyone_def well_named_def obj_key_def)
  next
    case (7 e g e' obj w now)
    have at: "found_at X key T e obj" and put: "puts X e key w e'" using 7 by (simp_all add: obj_key_def)
    have w: "encode T (if holds obj then without_finalizer fin obj else obj) now = Inr w" using 7 by simp
    note p = put_allowed [OF 7(1) at 7(3) w put]
    have r: "?R (e', g) (e', g)"
      using p(1) by (auto simp: release_guar_def release_rely_def anyone_def intro: key_moves_same)
    have "known_at X key T e' (stored_as T now (et_head X e') (if holds obj then without_finalizer fin obj else obj))"
      by (rule found_known) (use r found_put [OF put p(2)] in \<open>simp_all add: release_rely_def anyone_def\<close>)
    then show ?case using p r by (intro exI [of _ g]) auto
  qed (use assms rely_moves in \<open>auto simp: without_finalizer_def\<close>)
  then show ?thesis
    unfolding release_and_delete_def take_finalizer_def mutate_noting_def try_then_def guarded_and_then
    by (rule guarded_mono)
      (auto simp: finish_release_safe split: sum.splits store_error.splits)
qed

end

definition held_counter :: "counter mem" where
  "held_counter =
     one_counter\<lparr>mem_keys := map (\<lambda>(k, x). (k, x\<lparr>en_value := (en_value x)\<lparr>metadata :=
        (metadata (en_value x))\<lparr>md_finalizers := [''keep'']\<rparr>\<rparr>\<rparr>)) (mem_keys one_counter)\<rparr>"


lemma sample_release:
  "case drive (Suc (Suc (Suc 0))) held_counter
     (release_and_delete counter_store (counter_resource Inr Inr) sample_counter ''keep'' (\<lambda>_. True)) of
       (e, Ask q k) \<Rightarrow> mem_keys (snd (mem_run e q)) = [] | _ \<Rightarrow> False"
  unfolding release_and_delete_def take_finalizer_def mutate_noting_def finish_release_def finish_delete_def
    held_counter_def one_counter_def FINISH_DELETE_ATTEMPTS_def sample_counter_def eval_nat_numeral
    mutate_noting_loop.simps(2) finish_delete_loop.simps(2)
  by (simp add: mem_eval store_eval sample_store_def counter_resource_def delete_if_def parse_int_display
      vni_name_ok dec_samples metadata_default_def without_finalizer_def)

lemma held_start: "et_ok mem_etcd held_counter" "well_named mem_etcd counter_store (counter_resource Inr Inr) held_counter"
  by (auto simp: mem_etcd_def mem_ok_def held_counter_def one_counter_def well_named_def found_at_def decode_def
      obj_key_def store_key_def sample_store_def counter_resource_def metadata_default_def split: if_splits)

text \<open>C4: A delete removes the object that was judged and nothing else. Any number of replicas release and
  delete objects, each one it judged on a copy read earlier, while anybody creates, edits, deletes and
  recreates anything, requests fail or time out before or after they took effect, and everything
  interleaves in any order. Whatever one request of such a replica does to the store, it leaves every
  other key alone, and under the object's name it either changes nothing, or removes an object that
  carries the judged uid, still qualifies at that moment and no longer carries the finalizer, or
  rewrites the object of that uid, taking the finalizer off only while it qualifies.\<close>

theorem only_the_judged_is_deleted:
  fixes X :: "('e, 'b) etcd_ops" and T :: "('s, 't, 'b) resource" and checked :: "'i \<Rightarrow> ('s, 't) object"
  assumes service: "etcd X" "always_headed X" and documents: "codec T"
    and settles: "\<And>now obj. md_name (metadata (settle T now obj)) = md_name (metadata obj) \<and>
          md_uid (metadata (settle T now obj)) = md_uid (metadata obj)"
    and start: "et_ok X e0" "well_named X S T e0"
    and run: "sys_run X (anyone X S T) (e0, \<lambda>i. release_and_delete S T (checked i) fin (holds i)) (e, ps)"
    and request: "ps i = Ask q k" "et_serve X e q r e'"
  shows "judged_step X S T (checked i) fin (holds i) e e'"
proof -
  let ?R = "\<lambda>i::'i. release_rely X S T" and ?G = "\<lambda>i. release_guar X S T (checked i) fin (holds i)"
  have rep: "releaser X T" using service documents settles by (simp add: releaser_def releaser_axioms_def)
  have refl0: "release_rely X S T (e0, ()) (e0, ())" using anyone_refl [OF start] by (simp add: release_rely_def)
  have "\<exists>g. \<forall>i. \<exists>s. ?R i s (e, g) \<and> guarded X (?R i) (?G i) (ps i) (\<lambda>_ _. True) s"
  proof (rule replicas_together [OF run, where ?g0.0 = "()"], goal_cases)
    case (1 i) then show ?case by (rule releaser.release_safe [OF rep refl0])
  next
    case (2 i) then show ?case by (rule refl0)
  next
    case (3 i s1 s2 s3) then show ?case unfolding release_rely_def by (rule anyone_trans)
  next
    case (4 i j s1 s2) then show ?case by (simp add: release_rely_def release_guar_def)
  next
    case (5 i s1 s2)
    then show ?case by (auto simp: release_rely_def release_guar_def anyone_def intro: key_moves_same)
  next
    case (6 e1 g1 e2) then show ?case by (simp add: release_rely_def)
  qed
  then obtain s where s: "release_rely X S T s (e, ())" "guarded X (?R i) (?G i) (ps i) (\<lambda>_ _. True) s" by fastforce
  have "\<exists>g'. ?G i (e, ()) (e', g')"
    using s(2) [unfolded request(1) guarded.simps] s(1) request(2) by blast
  then show ?thesis by (simp add: release_guar_def)
qed

theorem only_the_judged_is_deleted_witness:
  "\<exists>e ps q k r e'.
     sys_run mem_etcd (anyone mem_etcd counter_store (counter_resource Inr Inr))
       (held_counter, \<lambda>i :: unit. release_and_delete counter_store (counter_resource Inr Inr) sample_counter ''keep'' (\<lambda>_. True))
       (e, ps) \<and>
     ps () = Ask q k \<and> et_serve mem_etcd e q r e' \<and> mem_keys e' = [] \<and>
     judged_step mem_etcd counter_store (counter_resource Inr Inr) sample_counter ''keep'' (\<lambda>_. True) e e'"
proof -
  let ?T = "counter_resource Inr Inr" and ?env = "anyone mem_etcd counter_store (counter_resource Inr Inr)"
  let ?ps = "\<lambda>i :: unit. release_and_delete counter_store ?T sample_counter ''keep'' (\<lambda>_. True)"
  obtain e q k where d: "drive (Suc (Suc (Suc 0))) held_counter (?ps ()) = (e, Ask q k)"
      "mem_keys (snd (mem_run e q)) = []"
    using sample_release by (auto split: prod.splits io.splits)
  have run: "sys_run mem_etcd ?env (held_counter, ?ps) (e, ?ps(() := Ask q k))"
    by (rule drive_runs [where n = "Suc (Suc (Suc 0))"]) (rule d(1))
  have serve: "et_serve mem_etcd e q (fst (mem_run e q)) (snd (mem_run e q))" by (simp add: mem_etcd_def)
  have docs: "codec ?T" by unfold_locales (simp add: counter_resource_def)
  have "judged_step mem_etcd counter_store ?T sample_counter ''keep'' (\<lambda>_. True) e (snd (mem_run e q))"
    by (rule only_the_judged_is_deleted [OF mem.etcd_axioms mem_headed docs _ held_start run _ serve, of _ k])
      (simp_all add: counter_resource_def)
  then show ?thesis using run serve d(2)
    by (intro exI [of _ e] exI [of _ "?ps(() := Ask q k)"] exI [of _ q] exI [of _ k]
        exI [of _ "fst (mem_run e q)"] exI [of _ "snd (mem_run e q)"]) simp
qed

end
