(* ===== verification/Registry.thy ===== *)
theory Registry
  imports Image_Resource Network_Resource Storage_Resource Migration_Resource Deletion Placement_Program Vni_Alloc
begin

text \<open>
  The rows of the table \<open>resources!\<close> in \<open>shared/controller-api/src/resources/mod.rs\<close> whose objects carry a
  phase, as the store sees them: the directory, the kind, the shape of a name and the hook that
  derives the phase before every write. (The row of a guest is \<open>Placement_Program.vm_resource\<close>.)
\<close>

type_synonym image = "(image_spec, image_status) object"
type_synonym volume_snapshot = "(volume_snapshot_spec, volume_snapshot_status) object"

definition image_resource ::
  "(image \<Rightarrow> string + 'b) \<Rightarrow> ('b \<Rightarrow> string + image) \<Rightarrow> (image_spec, image_status, 'b) resource" where
  "image_resource tv fs =
     \<lparr>RESOURCE = ''images'', KIND = ''Image'', NAME_SHAPE = Dotted,
      settle = (\<lambda>now o1. o1\<lparr>status := (status o1)\<lparr>it_phase :=
        stamp image_vocab (it_phase (status o1)) (settle_image (spec o1) (status o1)) now\<rparr>\<rparr>),
      to_vec = tv, from_slice = fs\<rparr>"

definition router_resource ::
  "(router \<Rightarrow> string + 'b) \<Rightarrow> ('b \<Rightarrow> string + router) \<Rightarrow>
   (router_spec, router_status, 'b) resource" where
  "router_resource tv fs =
     \<lparr>RESOURCE = ''routers'', KIND = ''Router'', NAME_SHAPE = DnsLabel,
      settle = (\<lambda>now o1. o1\<lparr>status := (status o1)\<lparr>rt_phase :=
        stamp router_vocab (rt_phase (status o1)) (settle_router (status o1)) now\<rparr>\<rparr>),
      to_vec = tv, from_slice = fs\<rparr>"

definition storage_pool_resource ::
  "('j storage_pool \<Rightarrow> string + 'b) \<Rightarrow> ('b \<Rightarrow> string + 'j storage_pool) \<Rightarrow>
   ('j storage_pool_spec, 'j storage_pool_status, 'b) resource" where
  "storage_pool_resource tv fs =
     \<lparr>RESOURCE = ''storagepools'', KIND = ''StoragePool'', NAME_SHAPE = DnsLabel,
      settle = (\<lambda>now o1. o1\<lparr>status := (status o1)\<lparr>pt_phase :=
        stamp storage_pool_vocab (pt_phase (status o1))
          (settle_storage_pool (md_name (metadata o1)) (spec o1) (status o1)) now\<rparr>\<rparr>),
      to_vec = tv, from_slice = fs\<rparr>"

definition volume_resource ::
  "(volume \<Rightarrow> string + 'b) \<Rightarrow> ('b \<Rightarrow> string + volume) \<Rightarrow> (volume_spec, volume_status, 'b) resource" where
  "volume_resource tv fs =
     \<lparr>RESOURCE = ''volumes'', KIND = ''Volume'', NAME_SHAPE = DnsLabel,
      settle = volume_settle, to_vec = tv, from_slice = fs\<rparr>"

definition volume_snapshot_resource ::
  "(volume_snapshot \<Rightarrow> string + 'b) \<Rightarrow>
   ('b \<Rightarrow> string + volume_snapshot) \<Rightarrow>
   (volume_snapshot_spec, volume_snapshot_status, 'b) resource" where
  "volume_snapshot_resource tv fs =
     \<lparr>RESOURCE = ''volumesnapshots'', KIND = ''VolumeSnapshot'', NAME_SHAPE = DnsLabel,
      settle = (\<lambda>now o1. o1\<lparr>status := (status o1)\<lparr>nt_phase :=
        stamp volume_snapshot_vocab (nt_phase (status o1)) (settle_volume_snapshot (status o1)) now\<rparr>\<rparr>),
      to_vec = tv, from_slice = fs\<rparr>"

definition vm_migration_resource ::
  "(vm_migration \<Rightarrow> string + 'b) \<Rightarrow>
   ('b \<Rightarrow> string + vm_migration) \<Rightarrow>
   (vm_migration_spec, vm_migration_status, 'b) resource" where
  "vm_migration_resource tv fs =
     \<lparr>RESOURCE = ''vmmigrations'', KIND = ''VmMigration'', NAME_SHAPE = DnsLabel,
      settle = (\<lambda>now o1. o1\<lparr>status := (status o1)\<lparr>mt_phase :=
        stamp vm_migration_vocab (mt_phase (status o1)) (settle_vm_migration (status o1)) now\<rparr>\<rparr>),
      to_vec = tv, from_slice = fs\<rparr>"

section \<open>What the hooks keep\<close>

lemma settle_metadata [simp]:
  "metadata (settle (image_resource tv1 fs1) now o1) = metadata o1"
  "metadata (settle (router_resource tv2 fs2) now o2) = metadata o2"
  "metadata (settle (storage_pool_resource tv3 fs3) now o3) = metadata o3"
  "metadata (settle (volume_resource tv4 fs4) now o4) = metadata o4"
  "metadata (settle (volume_snapshot_resource tv5 fs5) now o5) = metadata o5"
  "metadata (settle (vm_migration_resource tv6 fs6) now o6) = metadata o6"
  by (simp_all add: image_resource_def router_resource_def storage_pool_resource_def volume_resource_def
      volume_snapshot_resource_def vm_migration_resource_def volume_settle_def Let_def)

text \<open>A finalizer is taken off a volume and a snapshot under the laws a release needs.\<close>

interpretation volume_release: releaser mem_etcd "volume_resource Inr Inr" S checked fin holds
  for S checked fin holds
  by unfold_locales (simp_all add: mem_headed, simp_all add: volume_resource_def)

interpretation snapshot_release: releaser mem_etcd "volume_snapshot_resource Inr Inr" S checked fin holds
  for S checked fin holds
  by unfold_locales (simp_all add: mem_headed, simp_all add: volume_snapshot_resource_def)

text \<open>A phase that its vocabulary admits and that the wire brings back unchanged.\<close>

definition typed_phase :: "('k, 'r) vocab \<Rightarrow> ('k, 'r) phase \<Rightarrow> bool" where
  "typed_phase V p \<longleftrightarrow> phase_ok V p \<and> (\<forall>later. phase_of_wire V later (wire_of V p) = p)"

context phase_vocab
begin

lemma stamp_typed: "now \<noteq> UNSTAMPED \<Longrightarrow> typed_phase V (stamp V old p now)"
  unfolding typed_phase_def using wire_roundtrip [OF stamp_ok, of _ old p now] by (auto simp: stamp_ok stamp_since)

end

lemmas typed_hooks = vm_phases.stamp_typed image_phases.stamp_typed router_phases.stamp_typed
  storage_pool_phases.stamp_typed volume_phases.stamp_typed volume_snapshot_phases.stamp_typed
  vm_migration_phases.stamp_typed

lemmas hook_defs = vm_resource_def vm_settle_def image_resource_def router_resource_def storage_pool_resource_def
  volume_resource_def volume_settle_def volume_snapshot_resource_def vm_migration_resource_def Let_def

text \<open>C20: Whatever is written to the store is well typed. For each of the seven kinds of object that carry
  a phase, the hook that runs before every write, at any stamped instant, leaves a phase that carries
  a reason exactly if its kind declares one, and whose flat form on the wire reads back, at any later
  time, as that phase: kind, reason, message and the instant it began.\<close>

theorem stored_phases_are_typed:
  assumes "now \<noteq> UNSTAMPED"
  shows "typed_phase vm_vocab (vt_phase (status (settle (vm_resource rfc tv0 fs0) now vm))) \<and>
    typed_phase image_vocab (it_phase (status (settle (image_resource tv1 fs1) now img))) \<and>
    typed_phase router_vocab (rt_phase (status (settle (router_resource tv2 fs2) now router))) \<and>
    typed_phase storage_pool_vocab (pt_phase (status (settle (storage_pool_resource tv3 fs3) now pool))) \<and>
    typed_phase volume_vocab (lt_phase (status (settle (volume_resource tv4 fs4) now volume))) \<and>
    typed_phase volume_snapshot_vocab (nt_phase (status (settle (volume_snapshot_resource tv5 fs5) now snapshot))) \<and>
    typed_phase vm_migration_vocab (mt_phase (status (settle (vm_migration_resource tv6 fs6) now migration)))"
  using assms by (simp add: hook_defs typed_hooks)

theorem stored_phases_are_typed_witness:
  "(5 :: instant) \<noteq> UNSTAMPED \<and>
   typed_phase vm_vocab (vt_phase (status (settle (vm_resource (\<lambda>_. []) Inr Inr) 5 (sample_vm ''a'' 1 512)))) \<and>
   ph_kind (vt_phase (status (settle (vm_resource (\<lambda>_. []) Inr Inr) 5 (sample_vm ''a'' 1 512)))) = VP_Pending"
proof -
  have now: "(5 :: instant) \<noteq> UNSTAMPED" by (simp add: UNSTAMPED_def)
  have "ph_kind (vt_phase (status (settle (vm_resource (\<lambda>_. []) Inr Inr) 5 (sample_vm ''a'' 1 512)))) = VP_Pending"
    by code_simp
  then show ?thesis using now stored_phases_are_typed [OF now, of "\<lambda>_. []" Inr Inr "sample_vm ''a'' 1 512"] by blast
qed

end
