(* ===== verification/Lifecycle_Policy.thy ===== *)
theory Lifecycle_Policy
  imports Vm_Resource Node_Resource Events
begin

text \<open>
  The policies both tiers share for a guest that is not where it should be: \<open>lifecycle.rs\<close> (which
  command intent and observation call for, and when a binding may be let go), \<open>drain.rs\<close> (what an
  evacuation does with a guest), \<open>requeue.rs\<close> (when a failed guest is tried again), \<open>stuck.rs\<close> (which
  objects are late) and \<open>mirror.rs\<close> (which reports of a peer count). Publishing gauges is left out. A
  \<open>Duration\<close> is a number of nanoseconds.
\<close>

section \<open>Intent and observation\<close>

datatype lifecycle = LcStart | LcStop | LcPause | LcResume

fun lifecycle_command :: "run_strategy \<Rightarrow> vm_phase_kind \<Rightarrow> lifecycle option" where
  "lifecycle_command RunRunning VP_Stopped = Some LcStart"
| "lifecycle_command RunRunning VP_Paused = Some LcResume"
| "lifecycle_command RunStopped VP_Running = Some LcStop"
| "lifecycle_command RunStopped VP_Paused = Some LcStop"
| "lifecycle_command RunPaused VP_Running = Some LcPause"
| "lifecycle_command RunPaused VP_Stopped = Some LcPause"
| "lifecycle_command _ _ = None"

definition stopped_enough :: "run_strategy \<Rightarrow> vm_phase_kind \<Rightarrow> bool" where
  "stopped_enough strategy phase \<longleftrightarrow>
     strategy = RunStopped \<and> phase \<in> {VP_Stopped, VP_Failed, VP_Unknown}"

definition not_stopped_enough :: "run_strategy \<Rightarrow> vm_phase_kind \<Rightarrow> string" where
  "not_stopped_enough strategy phase =
     (case strategy of
        RunStopped \<Rightarrow> ''this vm has been told to stop and is still '' @ vm_phase_kind_str phase @
          ''; wait for it to come to rest, then let the binding go''
      | _ \<Rightarrow> ''reschedule needs a vm nobody wants running (runStrategy '' @ run_strategy_str strategy @
          '', phase '' @ vm_phase_kind_str phase @
          ''); set runStrategy to Stopped first, then let the binding go'')"

datatype holder = HolderNode | HolderCluster

fun holder_str :: "holder \<Rightarrow> string" where
  "holder_str HolderNode = ''node''"
| "holder_str HolderCluster = ''cluster''"

definition unknown_needs_its_holder ::
  "(instant \<Rightarrow> string) \<Rightarrow> vm_phase_kind \<Rightarrow> holder \<Rightarrow> string \<Rightarrow> instant option \<Rightarrow> instant \<Rightarrow> string option" where
  "unknown_needs_its_holder to_rfc3339 phase holder name last_heartbeat now =
     (if phase \<noteq> VP_Unknown then None
      else if \<not> heartbeat_expired last_heartbeat now then None
      else let what = holder_str holder;
               since = (case last_heartbeat of
                          Some at \<Rightarrow> ''has not reported since '' @ to_rfc3339 at
                        | None \<Rightarrow> ''has never reported'')
           in Some (what @ '' '' @ name @ '' '' @ since @ '', more than '' @ dec HEARTBEAT_TIMEOUT_SECS @
                ''s ago, and that is why this vm's phase is Unknown: the guest may still be running there. '' @
                ''Letting the binding go now would place the vm a second time while the first one still '' @
                ''holds its disks open. Wait for '' @ name @ '' to report '' @ em_dash @
                '' the phase then settles into one this call takes '' @ em_dash @ '' or drain the '' @ what @
                '', which is how the control plane is told what became of its guests''))"

definition released_while_unknown :: "holder \<Rightarrow> string \<Rightarrow> string" where
  "released_while_unknown holder name =
     ''the binding to '' @ holder_str holder @ '' '' @ name @
     '' was let go while the phase was Unknown; '' @ name @
     '' was reporting at the time, so the guest was asked to stop before the vm was placed again''"

section \<open>Draining\<close>

datatype drain_verdict = DrainMoving | DrainReschedule | DrainRestart | DrainLive | DrainStays stay_reason

record drain_facts =
  df_has_device :: bool
  df_node_local_disk :: "string option"
  df_live_possible :: bool
  df_live_refusal :: "string option"

definition drain_verdict_of :: "'j vm \<Rightarrow> drain_facts \<Rightarrow> drain_verdict" where
  "drain_verdict_of vm facts =
     (if vt_evacuating (status vm) \<noteq> None then DrainMoving
      else if df_node_local_disk facts \<noteq> None then DrainStays NodeLocalDisk
      else let at_rest = vs_run_strategy (spec vm) = RunStopped \<and> ph_kind (vt_phase (status vm)) = VP_Stopped
           in if at_rest then DrainReschedule
              else let could_live = df_live_possible facts \<and> \<not> df_has_device facts
                   in case vs_evacuation (spec vm) of
                        EvacRestart \<Rightarrow> DrainRestart
                      | EvacNever \<Rightarrow> if could_live then DrainLive else DrainStays EvacuationNever)"

definition drain_sentence :: "stay_reason \<Rightarrow> string \<Rightarrow> drain_facts \<Rightarrow> string" where
  "drain_sentence reason vm facts =
     (case reason of
        EvacuationNever \<Rightarrow> vm @ '' stays: evacuation is never'' @
          (if df_has_device facts
           then '', and a vm with a device cannot move live in any case; set spec.evacuation '' @
                ''= restart to move it by reboot''
           else case df_live_refusal facts of
             Some why \<Rightarrow> '', and it could not have moved live either: '' @ why @
               ''. Set spec.evacuation = restart to move it by reboot''
           | None \<Rightarrow> ''; set spec.evacuation = restart to move it by reboot'')
      | NodeLocalDisk \<Rightarrow> vm @ '' stays: volume '' @ unwrap_or ''a local disk'' (df_node_local_disk facts) @
          '' is node-local, so its bytes are on this machine and no move takes them with it''
      | NoTarget \<Rightarrow> vm @ '' would move and there is nowhere for it to go yet'')"

section \<open>Trying again\<close>

definition secs :: "nat \<Rightarrow> nat" where "secs n = n * 10 ^ 9"

definition backoff :: "u32 \<Rightarrow> nat" where
  "backoff attempts = min (secs 10 * 2 ^ unat (min attempts 5)) (secs 300)"

datatype requeue_policy = NoRequeue | RetryCount u32 | CrashLoopBackoff

fun next_delay :: "requeue_policy \<Rightarrow> u32 \<Rightarrow> nat option" where
  "next_delay NoRequeue _ = None"
| "next_delay (RetryCount n) attempts = (if attempts < n then Some (backoff attempts) else None)"
| "next_delay CrashLoopBackoff attempts = Some (backoff attempts)"

datatype requeue_config = RqCount u32 | RqNamed string

definition into_policy :: "requeue_config option \<Rightarrow> string + requeue_policy" where
  "into_policy this =
     (case this of
        None \<Rightarrow> Inr CrashLoopBackoff
      | Some (RqCount n) \<Rightarrow> Inr (RetryCount n)
      | Some (RqNamed s) \<Rightarrow>
          if s = ''crash-loop-backoff'' then Inr CrashLoopBackoff
          else if s = ''none'' then Inr NoRequeue
          else Inl (''retry = '' @ str_debug s @
                 ''; expected '' @ [CHR 0x22] @ ''none'' @ [CHR 0x22] @ '', '' @ [CHR 0x22] @ ''crash-loop-backoff'' @
                 [CHR 0x22] @ '' or a number''))"

section \<open>Deadlines\<close>

definition STUCK_AFTER_PENDING :: nat where "STUCK_AFTER_PENDING = secs (5 * 60)"
definition STUCK_AFTER_PROVISIONING :: nat where "STUCK_AFTER_PROVISIONING = secs (15 * 60)"
definition STUCK_AFTER_UNKNOWN :: nat where "STUCK_AFTER_UNKNOWN = secs (10 * 60)"

definition stuck_after :: "string \<Rightarrow> nat option" where
  "stuck_after word =
     (if word = ''Pending'' then Some STUCK_AFTER_PENDING
      else if word \<in> {''Provisioning'', ''Creating'', ''Preparing'', ''Releasing'', ''Receiving''}
      then Some STUCK_AFTER_PROVISIONING
      else if word = ''Unknown'' then Some STUCK_AFTER_UNKNOWN
      else None)"

definition stuck :: "bool \<Rightarrow> string \<Rightarrow> instant \<Rightarrow> instant \<Rightarrow> nat option" where
  "stuck terminal word since now =
     (if terminal then None
      else case stuck_after word of
             None \<Rightarrow> None
           | Some budget \<Rightarrow>
               if now - since < 0 then None
               else let age = nat (now - since)
                    in if age < budget then None
                       else if age - budget = 0 then None else Some (age - budget))"

record crossed =
  cx_kind :: string
  cx_name :: string
  cx_uid :: string
  cx_tenant :: "string option"
  cx_word :: string
  cx_reason :: string
  cx_over :: nat

definition crossed_sentence :: "crossed \<Rightarrow> string" where
  "crossed_sentence c =
     (let since = (if cx_reason c = [] then [] else '' ('' @ cx_reason c @ '')'')
      in cx_name c @ '' has been '' @ cx_word c @ since @ '' for '' @ dec (cx_over c div 10 ^ 9) @
         ''s longer than the '' @
         dec (case stuck_after (cx_word c) of Some b \<Rightarrow> b div 10 ^ 9 | None \<Rightarrow> 0) @
         ''s this phase is given; nothing here will change it on account of that'')"

record late =
  la_counted :: "(string \<times> string \<times> string, int) bmap"
  la_crossed :: "crossed list"

definition late_default :: late where
  "late_default = \<lparr>la_counted = [], la_crossed = []\<rparr>"

record about =
  ab_kind :: string
  ab_name :: string
  ab_uid :: string
  ab_tenant :: "string option"

definition about_of :: "('s, 't, 'b) resource \<Rightarrow> metadata \<Rightarrow> string option \<Rightarrow> about" where
  "about_of T m tenant = \<lparr>ab_kind = KIND T, ab_name = md_name m, ab_uid = md_uid m, ab_tenant = tenant\<rparr>"

definition look :: "late \<Rightarrow> about \<Rightarrow> standing \<Rightarrow> instant \<Rightarrow> nat \<Rightarrow> late" where
  "look l about standing now tick =
     (case stuck (st_terminal standing) (st_word standing) (st_since standing) now of
        None \<Rightarrow> l
      | Some over \<Rightarrow>
          let cell = (ab_kind about, st_word standing, st_reason standing);
              l' = l\<lparr>la_counted := bm_insert cell (unwrap_or 0 (map_of (la_counted l) cell) + 1) (la_counted l)\<rparr>
          in if over < tick
             then l'\<lparr>la_crossed := la_crossed l' @
                    [\<lparr>cx_kind = ab_kind about, cx_name = ab_name about, cx_uid = ab_uid about,
                      cx_tenant = ab_tenant about, cx_word = st_word standing,
                      cx_reason = st_reason standing, cx_over = over\<rparr>]\<rparr>
             else l')"

fun report_crossed ::
  "('b, 'j) store \<Rightarrow> (event_spec, unit, 'b) resource \<Rightarrow> crossed list \<Rightarrow> ('b, unit) io" where
  "report_crossed S T [] = Done ()"
| "report_crossed S T (c # cs) =
     and_then (record_event S T
        \<lparr>hp_kind = cx_kind c, hp_name = cx_name c, hp_uid = cx_uid c, hp_reason = REASON_PHASE_STUCK,
         hp_message = crossed_sentence c, hp_event_type = EvWarning, hp_tenant = cx_tenant c\<rparr>)
       (\<lambda>_. report_crossed S T cs)"

definition late_report :: "('b, 'j) store \<Rightarrow> (event_spec, unit, 'b) resource \<Rightarrow> late \<Rightarrow> ('b, unit) io" where
  "late_report S T l = report_crossed S T (la_crossed l)"

definition late_total :: "late \<Rightarrow> int" where
  "late_total l = (\<Sum>c\<leftarrow>la_counted l. snd c)"

section \<open>What a peer reports\<close>

definition is_current :: "instant option \<Rightarrow> instant option \<Rightarrow> instant \<Rightarrow> bool" where
  "is_current deletion seen reported_at =
     (case (deletion, seen) of
        (None, None) \<Rightarrow> True
      | (Some d, None) \<Rightarrow> d \<le> reported_at
      | (None, Some o1) \<Rightarrow> o1 \<le> reported_at
      | (Some d, Some o1) \<Rightarrow> max d o1 \<le> reported_at)"

record nic_report =
  nr_name :: string
  nr_mac :: string

definition addresses_with :: "vm_address list \<Rightarrow> nic_report list \<Rightarrow> vm_address list" where
  "addresses_with current reported =
     (if reported = [] then current
      else map (\<lambda>n. \<lparr>va_kind = AddrMac, va_nic = nr_name n, va_mac = Some (nr_mac n), va_address = None\<rparr>) reported
           @ filter (\<lambda>a. va_kind a \<noteq> AddrMac) current)"

record vm_status_report =
  sr_id :: string
  sr_phase :: string
  sr_message :: string
  sr_attached_volumes :: "string list"
  sr_node :: string
  sr_volumes :: "volume_attachment_status list"
  sr_reason :: string
  sr_nics :: "nic_report list"

datatype 'j observation =
    ObsUnknown
  | ObsNotBound "'j vm"
  | ObsBadPhase "'j vm"
  | ObsChanged "'j vm" vm_phase_kind vm_reason "string option"

definition observe_one ::
  "'j vm list \<Rightarrow> ('j vm \<Rightarrow> bool) \<Rightarrow> vm_status_report \<Rightarrow> (vm_status_report \<times> 'j observation) option" where
  "observe_one known speaks_for line =
     (case map_of (rev (map (\<lambda>v. (md_uid (metadata v), v)) known)) (sr_id line) of
        None \<Rightarrow> Some (line, ObsUnknown)
      | Some vm \<Rightarrow>
          if \<not> speaks_for vm then Some (line, ObsNotBound vm)
          else case kind_parse vm_vocab (sr_phase line) of
            None \<Rightarrow> Some (line, ObsBadPhase vm)
          | Some phase \<Rightarrow>
              let message = (if sr_message line \<noteq> [] then Some (sr_message line) else None);
                  (reason, message) = reason_read vm_vocab (sr_reason line) message;
                  candidate = phase_new vm_vocab phase reason message (ph_since (vt_phase (status vm)))
              in if vt_phase (status vm) = candidate then None
                 else Some (line, ObsChanged vm phase reason message))"

definition observe ::
  "'j vm list \<Rightarrow> vm_status_report list \<Rightarrow> ('j vm \<Rightarrow> bool) \<Rightarrow> (vm_status_report \<times> 'j observation) list" where
  "observe known reported speaks_for = List.map_filter (observe_one known speaks_for) reported"

section \<open>What the policies promise\<close>

text \<open>The phase a command is meant to bring about.\<close>

fun command_goal :: "lifecycle \<Rightarrow> vm_phase_kind" where
  "command_goal LcStart = VP_Running"
| "command_goal LcStop = VP_Stopped"
| "command_goal LcPause = VP_Paused"
| "command_goal LcResume = VP_Running"

lemma command_settles:
  "lifecycle_command s p = Some c \<Longrightarrow> lifecycle_command s (command_goal c) = None"
  by (induction s p rule: lifecycle_command.induct) auto

lemma command_of_resting:
  "lifecycle_command s p \<noteq> None \<Longrightarrow> p \<in> {VP_Running, VP_Stopped, VP_Paused}"
  by (induction s p rule: lifecycle_command.induct) auto

lemma drain_restart_allowed: "drain_verdict_of vm f = DrainRestart \<Longrightarrow> vs_evacuation (spec vm) = EvacRestart"
  by (cases "vs_evacuation (spec vm)") (auto simp: drain_verdict_of_def Let_def split: if_splits)

lemma drain_live_able:
  "drain_verdict_of vm f = DrainLive \<Longrightarrow> df_live_possible f \<and> \<not> df_has_device f \<and> df_node_local_disk f = None"
  by (cases "vs_evacuation (spec vm)") (auto simp: drain_verdict_of_def Let_def split: if_splits)

lemma drain_keeps_local_disk:
  "df_node_local_disk f \<noteq> None \<Longrightarrow> drain_verdict_of vm f \<in> {DrainMoving, DrainStays NodeLocalDisk}"
  by (auto simp: drain_verdict_of_def)

lemma backoff_bounds: "secs 10 \<le> backoff n" "backoff n \<le> secs 300"
  by (simp_all add: backoff_def secs_def)

lemma backoff_mono: "n \<le> k \<Longrightarrow> backoff n \<le> backoff k"
proof -
  assume "n \<le> k"
  hence "unat (min n 5) \<le> unat (min k 5)" by (auto simp: min_def word_le_nat_alt)
  hence "(2::nat) ^ unat (min n 5) \<le> 2 ^ unat (min k 5)" by (rule power_increasing) simp
  thus ?thesis unfolding backoff_def by (intro min.mono mult_le_mono order_refl)
qed

lemma stuck_Some:
  "stuck t w since now = Some d \<longleftrightarrow>
     \<not> t \<and> (\<exists>b. stuck_after w = Some b \<and> 0 < d \<and> now = since + int b + int d)"
proof (cases "stuck_after w")
  case (Some b)
  show ?thesis
  proof (cases "since \<le> now")
    case True
    then obtain age where "now = since + int age" by (metis zle_iff_zadd)
    with Some show ?thesis by (auto simp: stuck_def Let_def)
  qed (auto simp: stuck_def Let_def Some)
qed (simp add: stuck_def)

subsection \<open>Mirroring what a peer reports\<close>

lemma observe_one_Changed:
  assumes "observe_one known speaks line = Some (l, ObsChanged vm k r m)"
  shows "map_of (rev (map (\<lambda>v. (md_uid (metadata v), v)) known)) (sr_id line) = Some vm \<and> speaks vm
     \<and> kind_parse vm_vocab (sr_phase line) = Some k
     \<and> reason_read vm_vocab (sr_reason line) (if sr_message line \<noteq> [] then Some (sr_message line) else None) = (r, m)"
  using assms by (auto simp: observe_one_def Let_def split: option.splits if_splits prod.splits)

end
