(* ===== verification/Deadlines.thy ===== *)
theory Deadlines
  imports Registry Lifecycle_Policy
begin

text \<open>
  The deadline sweeps of both tiers (\<open>deadlines\<close> in \<open>cluster-controller/src/reconcile/mod.rs\<close> and in
  \<open>cloud-controller/src/reconcile/mod.rs\<close>): every object with a phase is looked at once, the overdue
  ones are counted per kind, phase and reason, and those that crossed their deadline since the last
  pass raise an event.
\<close>

record ('j, 'b) deadline_types =
  dl_vm :: "('j vm_spec, vm_status, 'b) resource"
  dl_volume :: "(volume_spec, volume_status, 'b) resource"
  dl_snapshot :: "(volume_snapshot_spec, volume_snapshot_status, 'b) resource"
  dl_pool :: "('j storage_pool_spec, 'j storage_pool_status, 'b) resource"
  dl_router :: "(router_spec, router_status, 'b) resource"
  dl_migration :: "(vm_migration_spec, vm_migration_status, 'b) resource"
  dl_image :: "(image_spec, image_status, 'b) resource"
  dl_event :: "(event_spec, unit, 'b) resource"

section \<open>What is looked at\<close>

definition vm_looked :: "('j vm_spec, vm_status, 'b) resource \<Rightarrow> 'j vm \<Rightarrow> about \<times> standing" where
  "vm_looked T v =
     (about_of T (metadata v) (vs_tenant (spec v)), standing_of vm_vocab vm_is_terminal (vt_phase (status v)))"

definition volume_looked :: "(volume_spec, volume_status, 'b) resource \<Rightarrow> volume \<Rightarrow> about \<times> standing" where
  "volume_looked T v =
     (about_of T (metadata v) (Some (ls_tenant (spec v))),
      standing_of volume_vocab volume_is_terminal (lt_phase (status v)))"

definition snapshot_looked ::
  "(volume_snapshot_spec, volume_snapshot_status, 'b) resource \<Rightarrow> volume_snapshot \<Rightarrow> about \<times> standing" where
  "snapshot_looked T s =
     (about_of T (metadata s) (Some (nss_tenant (spec s))),
      standing_of volume_snapshot_vocab volume_snapshot_is_terminal (nt_phase (status s)))"

definition pool_looked ::
  "('j storage_pool_spec, 'j storage_pool_status, 'b) resource \<Rightarrow> 'j storage_pool \<Rightarrow> about \<times> standing" where
  "pool_looked T p =
     (about_of T (metadata p) None,
      standing_of storage_pool_vocab storage_pool_is_terminal (pt_phase (status p)))"

definition router_looked :: "(router_spec, router_status, 'b) resource \<Rightarrow> router \<Rightarrow> about \<times> standing" where
  "router_looked T r =
     (about_of T (metadata r) (Some (rs_tenant (spec r))),
      standing_of router_vocab router_is_terminal (rt_phase (status r)))"

definition migration_looked ::
  "(vm_migration_spec, vm_migration_status, 'b) resource \<Rightarrow> vm_migration \<Rightarrow> about \<times> standing" where
  "migration_looked T m =
     (about_of T (metadata m) (Some (ms_tenant (spec m))),
      standing_of vm_migration_vocab migration_is_terminal (mt_phase (status m)))"

definition image_looked :: "(image_spec, image_status, 'b) resource \<Rightarrow> image \<Rightarrow> about \<times> standing" where
  "image_looked T i =
     (about_of T (metadata i) (is_tenant (spec i)),
      standing_of image_vocab image_is_terminal (it_phase (status i)))"

text \<open>One \<open>for\<close> loop of the sweep.\<close>

fun look_each :: "('a \<Rightarrow> about \<times> standing) \<Rightarrow> 'a list \<Rightarrow> instant \<Rightarrow> nat \<Rightarrow> late \<Rightarrow> late" where
  "look_each looked [] now tick l = l"
| "look_each looked (x # xs) now tick l =
     look_each looked xs now tick (look l (fst (looked x)) (snd (looked x)) now tick)"

section \<open>The two sweeps\<close>

text \<open>A listing that undecoded ends the sweep before anything is published. The result is what goes onto the
  gauge.\<close>

definition cluster_deadlines ::
  "('b, 'j) store \<Rightarrow> ('j, 'b) deadline_types \<Rightarrow> nat \<Rightarrow> ('b, store_error + late) io" where
  "cluster_deadlines S D tick =
     and_then utc_now (\<lambda>now.
     try_then (store_list S (dl_vm D)) (\<lambda>vms.
       let late = look_each (vm_looked (dl_vm D)) vms now tick late_default in
     try_then (store_list S (dl_volume D)) (\<lambda>volumes.
       let late = look_each (volume_looked (dl_volume D)) volumes now tick late in
     try_then (store_list S (dl_snapshot D)) (\<lambda>snapshots.
       let late = look_each (snapshot_looked (dl_snapshot D)) snapshots now tick late in
     try_then (store_list S (dl_pool D)) (\<lambda>pools.
       let late = look_each (pool_looked (dl_pool D)) pools now tick late in
     try_then (store_list S (dl_router D)) (\<lambda>routers.
       let late = look_each (router_looked (dl_router D)) routers now tick late in
     try_then (store_list S (dl_migration D)) (\<lambda>migrations.
       let late = look_each (migration_looked (dl_migration D)) migrations now tick late in
     and_then (late_report S (dl_event D) late) (\<lambda>_. Done (Inr late)))))))))"

definition cloud_deadlines ::
  "('b, 'j) store \<Rightarrow> ('j, 'b) deadline_types \<Rightarrow> nat \<Rightarrow> ('b, store_error + late) io" where
  "cloud_deadlines S D tick =
     and_then utc_now (\<lambda>now.
     try_then (store_list S (dl_vm D)) (\<lambda>vms.
       let late = look_each (vm_looked (dl_vm D)) vms now tick late_default in
     try_then (store_list S (dl_volume D)) (\<lambda>volumes.
       let late = look_each (volume_looked (dl_volume D)) volumes now tick late in
     try_then (store_list S (dl_snapshot D)) (\<lambda>snapshots.
       let late = look_each (snapshot_looked (dl_snapshot D)) snapshots now tick late in
     try_then (store_list S (dl_pool D)) (\<lambda>pools.
       let late = look_each (pool_looked (dl_pool D)) pools now tick late in
     try_then (store_list S (dl_router D)) (\<lambda>routers.
       let late = look_each (router_looked (dl_router D)) routers now tick late in
     try_then (store_list S (dl_image D)) (\<lambda>images.
       let late = look_each (image_looked (dl_image D)) images now tick late in
     and_then (late_report S (dl_event D) late) (\<lambda>_. Done (Inr late)))))))))"

section \<open>What is overdue\<close>

text \<open>The budgets in seconds: five minutes for what waits, a quarter of an hour for what a machine is
  working on, ten minutes for what is not known.\<close>

definition overdue_by :: "instant \<Rightarrow> standing \<Rightarrow> nat \<Rightarrow> bool" where
  "overdue_by now s over \<longleftrightarrow>
     \<not> st_terminal s \<and> 0 < over
     \<and> (\<exists>budget. (st_word s = ''Pending'' \<and> budget = 300
          \<or> st_word s \<in> {''Provisioning'', ''Creating'', ''Preparing'', ''Releasing'', ''Receiving''} \<and> budget = 900
          \<or> st_word s = ''Unknown'' \<and> budget = 600)
        \<and> now = st_since s + budget * 10 ^ 9 + int over)"

definition overdue :: "instant \<Rightarrow> standing \<Rightarrow> bool" where
  "overdue now s \<longleftrightarrow> (\<exists>over. overdue_by now s over)"

text \<open>What a sweep over a list of objects has to report: the cell of a kind, a phase word and a reason holds
  the number of overdue objects of that cell, the total is the number of overdue objects, and an event
  is raised for exactly those that are overdue by less than one pass, in the order of the list, with
  their identity, phase, reason and overshoot.\<close>

definition reports_exactly :: "instant \<Rightarrow> nat \<Rightarrow> (about \<times> standing) list \<Rightarrow> late \<Rightarrow> bool" where
  "reports_exactly now tick swept l \<longleftrightarrow>
     late_total l = int (length (filter (\<lambda>(a, s). overdue now s) swept))
     \<and> (\<forall>kind word reason. unwrap_or 0 (map_of (la_counted l) (kind, word, reason)) =
          int (length (filter (\<lambda>(a, s). overdue now s \<and> ab_kind a = kind \<and> st_word s = word \<and> st_reason s = reason) swept)))
     \<and> list_all2 (\<lambda>(a, s) x. overdue_by now s (cx_over x) \<and> cx_kind x = ab_kind a \<and> cx_name x = ab_name a
            \<and> cx_uid x = ab_uid a \<and> cx_tenant x = ab_tenant a \<and> cx_word x = st_word s \<and> cx_reason x = st_reason s)
          (filter (\<lambda>(a, s). \<exists>over<tick. overdue_by now s over) swept) (la_crossed l)"

lemma stuck_overdue: "stuck (st_terminal s) (st_word s) (st_since s) now = Some d \<longleftrightarrow> overdue_by now s d"
  by (auto simp: stuck_Some overdue_by_def stuck_after_def STUCK_AFTER_PENDING_def STUCK_AFTER_PROVISIONING_def
      STUCK_AFTER_UNKNOWN_def secs_def)

lemma stuck_None: "stuck (st_terminal s) (st_word s) (st_since s) now = None \<longleftrightarrow> \<not> overdue now s"
  unfolding overdue_def stuck_overdue [symmetric] by (cases "stuck (st_terminal s) (st_word s) (st_since s) now") auto

lemma overdue_by_unique: "overdue_by now s d \<Longrightarrow> overdue_by now s d' \<Longrightarrow> d = d'"
  unfolding stuck_overdue [symmetric] by simp

section \<open>The sweeps report exactly that\<close>

lemma bm_count_insert:
  "bm_wf m \<Longrightarrow> (\<Sum>c\<leftarrow>bm_insert k (unwrap_or 0 (map_of m k) + (1::int)) m. snd c) = (\<Sum>c\<leftarrow>m. snd c) + 1"
proof (induction m)
  case (Cons c m)
  obtain k' v' where c: "c = (k', v')" by (cases c)
  show ?case
  proof (cases "k < k'")
    case True
    hence "k \<notin> set (map fst m)" using Cons.prems by (force simp: c bm_wf_Cons)
    hence "map_of m k = None" by (simp add: map_of_eq_None_iff image_image)
    thus ?thesis using True by (auto simp: c)
  qed (use Cons in \<open>auto simp: c bm_wf_Cons\<close>)
qed simp

definition sweep :: "instant \<Rightarrow> nat \<Rightarrow> (about \<times> standing) list \<Rightarrow> late \<Rightarrow> late" where
  "sweep now tick swept l = fold (\<lambda>(a, s) l. look l a s now tick) swept l"

lemma look_each_sweep: "look_each looked xs now tick l = sweep now tick (map looked xs) l"
  by (induction xs arbitrary: l) (simp_all add: sweep_def split_beta)

lemma sweep_append: "sweep now tick ys (sweep now tick xs l) = sweep now tick (xs @ ys) l"
  by (simp add: sweep_def)

lemma look_wf: "bm_wf (la_counted l) \<Longrightarrow> bm_wf (la_counted (look l a s now tick))"
  by (auto simp: look_def Let_def bm_wf_insert split: option.splits)

lemma sweep_wf: "bm_wf (la_counted (sweep now tick swept late_default))"
proof (induction swept rule: rev_induct)
  case Nil
  show ?case by (simp add: sweep_def late_default_def bm_wf_def)
next
  case (snoc p swept)
  then show ?case by (cases p) (simp add: sweep_def look_wf)
qed

lemma look_reports:
  assumes "reports_exactly now tick swept l" and wf: "bm_wf (la_counted l)"
  shows "reports_exactly now tick (swept @ [(a, s)]) (look l a s now tick)"
proof (cases "stuck (st_terminal s) (st_word s) (st_since s) now")
  case None
  moreover from this have "\<not> overdue now s" "\<not> overdue_by now s d" for d
    by (auto simp: stuck_None overdue_def)
  ultimately show ?thesis using assms(1) by (simp add: look_def reports_exactly_def)
next
  case (Some d)
  then have d: "overdue now s" "overdue_by now s d" "(\<exists>over<tick. overdue_by now s over) \<longleftrightarrow> d < tick"
    using overdue_by_unique by (auto simp: stuck_overdue overdue_def)
  have total: "late_total (look l a s now tick) = late_total l + 1"
    using Some bm_count_insert [OF wf] by (auto simp: look_def late_total_def Let_def)
  have cells: "map_of (la_counted (look l a s now tick)) cell =
      (if cell = (ab_kind a, st_word s, st_reason s) then Some (unwrap_or 0 (map_of (la_counted l) cell) + 1)
       else map_of (la_counted l) cell)" for cell
    using Some by (auto simp: look_def Let_def)
  have crossed: "la_crossed (look l a s now tick) = la_crossed l @
      (if d < tick then [\<lparr>cx_kind = ab_kind a, cx_name = ab_name a, cx_uid = ab_uid a, cx_tenant = ab_tenant a,
         cx_word = st_word s, cx_reason = st_reason s, cx_over = d\<rparr>] else [])"
    using Some by (simp add: look_def Let_def)
  show ?thesis
    using assms(1) unfolding reports_exactly_def total cells crossed
    by (simp add: d) (auto intro!: list_all2_appendI simp: d(2))
qed

lemma sweep_reports: "reports_exactly now tick swept (sweep now tick swept late_default)"
proof (induction swept rule: rev_induct)
  case Nil
  show ?case by (simp add: sweep_def reports_exactly_def late_default_def late_total_def)
next
  case (snoc p swept)
  then show ?case using look_reports [OF snoc sweep_wf] by (cases p) (simp add: sweep_def)
qed

section \<open>A program and the replies it got\<close>

text \<open>Whatever the service and the other programs do, a program sees nothing but the replies to its
  requests: the result of a run is a function of them.\<close>

primrec answered :: "('b, 'a) io \<Rightarrow> 'b reply list \<Rightarrow> 'a \<Rightarrow> bool" where
  "answered (Done a) rs b \<longleftrightarrow> rs = [] \<and> b = a"
| "answered (Ask q k) rs b \<longleftrightarrow> (case rs of [] \<Rightarrow> False | r # rs' \<Rightarrow> answered (k r) rs' b)"

lemma answered_and_then:
  "answered (and_then m f) rs b \<longleftrightarrow> (\<exists>r1 r2 a. rs = r1 @ r2 \<and> answered m r1 a \<and> answered (f a) r2 b)"
proof (induction m arbitrary: rs)
  case (Done a)
  show ?case by simp
next
  case (Ask q k)
  show ?case
  proof (cases rs)
    case Nil
    then show ?thesis by simp
  next
    case (Cons r rs')
    then have "answered (and_then (Ask q k) f) rs b \<longleftrightarrow>
        (\<exists>r1 r2 a. rs' = r1 @ r2 \<and> answered (k r) r1 a \<and> answered (f a) r2 b)"
      using Ask [of "k r" rs'] by simp
    also have "\<dots> \<longleftrightarrow> (\<exists>r1 r2 a. rs = r1 @ r2 \<and> answered (Ask q k) r1 a \<and> answered (f a) r2 b)"
      unfolding Cons by (auto simp: Cons_eq_append_conv split: list.splits) blast
    finally show ?thesis .
  qed
qed

lemma answered_try_then:
  "answered (try_then m f) rs (Inr b) \<longleftrightarrow>
     (\<exists>r1 r2 a. rs = r1 @ r2 \<and> answered m r1 (Inr a) \<and> answered (f a) r2 (Inr b))"
  unfolding try_then_def answered_and_then by (auto split: sum.splits) (metis sum.exhaust)

text \<open>The cloud's sweep, which has images in the place of migrations.\<close>

lemma cloud_deadlines_exact:
  assumes "answered (cloud_deadlines S D tick) replies (Inr late)"
  shows "\<exists>r0 r1 r2 r3 r4 r5 r6 r7 now vms volumes snapshots pools routers images.
    replies = r0 @ r1 @ r2 @ r3 @ r4 @ r5 @ r6 @ r7
    \<and> answered utc_now r0 now
    \<and> answered (store_list S (dl_vm D)) r1 (Inr vms)
    \<and> answered (store_list S (dl_volume D)) r2 (Inr volumes)
    \<and> answered (store_list S (dl_snapshot D)) r3 (Inr snapshots)
    \<and> answered (store_list S (dl_pool D)) r4 (Inr pools)
    \<and> answered (store_list S (dl_router D)) r5 (Inr routers)
    \<and> answered (store_list S (dl_image D)) r6 (Inr images)
    \<and> answered (late_report S (dl_event D) late) r7 ()
    \<and> reports_exactly now tick
        (map (vm_looked (dl_vm D)) vms @ map (volume_looked (dl_volume D)) volumes
         @ map (snapshot_looked (dl_snapshot D)) snapshots @ map (pool_looked (dl_pool D)) pools
         @ map (router_looked (dl_router D)) routers @ map (image_looked (dl_image D)) images) late"
  using assms sweep_reports
  unfolding cloud_deadlines_def Let_def look_each_sweep sweep_append append_assoc answered_and_then answered_try_then
    answered.simps sum.inject
  by (elim exE conjE) (hypsubst, intro exI conjI, rule refl, assumption+, simp, assumption)

text \<open>C21: Whatever the six listings of the cluster's deadline sweep answered, the sweep reports exactly what
  is overdue in them. An object is overdue when its phase is not terminal and has stood for more
  than its budget: 5 minutes for Pending, 15 for Provisioning, Creating, Preparing, Releasing and
  Receiving, 10 for Unknown, none for any other word. The gauge's cell of a kind, a phase and a
  reason holds the number of overdue objects of that cell, the total is the number of overdue
  objects, and an event is raised for exactly those that are overdue by less than one pass, in the
  order in which they were listed, under their own name and by the exact overshoot.\<close>

theorem deadlines_are_counted:
  assumes "answered (cluster_deadlines S D tick) replies (Inr late)"
  shows "\<exists>r0 r1 r2 r3 r4 r5 r6 r7 now vms volumes snapshots pools routers migrations.
    replies = r0 @ r1 @ r2 @ r3 @ r4 @ r5 @ r6 @ r7
    \<and> answered utc_now r0 now
    \<and> answered (store_list S (dl_vm D)) r1 (Inr vms)
    \<and> answered (store_list S (dl_volume D)) r2 (Inr volumes)
    \<and> answered (store_list S (dl_snapshot D)) r3 (Inr snapshots)
    \<and> answered (store_list S (dl_pool D)) r4 (Inr pools)
    \<and> answered (store_list S (dl_router D)) r5 (Inr routers)
    \<and> answered (store_list S (dl_migration D)) r6 (Inr migrations)
    \<and> answered (late_report S (dl_event D) late) r7 ()
    \<and> reports_exactly now tick
        (map (vm_looked (dl_vm D)) vms @ map (volume_looked (dl_volume D)) volumes
         @ map (snapshot_looked (dl_snapshot D)) snapshots @ map (pool_looked (dl_pool D)) pools
         @ map (router_looked (dl_router D)) routers @ map (migration_looked (dl_migration D)) migrations) late"
  using assms sweep_reports
  unfolding cluster_deadlines_def Let_def look_each_sweep sweep_append append_assoc answered_and_then answered_try_then
    answered.simps sum.inject
  by (elim exE conjE) (hypsubst, intro exI conjI, rule refl, assumption+, simp, assumption)

definition undecoded :: "'a \<Rightarrow> string + 'b" where
  "undecoded _ = Inl ''not one of these''"

definition late_guest_types :: "(json, unit) deadline_types" where
  "late_guest_types =
     \<lparr>dl_vm = vm_resource (\<lambda>_. []) (\<lambda>_. Inr ()) (\<lambda>_. Inr (sample_vm ''a'' 2 512)),
       dl_volume = volume_resource undecoded undecoded, dl_snapshot = volume_snapshot_resource undecoded undecoded,
       dl_pool = storage_pool_resource undecoded undecoded, dl_router = router_resource undecoded undecoded,
       dl_migration = vm_migration_resource undecoded undecoded, dl_image = image_resource undecoded undecoded,
       dl_event = event_resource undecoded undecoded\<rparr>"

text \<open>One guest that has been waiting for 301 seconds; the service is lost when its event is written.\<close>

definition late_guest_replies :: "unit reply list" where
  "late_guest_replies =
     [RepNow (301000000000), RepKvs [\<lparr>kv_key = ''/meister/vms/a'', kv_value = (), kv_mod_revision = 7\<rparr>],
      RepKvs [], RepKvs [], RepKvs [], RepKvs [], RepKvs [], RepNow (301000000000), RepUid ''u1'',
      RepNow (301000000000), RepFailed ''unavailable'']"

definition late_guest_seen :: late where
  "late_guest_seen =
     \<lparr>la_counted = [((''Vm'', ''Pending'', []), 1)],
      la_crossed = [\<lparr>cx_kind = ''Vm'', cx_name = ''a'', cx_uid = ''uid-a'', cx_tenant = None, cx_word = ''Pending'',
        cx_reason = [], cx_over = 1000000000\<rparr>]\<rparr>"

lemma answered_list:
  "answered (and_then (store_list S R) f) (RepKvs kvs # rs) b \<longleftrightarrow> answered (f (Inr (decode_range R kvs))) rs b"
  by (simp add: store_list_def list_counted_def try_then_def timed_def)

definition late_guest :: "json vm" where
  "late_guest = (let v = sample_vm ''a'' 2 512 in v\<lparr>metadata := (metadata v)\<lparr>md_resource_version := int_display 7\<rparr>\<rparr>)"

lemma late_guest_listed:
  "decode_range (dl_vm late_guest_types) [\<lparr>kv_key = ''/meister/vms/a'', kv_value = (), kv_mod_revision = 7\<rparr>] = [late_guest]"
  by (simp add: late_guest_types_def vm_resource_def decode_range_def decode_def late_guest_def Let_def)

lemma late_guest_looked:
  "vm_looked (dl_vm late_guest_types) late_guest =
     (\<lparr>ab_kind = ''Vm'', ab_name = ''a'', ab_uid = ''uid-a'', ab_tenant = None\<rparr>,
      \<lparr>st_word = ''Pending'', st_terminal = False, st_reason = [], st_since = 0\<rparr>)"
  by code_simp

lemma late_guest_counted:
  "look_each (vm_looked (dl_vm late_guest_types)) [late_guest] 301000000000 (secs 5) late_default = late_guest_seen"
  by (simp add: late_guest_looked late_guest_seen_def look_def stuck_def stuck_after_def STUCK_AFTER_PENDING_def
      secs_def late_default_def)

lemma late_guest_told:
  "answered (and_then (late_report sample_store (dl_event late_guest_types) late_guest_seen) f)
     (RepNow n # RepUid u # RepNow n' # RepFailed e # rs) b \<longleftrightarrow> answered (f ()) rs b"
  by (simp add: late_report_def late_guest_seen_def record_event_def utc_now_def new_uid_def create_with_ttl_def
      try_then_def timed_def Let_def)

lemma decode_range_Nil: "decode_range R [] = []"
  by (simp add: decode_range_def)

lemma late_guest_run:
  "answered (cluster_deadlines sample_store late_guest_types (secs 5)) late_guest_replies (Inr late_guest_seen)"
  unfolding cluster_deadlines_def late_guest_replies_def try_then_def utc_now_def and_then.simps answered.simps list.case
    rep_now.simps answered_list sum.case late_guest_listed late_guest_counted Let_def decode_range_Nil
    look_each.simps(1) late_guest_told
  by simp

theorem deadlines_are_counted_witness:
  "\<exists>now swept. reports_exactly now (secs 5) swept late_guest_seen"
  using deadlines_are_counted [OF late_guest_run] by blast

end
