(* ===== verification/Status_Ingest.thy ===== *)
theory Status_Ingest
  imports Lifecycle_Policy Storage_Resource Deletion Samples
begin

text \<open>
  What a status report of the tier below writes onto guests and volumes: the guest half of
  \<open>cluster-controller/src/session/ingest.rs\<close> (a node reports to its cluster) and of
  \<open>cloud-controller/src/session/ingest.rs\<close> (a cluster reports to the cloud). Every write is the
  closure the code hands to \<open>mutate_if\<close>, which runs again on each retry and, where the caller reads
  it, leaves behind whether it applied. Log lines are left out.
\<close>

section \<open>The node's report at its cluster\<close>

record status_report =
  rp_vms :: "vm_status_report list"
  rp_vms_complete :: bool

definition ours_node :: "string \<Rightarrow> 'j vm \<Rightarrow> bool" where
  "ours_node node_id vm =
     (case vs_node_name (spec vm) of None \<Rightarrow> True | Some bound \<Rightarrow> bound = node_id)"

fun changed :: "'j observation \<Rightarrow> ('j vm \<times> vm_phase_kind \<times> vm_reason \<times> string option) option" where
  "changed ObsUnknown = None"
| "changed (ObsNotBound vm) = None"
| "changed (ObsBadPhase vm) = None"
| "changed (ObsChanged vm phase reason message) = Some (vm, phase, reason, message)"

definition note_phase ::
  "('b, 'k) store \<Rightarrow> (event_spec, unit, 'b) resource \<Rightarrow> string \<Rightarrow> string \<Rightarrow> vm_phase_kind \<Rightarrow> string option \<Rightarrow>
   string option \<Rightarrow> ('b, unit) io" where
  "note_phase S Te name uid phase message tenant =
     record_event S Te
       \<lparr>hp_kind = ''Vm'', hp_name = name, hp_uid = uid, hp_reason = REASON_PHASE_CHANGED,
        hp_message = (case message of
                        Some said \<Rightarrow> vm_phase_kind_str phase @ '' ('' @ said @ '')''
                      | None \<Rightarrow> vm_phase_kind_str phase),
        hp_event_type = (if phase \<in> {VP_Failed, VP_Quarantined} then EvWarning else EvNormal),
        hp_tenant = tenant\<rparr>"

definition phase_from_node ::
  "string \<Rightarrow> vm_phase_kind \<Rightarrow> vm_reason \<Rightarrow> string option \<Rightarrow> instant \<Rightarrow> 'j vm \<Rightarrow> 'j vm" where
  "phase_from_node node_id phase reason message at v =
     (if \<not> ours_node node_id v then v
      else v\<lparr>status := (status v)
             \<lparr>vt_reported := Some (said_by node_id phase reason message at),
              vt_silence := None,
              vt_node_name := vs_node_name (spec v),
              vt_observed_at := Some at\<rparr>\<rparr>)"

fun ingest_phase_lines ::
  "('b, 'k) store \<Rightarrow> ('j vm_spec, vm_status, 'b) resource \<Rightarrow> (event_spec, unit, 'b) resource \<Rightarrow>
   ('j vm \<Rightarrow> bool) \<Rightarrow>
   (vm_phase_kind \<Rightarrow> vm_reason \<Rightarrow> string option \<Rightarrow> instant \<Rightarrow> 'j vm \<Rightarrow> 'j vm) \<Rightarrow> instant \<Rightarrow>
   (vm_status_report \<times> 'j observation) list \<Rightarrow> ('b, unit) io" where
  "ingest_phase_lines S Tv Te ours write at [] = Done ()"
| "ingest_phase_lines S Tv Te ours write at ((reported, seen) # rest) =
     (case changed seen of
        None \<Rightarrow> ingest_phase_lines S Tv Te ours write at rest
      | Some (vm, phase, reason, message) \<Rightarrow>
          and_then (mutate_noting S Tv (md_name (metadata vm)) (sr_id reported)
                      (\<lambda>v. Done (ours v, write phase reason message at v)) False) (\<lambda>(applied, result).
          and_then (case result of
                      Inr _ \<Rightarrow> if applied
                               then note_phase S Te (md_name (metadata vm)) (sr_id reported) phase message
                                      (vs_tenant (spec vm))
                               else Done ()
                    | Inl _ \<Rightarrow> Done ())
            (\<lambda>_. ingest_phase_lines S Tv Te ours write at rest)))"

definition ingest_phases ::
  "('b, 'k) store \<Rightarrow> ('j vm_spec, vm_status, 'b) resource \<Rightarrow> (event_spec, unit, 'b) resource \<Rightarrow> string \<Rightarrow>
   'j vm list \<Rightarrow> status_report \<Rightarrow> instant \<Rightarrow> ('b, unit) io" where
  "ingest_phases S Tv Te node_id vms report at =
     ingest_phase_lines S Tv Te (ours_node node_id) (phase_from_node node_id) at
       (observe vms (rp_vms report) (ours_node node_id))"

subsection \<open>A node that lets go of an unbound guest\<close>

definition letting_go :: "'j vm list \<Rightarrow> string \<Rightarrow> status_report \<Rightarrow> 'j vm list" where
  "letting_go vms node_id report =
     (if \<not> rp_vms_complete report then []
      else filter (\<lambda>vm. \<not> (\<exists>r \<in> set (rp_vms report). sr_id r = md_uid (metadata vm)))
             (filter (\<lambda>vm. vs_node_name (spec vm) = None \<and> vt_node_name (status vm) = Some node_id) vms))"

definition let_go_node :: "string \<Rightarrow> instant \<Rightarrow> 'j vm \<Rightarrow> 'j vm" where
  "let_go_node node_id at v =
     (if \<not> (vs_node_name (spec v) = None \<and> vt_node_name (status v) = Some node_id) then v
      else v\<lparr>status := (status v)
             \<lparr>vt_node_name := None,
              vt_reported := Some (said_here VP_Pending VR_Unbound
                (Some (''node '' @ node_id @ '' let go; waiting to be placed'')) at),
              vt_silence := None,
              vt_volumes := [],
              vt_reschedules := sat_add (vt_reschedules (status v)) 1,
              vt_observed_at := Some at\<rparr>\<rparr>)"

fun forget_each ::
  "('b, 'k) store \<Rightarrow> ('j vm_spec, vm_status, 'b) resource \<Rightarrow> ('j vm \<Rightarrow> 'j vm) \<Rightarrow> 'j vm list \<Rightarrow> ('b, unit) io" where
  "forget_each S Tv write [] = Done ()"
| "forget_each S Tv write (vm # vms) =
     and_then (mutate_if S Tv (md_name (metadata vm)) (md_uid (metadata vm)) (\<lambda>v. Done (write v)))
       (\<lambda>_. forget_each S Tv write vms)"

definition forget_unbound ::
  "('b, 'k) store \<Rightarrow> ('j vm_spec, vm_status, 'b) resource \<Rightarrow> 'j vm list \<Rightarrow> string \<Rightarrow> status_report \<Rightarrow>
   instant \<Rightarrow> ('b, unit) io" where
  "forget_unbound S Tv vms node_id report at =
     forget_each S Tv (let_go_node node_id at) (letting_go vms node_id report)"

subsection \<open>Disks and addresses\<close>

fun observe_held :: "string list \<Rightarrow> volume_attachment_status list \<Rightarrow> string list \<Rightarrow> volume_attachment_status list" where
  "observe_held wanted found [] = found"
| "observe_held wanted found (name # names) =
     (if name \<in> set wanted \<or> (\<exists>o1 \<in> set found. vat_name o1 = name)
      then observe_held wanted found names
      else observe_held wanted (found @ [\<lparr>vat_name = name, vat_attached = True\<rparr>]) names)"

definition observed_attachments :: "'j json_ops \<Rightarrow> 'j vm \<Rightarrow> string list \<Rightarrow> volume_attachment_status list" where
  "observed_attachments J vm names =
     (let wanted = referenced_volumes J (spec vm)
      in observe_held wanted (map (\<lambda>name. \<lparr>vat_name = name, vat_attached = (name \<in> set names)\<rparr>) wanted) names)"

definition attachments_settled :: "'j json_ops \<Rightarrow> 'j vm \<Rightarrow> volume_attachment_status list \<Rightarrow> bool" where
  "attachments_settled J vm found =
     (let wanted = referenced_volumes J (spec vm)
      in (\<forall>w \<in> set wanted. \<exists>o1 \<in> set found. vat_attached o1 \<and> vat_name o1 = w)
         \<and> (\<forall>o1 \<in> set found. \<not> vat_attached o1 \<or> vat_name o1 \<in> set wanted))"

definition attachments_from_node ::
  "'j json_ops \<Rightarrow> string \<Rightarrow> string list \<Rightarrow> instant \<Rightarrow> 'j vm \<Rightarrow> 'j vm" where
  "attachments_from_node J node_id names at v =
     (if \<not> ours_node node_id v then v
      else let found = observed_attachments J v names;
               t = (status v)\<lparr>vt_volumes := found\<rparr>;
               t = (if attachments_settled J v found
                    then t\<lparr>vt_observed_generation := max (vt_observed_generation t) (md_generation (metadata v))\<rparr>
                    else t)
           in v\<lparr>status := t\<lparr>vt_observed_at := Some at\<rparr>\<rparr>)"

definition attachments_relevant ::
  "'j json_ops \<Rightarrow> string \<Rightarrow> 'j vm list \<Rightarrow> vm_status_report \<Rightarrow> ('j vm \<times> vm_status_report) option" where
  "attachments_relevant J node_id vms r =
     (case find (\<lambda>v. md_uid (metadata v) = sr_id r) vms of
        None \<Rightarrow> None
      | Some vm \<Rightarrow>
          let has_something_to_settle = referenced_volumes J (spec vm) \<noteq> [] \<or> vt_volumes (status vm) \<noteq> []
                \<or> sr_attached_volumes r \<noteq> []
          in if ours_node node_id vm \<and> has_something_to_settle then Some (vm, r) else None)"

fun ingest_attachment_lines ::
  "'j json_ops \<Rightarrow> ('b, 'k) store \<Rightarrow> ('j vm_spec, vm_status, 'b) resource \<Rightarrow> string \<Rightarrow> (string \<Rightarrow> string option) \<Rightarrow>
   instant \<Rightarrow> ('j vm \<times> vm_status_report) list \<Rightarrow> ('b, unit) io" where
  "ingest_attachment_lines J S Tv node_id by_uid at [] = Done ()"
| "ingest_attachment_lines J S Tv node_id by_uid at ((vm, reported) # rest) =
     (let names = List.map_filter by_uid (sr_attached_volumes reported)
      in if vt_volumes (status vm) = observed_attachments J vm names
         then ingest_attachment_lines J S Tv node_id by_uid at rest
         else and_then (mutate_if S Tv (md_name (metadata vm)) (sr_id reported)
                          (\<lambda>v. Done (attachments_from_node J node_id names at v)))
                (\<lambda>_. ingest_attachment_lines J S Tv node_id by_uid at rest))"

definition ingest_attachments ::
  "'j json_ops \<Rightarrow> ('b, 'k) store \<Rightarrow> ('j vm_spec, vm_status, 'b) resource \<Rightarrow>
   (volume_spec, volume_status, 'b) resource \<Rightarrow> 'j vm list \<Rightarrow> string \<Rightarrow> status_report \<Rightarrow> instant \<Rightarrow>
   ('b, store_error + unit) io" where
  "ingest_attachments J S Tv Tl vms node_id report at =
     (let relevant = List.map_filter (attachments_relevant J node_id vms) (rp_vms report)
      in if relevant = [] then Done (Inr ())
         else try_then (store_list S Tl) (\<lambda>volumes.
                let by_uid = map_of (rev (map (\<lambda>v. (md_uid (metadata v), md_name (metadata v))) volumes))
                in and_then (ingest_attachment_lines J S Tv node_id by_uid at relevant) (\<lambda>_. Done (Inr ()))))"

definition addresses_from_node :: "('j vm \<Rightarrow> bool) \<Rightarrow> nic_report list \<Rightarrow> 'j vm \<Rightarrow> 'j vm" where
  "addresses_from_node ours nics v =
     (if ours v
      then v\<lparr>status := (status v)\<lparr>vt_addresses := addresses_with (vt_addresses (status v)) nics\<rparr>\<rparr>
      else v)"

fun ingest_addresses ::
  "('b, 'k) store \<Rightarrow> ('j vm_spec, vm_status, 'b) resource \<Rightarrow> 'j vm list \<Rightarrow> string \<Rightarrow> vm_status_report list \<Rightarrow>
   ('b, unit) io" where
  "ingest_addresses S Tv vms node_id [] = Done ()"
| "ingest_addresses S Tv vms node_id (reported # rest) =
     (if sr_nics reported = [] then ingest_addresses S Tv vms node_id rest
      else case find (\<lambda>v. md_uid (metadata v) = sr_id reported) vms of
             None \<Rightarrow> ingest_addresses S Tv vms node_id rest
           | Some vm \<Rightarrow>
               if \<not> ours_node node_id vm
                  \<or> vt_addresses (status vm) = addresses_with (vt_addresses (status vm)) (sr_nics reported)
               then ingest_addresses S Tv vms node_id rest
               else and_then (mutate_if S Tv (md_name (metadata vm)) (sr_id reported)
                                (\<lambda>v. Done (addresses_from_node (ours_node node_id) (sr_nics reported) v)))
                      (\<lambda>_. ingest_addresses S Tv vms node_id rest))"

section \<open>The cluster's report at the cloud\<close>

definition ours_cluster :: "string \<Rightarrow> 'j vm \<Rightarrow> bool" where
  "ours_cluster cluster vm \<longleftrightarrow> vs_cluster_name (spec vm) = Some cluster"

definition leaving_cluster :: "'j vm list \<Rightarrow> string \<Rightarrow> status_report \<Rightarrow> 'j vm list" where
  "leaving_cluster vms cluster report =
     (if \<not> rp_vms_complete report then []
      else filter (\<lambda>vm. \<not> (\<exists>r \<in> set (rp_vms report). sr_id r = md_uid (metadata vm)))
             (filter (\<lambda>vm. vs_cluster_name (spec vm) = None \<and> vt_cluster_name (status vm) = Some cluster) vms))"

definition let_go_cluster :: "string \<Rightarrow> instant \<Rightarrow> 'j vm \<Rightarrow> 'j vm" where
  "let_go_cluster cluster at v =
     (if \<not> (vs_cluster_name (spec v) = None \<and> vt_cluster_name (status v) = Some cluster) then v
      else v\<lparr>status := (status v)
             \<lparr>vt_cluster_name := None,
              vt_node_name := None,
              vt_reported := Some (said_here VP_Pending VR_Unbound
                (Some (''cluster '' @ cluster @ '' let go; waiting to be placed'')) at),
              vt_silence := None,
              vt_volumes := [],
              vt_reschedules := sat_add (vt_reschedules (status v)) 1,
              vt_observed_at := Some at\<rparr>\<rparr>)"

definition forget_unbound_cluster ::
  "('b, 'k) store \<Rightarrow> ('j vm_spec, vm_status, 'b) resource \<Rightarrow> 'j vm list \<Rightarrow> string \<Rightarrow> status_report \<Rightarrow>
   instant \<Rightarrow> ('b, unit) io" where
  "forget_unbound_cluster S Tv vms cluster report at =
     forget_each S Tv (let_go_cluster cluster at) (leaving_cluster vms cluster report)"

definition placement_from_cluster :: "string \<Rightarrow> vm_status_report \<Rightarrow> 'j vm \<Rightarrow> 'j vm" where
  "placement_from_cluster cluster reported v =
     (if \<not> ours_cluster cluster v then v
      else v\<lparr>status := (status v)
             \<lparr>vt_node_name := (if sr_node reported \<noteq> [] then Some (sr_node reported) else None),
              vt_volumes := sr_volumes reported,
              vt_addresses := addresses_with (vt_addresses (status v)) (sr_nics reported)\<rparr>\<rparr>)"

fun ingest_placements ::
  "('b, 'k) store \<Rightarrow> ('j vm_spec, vm_status, 'b) resource \<Rightarrow> 'j vm list \<Rightarrow> string \<Rightarrow> vm_status_report list \<Rightarrow>
   ('b, unit) io" where
  "ingest_placements S Tv known cluster [] = Done ()"
| "ingest_placements S Tv known cluster (reported # rest) =
     (case find (\<lambda>v. md_uid (metadata v) = sr_id reported) known of
        None \<Rightarrow> ingest_placements S Tv known cluster rest
      | Some vm \<Rightarrow>
          let node = (if sr_node reported \<noteq> [] then Some (sr_node reported) else None);
              unchanged = vt_node_name (status vm) = node \<and> vt_volumes (status vm) = sr_volumes reported
                \<and> vt_addresses (status vm) = addresses_with (vt_addresses (status vm)) (sr_nics reported)
          in if \<not> ours_cluster cluster vm \<or> unchanged
             then ingest_placements S Tv known cluster rest
             else and_then (mutate_if S Tv (md_name (metadata vm)) (sr_id reported)
                              (\<lambda>v. Done (placement_from_cluster cluster reported v)))
                    (\<lambda>_. ingest_placements S Tv known cluster rest))"

definition phase_from_cluster ::
  "string \<Rightarrow> vm_phase_kind \<Rightarrow> vm_reason \<Rightarrow> string option \<Rightarrow> instant \<Rightarrow> 'j vm \<Rightarrow> 'j vm" where
  "phase_from_cluster cluster phase reason message at v =
     (if \<not> ours_cluster cluster v then v
      else v\<lparr>status := (status v)
             \<lparr>vt_reported := Some (said_by cluster phase reason message at),
              vt_silence := None,
              vt_cluster_name := vs_cluster_name (spec v),
              vt_observed_at := Some at\<rparr>\<rparr>)"

definition ingest_phases_cluster ::
  "('b, 'k) store \<Rightarrow> ('j vm_spec, vm_status, 'b) resource \<Rightarrow> (event_spec, unit, 'b) resource \<Rightarrow> string \<Rightarrow>
   'j vm list \<Rightarrow> status_report \<Rightarrow> instant \<Rightarrow> ('b, unit) io" where
  "ingest_phases_cluster S Tv Te cluster known report at =
     ingest_phase_lines S Tv Te (ours_cluster cluster) (phase_from_cluster cluster) at
       (observe known (rp_vms report) (ours_cluster cluster))"

section \<open>A node's word about a volume\<close>

definition speaks_for_volume :: "volume \<Rightarrow> string \<Rightarrow> bool" where
  "speaks_for_volume v node_id \<longleftrightarrow>
     lt_node (status v) = Some node_id \<or> node_id \<in> set (lt_open_on (status v))"

datatype gone_outcome = Tombstoned | HolderLetGo | NoWord

definition note_open :: "volume \<Rightarrow> string \<Rightarrow> bool \<Rightarrow> volume" where
  "note_open v node open1 =
     v\<lparr>status := fst (if open1 then open_here (status v) node else closed_here (status v) node)\<rparr>"

definition apply_gone :: "volume \<Rightarrow> string \<Rightarrow> bool \<Rightarrow> instant \<Rightarrow> volume \<times> gone_outcome" where
  "apply_gone v node_id open1 at =
     (if \<not> is_current (md_deletion_timestamp (metadata v)) (lt_observed_at (status v)) at then (v, NoWord)
      else let home = lt_node (status v) = Some node_id;
               holds = node_id \<in> set (lt_open_on (status v))
           in if \<not> home then (if \<not> holds then (v, NoWord) else (note_open v node_id open1, HolderLetGo))
              else let v1 = note_open (v\<lparr>status := (status v)\<lparr>lt_node := None\<rparr>\<rparr>) node_id open1
                   in (v1\<lparr>status := (status v1)
                         \<lparr>lt_backend := [],
                          lt_reported := Some (said_by node_id LP_Pending LR_Deprovisioned
                            (Some (node_id @ '' no longer has the bytes'')) at),
                          lt_observed_at := Some at\<rparr>\<rparr>, Tombstoned))"

record volume_state_report =
  vr_id :: string
  vr_phase :: string
  vr_message :: string
  vr_backend :: string
  vr_size_bytes :: u64
  vr_reason :: string
  vr_open :: bool

definition VOLUME_GONE :: string where "VOLUME_GONE = ''Gone''"

text \<open>\<open>u64::div_ceil\<close> by one GiB.\<close>

definition gib_of_bytes :: "u64 \<Rightarrow> u64" where
  "gib_of_bytes bytes = bytes div 1073741824 + (if bytes mod 1073741824 > 0 then 1 else 0)"

definition volume_from_node ::
  "string \<Rightarrow> (volume_phase_kind, volume_reason) said \<Rightarrow> volume_state_report \<Rightarrow> instant \<Rightarrow> volume \<Rightarrow> volume" where
  "volume_from_node node_id said reported at v =
     (if \<not> speaks_for_volume v node_id
         \<or> \<not> is_current (md_deletion_timestamp (metadata v)) (lt_observed_at (status v)) at
      then v
      else let v1 = note_open (v\<lparr>status := (status v)\<lparr>lt_reported := Some said\<rparr>\<rparr>) node_id (vr_open reported);
               t = status v1;
               t = (if vr_backend reported \<noteq> [] then t\<lparr>lt_backend := vr_backend reported\<rparr> else t);
               size_gib = gib_of_bytes (vr_size_bytes reported);
               t = (if size_gib > 0 then t\<lparr>lt_size_gib := size_gib\<rparr> else t)
           in v1\<lparr>status := t\<lparr>lt_observed_at := Some at\<rparr>\<rparr>)"

definition volume_line_is_news ::
  "string \<Rightarrow> (volume_phase_kind, volume_reason) said \<Rightarrow> volume_state_report \<Rightarrow> volume \<Rightarrow> bool" where
  "volume_line_is_news node_id said reported v \<longleftrightarrow>
     \<not> ((case lt_reported (status v) of Some was \<Rightarrow> same_word was said | None \<Rightarrow> False)
        \<and> lt_size_gib (status v) = gib_of_bytes (vr_size_bytes reported)
        \<and> (node_id \<in> set (lt_open_on (status v))) = vr_open reported
        \<and> (vr_backend reported = [] \<or> lt_backend (status v) = vr_backend reported))"

definition ingest_volume_line ::
  "('b, 'k) store \<Rightarrow> (volume_spec, volume_status, 'b) resource \<Rightarrow> string \<Rightarrow> instant \<Rightarrow> volume list \<Rightarrow>
   volume_state_report \<Rightarrow> ('b, unit) io" where
  "ingest_volume_line S Tl node_id at volumes reported =
     (case find (\<lambda>v. md_uid (metadata v) = vr_id reported) volumes of
        None \<Rightarrow> Done ()
      | Some volume \<Rightarrow>
          if \<not> speaks_for_volume volume node_id then Done ()
          else if \<not> is_current (md_deletion_timestamp (metadata volume)) (lt_observed_at (status volume)) at
          then Done ()
          else if vr_phase reported = VOLUME_GONE
          then and_then (mutate_if S Tl (md_name (metadata volume)) (vr_id reported)
                 (\<lambda>v. Done (fst (apply_gone v node_id (vr_open reported) at)))) (\<lambda>_. Done ())
          else case kind_parse volume_vocab (vr_phase reported) of
            None \<Rightarrow> Done ()
          | Some phase \<Rightarrow>
              let message = (if vr_message reported \<noteq> [] then Some (vr_message reported) else None);
                  (reason, message) = reason_read volume_vocab (vr_reason reported) message;
                  said = said_by node_id phase reason message at
              in if \<not> volume_line_is_news node_id said reported volume then Done ()
                 else and_then (mutate_if S Tl (md_name (metadata volume)) (vr_id reported)
                        (\<lambda>v. Done (volume_from_node node_id said reported at v))) (\<lambda>_. Done ()))"

fun ingest_volume_lines ::
  "('b, 'k) store \<Rightarrow> (volume_spec, volume_status, 'b) resource \<Rightarrow> string \<Rightarrow> instant \<Rightarrow> volume list \<Rightarrow>
   volume_state_report list \<Rightarrow> ('b, unit) io" where
  "ingest_volume_lines S Tl node_id at volumes [] = Done ()"
| "ingest_volume_lines S Tl node_id at volumes (reported # rest) =
     and_then (ingest_volume_line S Tl node_id at volumes reported)
       (\<lambda>_. ingest_volume_lines S Tl node_id at volumes rest)"

definition ingest_volumes ::
  "('b, 'k) store \<Rightarrow> (volume_spec, volume_status, 'b) resource \<Rightarrow> string \<Rightarrow> volume_state_report list \<Rightarrow>
   ('b, store_error + unit) io" where
  "ingest_volumes S Tl node_id reports =
     (if reports = [] then Done (Inr ())
      else and_then utc_now (\<lambda>at.
           try_then (store_list S Tl) (\<lambda>volumes.
           and_then (ingest_volume_lines S Tl node_id at volumes reports) (\<lambda>_. Done (Inr ())))))"

section \<open>What a report leaves behind\<close>

lemma stamp_new: "stamp V old (phase_new V k r m s) now = phase_new V k r m (ph_since (stamp V old (phase_new V k r m s) now))"
  by (auto simp: stamp_def Let_def phase_new_def)

text \<open>The listing after one guest of it was written.\<close>

definition written_in :: "string \<Rightarrow> ('j vm \<Rightarrow> 'j vm) \<Rightarrow> 'j vm list \<Rightarrow> 'j vm list" where
  "written_in uid w = map (\<lambda>v. if md_uid (metadata v) = uid then w v else v)"

lemma map_of_written_in:
  assumes "\<And>v. md_uid (metadata (w v)) = md_uid (metadata v)"
  shows "map_of (rev (map (\<lambda>v. (md_uid (metadata v), v)) (written_in uid w known))) uid
     = map_option w (map_of (rev (map (\<lambda>v. (md_uid (metadata v), v)) known)) uid)"
  by (induction known rule: rev_induct) (auto simp: written_in_def assms)

lemma observe_one_written:
  assumes changed: "observe_one known speaks line = Some (l, ObsChanged vm k r m)"
    and uid: "\<And>v. md_uid (metadata (w v)) = md_uid (metadata v)"
    and still: "speaks (w vm)"
    and phase: "vt_phase (status (w vm)) = phase_new vm_vocab k r m since"
  shows "observe_one (written_in (sr_id line) w known) speaks line = None"
  using observe_one_Changed [OF changed] still phase
  by (simp add: observe_one_def map_of_written_in [OF uid])

lemma settle_vm_said:
  assumes "vt_silence t = None" and "vt_reported t = Some (said_by n k r m at)" and "n \<noteq> []"
    and "vm_claimed s t" and "\<not> stale_holder s t"
  shows "settle_vm f s t = phase_new vm_vocab k r m UNSTAMPED"
  using assms by (simp add: settle_vm_def said_phase_def said_by_def Let_def)

lemma vm_settle_said:
  assumes "vt_silence (status v) = None" and "vt_reported (status v) = Some (said_by n k r m at)" and "n \<noteq> []"
    and "vm_claimed (spec v) (status v)" and "\<not> stale_holder (spec v) (status v)"
  shows "\<exists>since. vt_phase (status (vm_settle f now v)) = phase_new vm_vocab k r m since"
  using stamp_new [of vm_vocab "vt_phase (status v)" k r m UNSTAMPED now]
  by (auto simp: vm_settle_def settle_vm_said [OF assms])

lemma from_node_settles:
  assumes "vs_node_name (spec v) = Some n" "vs_cluster_name (spec v) = None" "n \<noteq> []"
  shows "\<exists>since. vt_phase (status (vm_settle f now (phase_from_node n k r m at v))) = phase_new vm_vocab k r m since"
  by (rule vm_settle_said [of _ n])
     (use assms in \<open>simp_all add: phase_from_node_def ours_node_def vm_claimed_def stale_holder_def said_by_def\<close>)

lemma from_cluster_settles:
  assumes "vs_cluster_name (spec v) = Some n" "vs_node_name (spec v) = None" "n \<noteq> []"
  shows "\<exists>since. vt_phase (status (vm_settle f now (phase_from_cluster n k r m at v))) = phase_new vm_vocab k r m since"
  by (rule vm_settle_said [of _ n])
     (use assms in \<open>simp_all add: phase_from_cluster_def ours_cluster_def vm_claimed_def stale_holder_def said_by_def\<close>)

lemma written_keeps [simp]:
  "metadata (vm_settle f now v) = metadata v" "spec (vm_settle f now v) = spec v"
  "metadata (phase_from_node n k r m at v) = metadata v" "spec (phase_from_node n k r m at v) = spec v"
  "metadata (phase_from_cluster n k r m at v) = metadata v" "spec (phase_from_cluster n k r m at v) = spec v"
  by (simp_all add: vm_settle_def phase_from_node_def phase_from_cluster_def)

lemma ours_keeps [simp]:
  "ours_node n (vm_settle f now (phase_from_node n k r m at v)) = ours_node n v"
  "ours_cluster n (vm_settle f now (phase_from_cluster n k r m at v)) = ours_cluster n v"
  by (simp_all add: ours_node_def ours_cluster_def)

definition sample_bound :: "json vm" where
  "sample_bound = (let v = sample_vm ''a'' 2 3000 in v\<lparr>spec := (spec v)\<lparr>vs_node_name := Some ''n1''\<rparr>\<rparr>)"

definition sample_line :: "string \<Rightarrow> vm_status_report" where
  "sample_line phase =
     \<lparr>sr_id = ''uid-a'', sr_phase = phase, sr_message = [], sr_attached_volumes = [], sr_node = [],
      sr_volumes = [], sr_reason = [], sr_nics = []\<rparr>"

definition dec_rfc :: "instant \<Rightarrow> string" where "dec_rfc t = int_display t"

lemma sample_line_seen:
  "observe_one [sample_bound] (ours_node ''n1'') (sample_line ''Running'')
     = Some (sample_line ''Running'', ObsChanged sample_bound VP_Running VR_Unrecorded None)"
  by code_simp

text \<open>C18: A report that was mirrored is silent the next time. At either tier, once a line a peer
  reported has been written onto the guest bound to that peer and the phase derived from it, the
  same line in the next report is no change: a heartbeat that repeats itself costs no write and
  wakes no watcher. At the cluster the guest names a node and no cluster, at the cloud a cluster
  and no node.\<close>

theorem mirrored_report_is_silent:
  assumes peer: "n \<noteq> []"
  shows "(observe_one known (ours_node n) line = Some (l, ObsChanged vm k r m) \<and>
          vs_node_name (spec vm) = Some n \<and> vs_cluster_name (spec vm) = None \<longrightarrow>
          observe_one (written_in (sr_id line) (vm_settle f now \<circ> phase_from_node n k r m at) known)
            (ours_node n) line = None)
       \<and> (observe_one known (ours_cluster n) line = Some (l, ObsChanged vm k r m) \<and>
          vs_node_name (spec vm) = None \<longrightarrow>
          observe_one (written_in (sr_id line) (vm_settle f now \<circ> phase_from_cluster n k r m at) known)
            (ours_cluster n) line = None)"
proof (intro conjI impI; elim conjE)
  assume c: "observe_one known (ours_node n) line = Some (l, ObsChanged vm k r m)"
    and b: "vs_node_name (spec vm) = Some n" "vs_cluster_name (spec vm) = None"
  obtain since where "vt_phase (status (vm_settle f now (phase_from_node n k r m at vm))) = phase_new vm_vocab k r m since"
    using from_node_settles [OF b peer] by blast
  thus "observe_one (written_in (sr_id line) (vm_settle f now \<circ> phase_from_node n k r m at) known) (ours_node n) line = None"
    using observe_one_Changed [OF c] by (intro observe_one_written [OF c]) simp_all
next
  assume c: "observe_one known (ours_cluster n) line = Some (l, ObsChanged vm k r m)"
    and b: "vs_node_name (spec vm) = None"
  have bound: "vs_cluster_name (spec vm) = Some n" using observe_one_Changed [OF c] by (simp add: ours_cluster_def)
  obtain since where "vt_phase (status (vm_settle f now (phase_from_cluster n k r m at vm))) = phase_new vm_vocab k r m since"
    using from_cluster_settles [OF bound b peer] by blast
  thus "observe_one (written_in (sr_id line) (vm_settle f now \<circ> phase_from_cluster n k r m at) known) (ours_cluster n) line = None"
    using observe_one_Changed [OF c] by (intro observe_one_written [OF c]) simp_all
qed

theorem mirrored_report_is_silent_witness:
  "observe_one [sample_bound] (ours_node ''n1'') (sample_line ''Running'')
     = Some (sample_line ''Running'', ObsChanged sample_bound VP_Running VR_Unrecorded None) \<and>
   observe_one (written_in ''uid-a'' (vm_settle dec_rfc 2000 \<circ> phase_from_node ''n1'' VP_Running VR_Unrecorded None 1500)
       [sample_bound]) (ours_node ''n1'') (sample_line ''Running'') = None"
proof -
  have "vs_node_name (spec sample_bound) = Some ''n1'' \<and> vs_cluster_name (spec sample_bound) = None"
    by (simp add: sample_bound_def sample_defs Let_def)
  then show ?thesis
    using mirrored_report_is_silent [of "''n1''" "[sample_bound]" "sample_line ''Running''" "sample_line ''Running''"
        sample_bound VP_Running VR_Unrecorded None dec_rfc 2000 1500] sample_line_seen
    by (simp add: sample_line_def)
qed

end
