(* ===== verification/Volume_Claims.thy ===== *)
theory Volume_Claims
  imports Status_Ingest Placement_Program
begin

text \<open>
  Which guest holds which volume: the claim taken before a node is told to open a disk
  (\<open>hold_volumes\<close> and what it calls in \<open>cluster-controller/src/reconcile/vms.rs\<close>), the claim let go
  (\<open>release_named_volumes\<close>, \<open>note_claimant\<close> in \<open>reconcile/volumes.rs\<close>) and what a pass does about a
  volume (\<open>next_for\<close>, \<open>release_action\<close>, \<open>place_volume\<close>). An \<open>anyhow\<close> error is the text it prints.
\<close>

record ('j, 'b) storage_types =
  sy_volume :: "(volume_spec, volume_status, 'b) resource"
  sy_pool :: "('j storage_pool_spec, 'j storage_pool_status, 'b) resource"
  sy_snapshot :: "(volume_snapshot_spec, volume_snapshot_status, 'b) resource"
  sy_migration :: "(vm_migration_spec, vm_migration_status, 'b) resource"

abbreviation shown :: "store_error + 'a \<Rightarrow> string + 'a" where
  "shown \<equiv> map_sum store_error_display id"

section \<open>Migrations that permit a second open\<close>

definition phase_for :: "(vm_migration_spec, vm_migration_status) object list \<Rightarrow> 'j vm \<Rightarrow> vm_migration_phase_kind option" where
  "phase_for migrations vm =
     find (\<lambda>p. second_open_is_a_migration (Some p))
       (map (\<lambda>m. ph_kind (mt_phase (status m)))
          (filter (\<lambda>m. ms_vm (spec m) = md_name (metadata vm) \<and> same_tenancy (ms_tenant (spec m)) (vs_tenant (spec vm)))
             migrations))"

definition migration_in_flight ::
  "('b, 'j) store \<Rightarrow> ('j, 'b) storage_types \<Rightarrow> 'j vm \<Rightarrow> ('b, string + bool) io" where
  "migration_in_flight S Y vm =
     and_then (store_list S (sy_migration Y)) (\<lambda>r.
       case r of
         Inr migrations \<Rightarrow> Done (Inr (phase_for migrations vm \<noteq> None))
       | Inl (NotFound _) \<Rightarrow> Done (Inr (phase_for [] vm \<noteq> None))
       | Inl e \<Rightarrow> Done (Inl (store_error_display e)))"

section \<open>Taking the claim\<close>

definition follow_vm :: "string \<Rightarrow> string \<Rightarrow> instant \<Rightarrow> volume \<Rightarrow> volume" where
  "follow_vm vm node now v =
     v\<lparr>status := (status v)
        \<lparr>lt_node := Some node,
         lt_reported := Some (said_here LP_Pending LR_Following (Some (''following '' @ vm @ '' to '' @ node)) now)\<rparr>\<rparr>"

definition may_carry :: "volume_status \<Rightarrow> 'j vm \<Rightarrow> bool" where
  "may_carry t vm \<longleftrightarrow> lt_attached_to t = None \<or> claimed_by t (md_uid (metadata vm))"

definition carry_record ::
  "('b, 'j) store \<Rightarrow> ('j, 'b) storage_types \<Rightarrow> 'j vm \<Rightarrow> volume \<Rightarrow> (volume \<Rightarrow> ('b, volume) io) \<Rightarrow>
   ('b, string + volume) io" where
  "carry_record S Y vm volume re_point =
     (let name = md_name (metadata volume)
      in and_then (mutate_noting S (sy_volume Y) name (md_uid (metadata volume)) (\<lambda>v.
           let carried = may_carry (status v) vm
           in and_then (if carried then re_point v else Done v) (\<lambda>v'. Done (carried, v'))) False)
         (\<lambda>(carried, moved). case moved of
              Inl e \<Rightarrow> Done (Inl (store_error_display e))
            | Inr v \<Rightarrow> if carried then Done (Inr v)
                       else Done (Inl (''volume '' @ name @ '' was claimed while its record was being moved''))))"

definition note_vm_held ::
  "('b, 'j) store \<Rightarrow> ('j, 'b) placement_types \<Rightarrow> 'j vm \<Rightarrow> string \<Rightarrow> string \<Rightarrow> ('b, string + unit) io" where
  "note_vm_held S P vm volume holder =
     (let said = ''volume '' @ volume @ '' is still held by '' @ holder
      in if (case vt_placement (status vm) of Some pl \<Rightarrow> vp_message pl = said | None \<Rightarrow> False) then Done (Inr ())
         else and_then (mutate_if S (pt_vm P) (md_name (metadata vm)) (md_uid (metadata vm)) (\<lambda>v.
                and_then utc_now (\<lambda>now. Done (v\<lparr>status := (status v)
                  \<lparr>vt_placement := Some \<lparr>vp_reason = VR_VolumeHeld, vp_message = said, vp_at = now\<rparr>\<rparr>\<rparr>))))
                (\<lambda>r. Done (map_sum store_error_display (\<lambda>_. ()) r)))"

definition wait_for_holder ::
  "('b, 'j) store \<Rightarrow> ('j, 'b) placement_types \<Rightarrow> 'j vm \<Rightarrow> string \<Rightarrow> string \<Rightarrow> ('b, string + unit) io" where
  "wait_for_holder S P vm volume holder =
     try_then (note_vm_held S P vm volume holder) (\<lambda>_.
       Done (Inl (''volume '' @ volume @ '' is held by '' @ holder)))"

definition home_elsewhere :: "volume \<Rightarrow> string \<Rightarrow> bool" where
  "home_elsewhere v node = (case lt_node (status v) of Some n \<Rightarrow> n \<noteq> node | None \<Rightarrow> False)"

definition with_claim :: "'j vm \<Rightarrow> volume \<Rightarrow> volume" where
  "with_claim vm v =
     v\<lparr>status := (status v)
        \<lparr>lt_attached_to := Some (md_name (metadata vm)), lt_attached_uid := Some (md_uid (metadata vm)),
         lt_claimant_gone := False\<rparr>\<rparr>"

text \<open>The record goes to the node that has the disk open already; where the pool is shared or
  networked it follows the guest, and the pass stops there until the disk is open again.\<close>

definition move_record ::
  "('b, 'j) store \<Rightarrow> ('j, 'b) storage_types \<Rightarrow> 'j vm \<Rightarrow> string \<Rightarrow> string \<Rightarrow> volume \<Rightarrow> ('b, string + volume) io" where
  "move_record S Y vm node name volume =
     try_then (if home_elsewhere volume node \<and> node \<in> set (lt_open_on (status volume))
               then carry_record S Y vm volume (\<lambda>v. Done (v\<lparr>status := (status v)\<lparr>lt_node := Some node\<rparr>\<rparr>))
               else Done (Inr volume)) (\<lambda>volume.
     if home_elsewhere volume node
     then and_then (store_get S (sy_pool Y) (ls_pool (spec volume))) (\<lambda>got.
            let follow = (\<lambda>locality.
                  if locality \<in> {Some Shared, Some Networked}
                  then try_then (carry_record S Y vm volume (\<lambda>v.
                         and_then utc_now (\<lambda>now. Done (follow_vm (md_name (metadata vm)) node now v)))) (\<lambda>_.
                       Done (Inl (''volume '' @ name @ '' is being re-opened on '' @ node)))
                  else Done (Inr volume))
            in case got of
                 Inr pool \<Rightarrow> follow (pt_locality (status pool))
               | Inl (NotFound _) \<Rightarrow> follow None
               | Inl e \<Rightarrow> Done (Inl (store_error_display e)))
     else Done (Inr volume))"

definition claim_volume ::
  "('b, 'j) store \<Rightarrow> ('j, 'b) placement_types \<Rightarrow> ('j, 'b) storage_types \<Rightarrow> bool \<Rightarrow> 'j vm \<Rightarrow> string \<Rightarrow> string \<Rightarrow> volume \<Rightarrow>
   ('b, string + unit) io" where
  "claim_volume S P Y migrating vm node name volume =
     (if ph_kind (lt_phase (status volume)) \<noteq> LP_Ready
      then Done (Inl (''volume '' @ name @ '' is '' @ volume_phase_kind_str (ph_kind (lt_phase (status volume))) @
             '' on '' @ node @ ''; the vm waits for it''))
      else case lt_attached_to (status volume) of
             Some holder \<Rightarrow>
               if claimed_by (status volume) (md_uid (metadata vm)) then Done (Inr ())
               else wait_for_holder S P vm name holder
           | None \<Rightarrow>
               (case (open_elsewhere (status volume) node, migrating) of
                  (Some other, False) \<Rightarrow>
                    Done (Inl (''volume '' @ name @ '' is still open on node '' @ other @
                      ''; only a live migration may have it open on two''))
                | _ \<Rightarrow>
                    and_then (update S (sy_volume Y) (with_claim vm volume)) (\<lambda>r.
                      case r of
                        Inr _ \<Rightarrow> Done (Inr ())
                      | Inl (Conflict _) \<Rightarrow> Done (Inl (''volume '' @ name @ '' changed while it was being attached''))
                      | Inl e \<Rightarrow> Done (Inl (store_error_display e)))))"

fun hold_each ::
  "('b, 'j) store \<Rightarrow> ('j, 'b) placement_types \<Rightarrow> ('j, 'b) storage_types \<Rightarrow> bool \<Rightarrow> 'j vm \<Rightarrow> string \<Rightarrow> string list \<Rightarrow>
   ('b, string + unit) io" where
  "hold_each S P Y migrating vm node [] = Done (Inr ())"
| "hold_each S P Y migrating vm node (name # names) =
     and_then (store_get S (sy_volume Y) name) (\<lambda>got.
       case got of
         Inl e \<Rightarrow> Done (Inl (store_error_display e))
       | Inr volume \<Rightarrow>
           if \<not> may_carry (status volume) vm
           then wait_for_holder S P vm name (unwrap_or [] (lt_attached_to (status volume)))
           else try_then (move_record S Y vm node name volume) (\<lambda>volume.
                try_then (claim_volume S P Y migrating vm node name volume) (\<lambda>_.
                hold_each S P Y migrating vm node names)))"

definition hold_volumes ::
  "('b, 'j) store \<Rightarrow> ('j, 'b) placement_types \<Rightarrow> ('j, 'b) storage_types \<Rightarrow> 'j vm \<Rightarrow> string \<Rightarrow> ('b, string + unit) io" where
  "hold_volumes S P Y vm node =
     try_then (migration_in_flight S Y vm) (\<lambda>migrating.
       hold_each S P Y migrating vm node (referenced_volumes (st_json S) (spec vm)))"

section \<open>Letting it go\<close>

definition claimant_left :: "'j vm \<Rightarrow> volume \<Rightarrow> volume" where
  "claimant_left vm v =
     (if held_by (status v) (md_name (metadata vm)) (md_uid (metadata vm))
      then v\<lparr>status := (status v)\<lparr>lt_claimant_gone := True\<rparr>\<rparr> else v)"

fun release_named_volumes ::
  "('b, 'j) store \<Rightarrow> ('j, 'b) storage_types \<Rightarrow> 'j vm \<Rightarrow> string list \<Rightarrow> ('b, unit) io" where
  "release_named_volumes S Y vm [] = Done ()"
| "release_named_volumes S Y vm (name # names) =
     and_then (mutate S (sy_volume Y) name (claimant_left vm)) (\<lambda>_. release_named_volumes S Y vm names)"

definition release_volumes ::
  "('b, 'j) store \<Rightarrow> ('j, 'b) storage_types \<Rightarrow> 'j vm \<Rightarrow> ('b, unit) io" where
  "release_volumes S Y vm = release_named_volumes S Y vm (referenced_volumes (st_json S) (spec vm))"

record claimant_verdict =
  cv_gone :: bool
  cv_bind :: "string option"

definition claimant_verdict_of :: "'j json_ops \<Rightarrow> volume \<Rightarrow> 'j vm list \<Rightarrow> claimant_verdict" where
  "claimant_verdict_of J volume vms =
     (let claims = (\<lambda>vm. md_deletion_timestamp (metadata vm) = None
             \<and> md_name (metadata volume) \<in> set (referenced_volumes J (spec vm)))
      in case lt_attached_uid (status volume) of
           Some uid \<Rightarrow> \<lparr>cv_gone = (\<forall>vm \<in> set (filter claims vms). md_uid (metadata vm) \<noteq> uid), cv_bind = None\<rparr>
         | None \<Rightarrow>
             if lt_claimant_gone (status volume) then \<lparr>cv_gone = True, cv_bind = None\<rparr>
             else let named = find (\<lambda>vm. Some (md_name (metadata vm)) = lt_attached_to (status volume)) (filter claims vms)
                  in \<lparr>cv_gone = (named = None), cv_bind = map_option (\<lambda>vm. md_uid (metadata vm)) named\<rparr>)"

definition claimant_judged :: "string option \<times> string option \<Rightarrow> claimant_verdict \<Rightarrow> volume \<Rightarrow> volume" where
  "claimant_judged was verdict v =
     (if (lt_attached_to (status v), lt_attached_uid (status v)) \<noteq> was then v
      else let t = (status v)\<lparr>lt_claimant_gone := cv_gone verdict\<rparr>
           in v\<lparr>status := (case cv_bind verdict of Some uid \<Rightarrow> t\<lparr>lt_attached_uid := Some uid\<rparr> | None \<Rightarrow> t)\<rparr>)"

definition note_claimant ::
  "('b, 'j) store \<Rightarrow> ('j, 'b) storage_types \<Rightarrow> volume \<Rightarrow> 'j vm list \<Rightarrow> ('b, string + unit) io" where
  "note_claimant S Y volume vms =
     (case lt_attached_to (status volume) of
        None \<Rightarrow> Done (Inr ())
      | Some holder \<Rightarrow>
          let verdict = claimant_verdict_of (st_json S) volume vms
          in if lt_claimant_gone (status volume) = cv_gone verdict \<and> cv_bind verdict = None then Done (Inr ())
             else and_then (mutate_if S (sy_volume Y) (md_name (metadata volume)) (md_uid (metadata volume))
                    (\<lambda>v. Done (claimant_judged (lt_attached_to (status volume), lt_attached_uid (status volume)) verdict v)))
                    (\<lambda>r. Done (map_sum store_error_display (\<lambda>_. ()) r)))"

end
