(* ===== verification/Volume_Pass.thy ===== *)
theory Volume_Pass
  imports Volume_Claims Volume_Placement
begin

text \<open>
  What a cluster's pass does about a volume and its pool: \<open>cluster-controller/src/reconcile/volumes.rs\<close>.
  The command to a node is a parameter, a program that answers whether the node took it; so is the
  return of an imported namespace's claim. Log lines and tallies are left out.
\<close>

section \<open>Pools\<close>

datatype pool_verdict = PoolAgreed locality | PoolUnheard | PoolSplit string locality string locality

type_synonym node_localities = "(string, (string, locality) bmap) bmap"

fun pool_heard ::
  "'j storage_pool \<Rightarrow> (string \<times> locality) option \<Rightarrow> node_localities \<Rightarrow> pool_verdict" where
  "pool_heard pool heard [] = (case heard of Some (_, l) \<Rightarrow> PoolAgreed l | None \<Rightarrow> PoolUnheard)"
| "pool_heard pool heard ((node, by_driver) # rest) =
     (if \<not> pool_reaches (spec pool) node then pool_heard pool heard rest
      else case map_of by_driver (ps_driver (spec pool)) of
             None \<Rightarrow> pool_heard pool heard rest
           | Some says \<Rightarrow>
               (case heard of
                  None \<Rightarrow> pool_heard pool (Some (node, says)) rest
                | Some (other, other_says) \<Rightarrow>
                    if other_says = says then pool_heard pool heard rest
                    else PoolSplit node says other other_says))"

definition pool_locality :: "'j storage_pool \<Rightarrow> node_localities \<Rightarrow> pool_verdict" where
  "pool_locality pool localities = pool_heard pool None localities"

fun pool_facts :: "pool_verdict \<Rightarrow> locality option \<Rightarrow> locality option \<times> pool_disagreement option" where
  "pool_facts (PoolAgreed l) previous = (Some l, None)"
| "pool_facts PoolUnheard previous = (None, None)"
| "pool_facts (PoolSplit node says other other_says) previous =
     (previous, Some \<lparr>pd_node = node, pd_says = says, pd_other = other, pd_other_says = other_says\<rparr>)"

definition write_pool_status ::
  "('b, 'j) store \<Rightarrow> ('j, 'b) storage_types \<Rightarrow> 'j storage_pool \<Rightarrow> pool_verdict \<Rightarrow> ('b, string + unit) io" where
  "write_pool_status S Y pool verdict =
     (let (locality, disagreement) = pool_facts verdict (pt_locality (status pool))
      in if pt_locality (status pool) = locality \<and> pt_disagreement (status pool) = disagreement
         then Done (Inr ())
         else and_then (mutate_if S (sy_pool Y) (md_name (metadata pool)) (md_uid (metadata pool)) (\<lambda>p.
                Done (p\<lparr>status := (status p)\<lparr>pt_locality := locality, pt_disagreement := disagreement\<rparr>\<rparr>)))
                (\<lambda>r. Done (map_sum store_error_display (\<lambda>_. ()) r)))"

section \<open>What is next for a volume\<close>

datatype volume_next =
    NextPlace | NextProvision string | NextRequeue string | NextResize string | NextSettled

definition grew :: "volume \<Rightarrow> bool" where
  "grew v \<longleftrightarrow> lt_size_gib (status v) > 0 \<and> lt_size_gib (status v) < ls_size_gib (spec v)"

definition next_for :: "volume \<Rightarrow> volume_next" where
  "next_for v =
     (case lt_node (status v) of
        None \<Rightarrow> NextPlace
      | Some node \<Rightarrow>
          (case ph_kind (lt_phase (status v)) of
             LP_Pending \<Rightarrow> NextProvision node
           | LP_Failed \<Rightarrow> NextRequeue node
           | LP_Ready \<Rightarrow> if grew v \<or> lt_untold_gib (status v) > 0 then NextResize node else NextSettled
           | _ \<Rightarrow> NextSettled))"

definition guest_not_told :: "u64 \<Rightarrow> string \<Rightarrow> string" where
  "guest_not_told size_gib error =
     ''backend grew to '' @ dec (unat size_gib) @ '' GiB; the guest was not told: '' @ error @
     ''; retry resizes only the notification''"

definition note_on_volume :: "string option \<Rightarrow> volume \<Rightarrow> volume" where
  "note_on_volume message v =
     (case lt_reported (status v) of
        None \<Rightarrow> v
      | Some said \<Rightarrow> v\<lparr>status := (status v)\<lparr>lt_reported := Some (said\<lparr>sa_message := message\<rparr>)\<rparr>\<rparr>)"

definition note_pending_volume ::
  "('b, 'j) store \<Rightarrow> ('j, 'b) storage_types \<Rightarrow> volume \<Rightarrow> string \<Rightarrow> ('b, string + unit) io" where
  "note_pending_volume S Y volume reason =
     (if phase_message (lt_phase (status volume)) = Some reason then Done (Inr ())
      else and_then (mutate_if S (sy_volume Y) (md_name (metadata volume)) (md_uid (metadata volume)) (\<lambda>v.
             and_then utc_now (\<lambda>now. Done (v\<lparr>status := (status v)
               \<lparr>lt_reported := Some (said_here LP_Pending LR_Unplaced (Some reason) now)\<rparr>\<rparr>))))
             (\<lambda>r. Done (map_sum store_error_display (\<lambda>_. ()) r)))"

definition home_chosen :: "string \<Rightarrow> volume \<Rightarrow> volume" where
  "home_chosen node v = v\<lparr>status := (status v)\<lparr>lt_node := Some node, lt_reported := None\<rparr>\<rparr>"

definition place_volume ::
  "('b, 'j) store \<Rightarrow> ('j, 'b) storage_types \<Rightarrow> candidate list \<Rightarrow> 'j storage_pool list \<Rightarrow> volume \<Rightarrow>
   ('b, string + unit) io" where
  "place_volume S Y nodes pools volume =
     (case find (\<lambda>p. md_name (metadata p) = ls_pool (spec volume)) pools of
        None \<Rightarrow> note_pending_volume S Y volume
          (''storage pool '' @ str_debug (ls_pool (spec volume)) @ '' does not exist here; the volume cannot be placed'')
      | Some pool \<Rightarrow>
          let policy = storage_policy_of pool
          in (case feasible_for_storage policy nodes of
                [] \<Rightarrow> note_pending_volume S Y volume
                        (snd (storage_pending_reason policy (md_name (metadata pool)) nodes))
              | node # _ \<Rightarrow>
                  and_then (update S (sy_volume Y) (home_chosen (c_name node) volume)) (\<lambda>r.
                    case r of
                      Inr _ \<Rightarrow> Done (Inr ())
                    | Inl (Conflict _) \<Rightarrow> Done (Inr ())
                    | Inl e \<Rightarrow> Done (Inl (store_error_display e)))))"

section \<open>Letting a volume go\<close>

datatype volume_holder = HeldByVm string | HeldBySnapshot string

fun holder_sentence :: "volume_holder \<Rightarrow> string" where
  "holder_sentence (HeldByVm vm) = ''held by '' @ vm @ ''; delete the vm first, or wait''"
| "holder_sentence (HeldBySnapshot s) = ''held by snapshot '' @ s @ ''; delete the snapshot first, or wait''"

datatype volume_release = ReleaseHeldBy volume_holder | ReleaseWaitingForNode string | ReleaseDrop

definition release_action :: "volume \<Rightarrow> string list \<Rightarrow> volume_release" where
  "release_action v snapshots =
     (case lt_attached_to (status v) of
        Some vm \<Rightarrow> ReleaseHeldBy (HeldByVm vm)
      | None \<Rightarrow>
          (case snapshots of
             s # _ \<Rightarrow> ReleaseHeldBy (HeldBySnapshot s)
           | [] \<Rightarrow>
               (case lt_node (status v) of
                  Some node \<Rightarrow> ReleaseWaitingForNode node
                | None \<Rightarrow> ReleaseDrop)))"

definition snapshots_holding :: "(volume_snapshot_spec, volume_snapshot_status) object list \<Rightarrow> string \<Rightarrow> string list" where
  "snapshots_holding snapshots volume =
     map (\<lambda>s. md_name (metadata s))
       (filter (\<lambda>s. nss_volume (spec s) = volume \<and> md_deletion_timestamp (metadata s) = None) snapshots)"

definition note_volume_releasing ::
  "('b, 'j) store \<Rightarrow> ('j, 'b) storage_types \<Rightarrow> volume \<Rightarrow> string \<Rightarrow> ('b, string + unit) io" where
  "note_volume_releasing S Y volume reason =
     (if lt_holder (status volume) = Some reason then Done (Inr ())
      else and_then (mutate_if S (sy_volume Y) (md_name (metadata volume)) (md_uid (metadata volume))
             (\<lambda>v. Done (v\<lparr>status := (status v)\<lparr>lt_holder := Some reason\<rparr>\<rparr>)))
             (\<lambda>r. Done (map_sum store_error_display (\<lambda>_. ()) r)))"

definition deprovision_volume ::
  "('b, 'j) store \<Rightarrow> ('j, 'b) storage_types \<Rightarrow> (string \<Rightarrow> string \<Rightarrow> ('b, string + unit) io) \<Rightarrow> candidate list \<Rightarrow> volume \<Rightarrow>
   string \<Rightarrow> ('b, string + unit) io" where
  "deprovision_volume S Y deprovision nodes volume node =
     (if \<not> (\<exists>c \<in> set nodes. c_name c = node \<and> c_connected c)
      then note_volume_releasing S Y volume
             (''node '' @ node @ '' unreachable; the data is there until it returns'')
      else and_then (deprovision node (md_uid (metadata volume))) (\<lambda>outcome.
             case outcome of
               Inl e \<Rightarrow> note_volume_releasing S Y volume e
             | Inr _ \<Rightarrow> Done (Inr ())))"

definition drops_volume :: "string list \<Rightarrow> volume \<Rightarrow> bool" where
  "drops_volume snapshots v \<longleftrightarrow>
     md_deletion_timestamp (metadata v) \<noteq> None \<and> release_action v snapshots = ReleaseDrop"

definition drop_volume ::
  "('b, 'j) store \<Rightarrow> ('j, 'b) storage_types \<Rightarrow> (volume \<Rightarrow> ('b, unit) io) \<Rightarrow> volume \<Rightarrow> string list \<Rightarrow>
   ('b, string + unit) io" where
  "drop_volume S Y give_back volume snapshots =
     and_then (take_finalizer S (sy_volume Y) volume VOLUME_RELEASE_FINALIZER (drops_volume snapshots)) (\<lambda>taken.
       case taken of
         Inl e \<Rightarrow> Done (Inl (store_error_display e))
       | Inr None \<Rightarrow> Done (Inr ())
       | Inr (Some taken_off) \<Rightarrow>
           and_then (give_back volume) (\<lambda>_.
           and_then (finish_release S (sy_volume Y) taken_off VOLUME_RELEASE_FINALIZER (drops_volume snapshots))
             (\<lambda>r. Done (map_sum store_error_display (\<lambda>_. ()) r))))"

definition release_volume ::
  "('b, 'j) store \<Rightarrow> ('j, 'b) storage_types \<Rightarrow> (string \<Rightarrow> string \<Rightarrow> ('b, string + unit) io) \<Rightarrow>
   (volume \<Rightarrow> ('b, unit) io) \<Rightarrow> candidate list \<Rightarrow> volume \<Rightarrow> ('b, string + unit) io" where
  "release_volume S Y deprovision give_back nodes volume =
     and_then (store_list S (sy_snapshot Y)) (\<lambda>listed.
       case listed of
         Inl e \<Rightarrow> Done (Inl (store_error_display e))
       | Inr all \<Rightarrow>
           let snapshots = snapshots_holding all (md_name (metadata volume))
           in (case release_action volume snapshots of
                 ReleaseHeldBy holder \<Rightarrow> note_volume_releasing S Y volume (holder_sentence holder)
               | ReleaseWaitingForNode node \<Rightarrow> deprovision_volume S Y deprovision nodes volume node
               | ReleaseDrop \<Rightarrow> drop_volume S Y give_back volume snapshots))"

section \<open>A disk changes hands only when it is closed\<close>

text \<open>Every write of a volume by the cluster: the closure or the edited copy of the code, applied to the
  object that stands (a compare-and-swap admits no other), and settled. The claimant pass judges a
  copy and a listing that may be old. The writes that touch neither the claim nor the list of nodes
  that have the disk open (provisioning, growth, the API's edits) are one rule.\<close>

inductive volume_edit :: "'j json_ops \<Rightarrow> volume \<Rightarrow> volume \<Rightarrow> bool" for J :: "'j json_ops" where
  edit_claim: "lt_attached_to (status v) = None \<Longrightarrow> open_elsewhere (status v) node = None \<or> migrating \<Longrightarrow>
     volume_edit J v (with_claim (vm :: 'j vm) v)"
| edit_left: "volume_edit J v (claimant_left (vm :: 'j vm) v)"
| edit_judged: "volume_edit J v (claimant_judged (lt_attached_to (status seen), lt_attached_uid (status seen))
     (claimant_verdict_of J seen vms) v)"
| edit_report: "volume_edit J v (volume_from_node node said reported at v)"
| edit_gone: "volume_edit J v (fst (apply_gone v node open1 at))"
| edit_home: "may_carry (status v) (vm :: 'j vm) \<Longrightarrow>
     volume_edit J v (v\<lparr>status := (status v)\<lparr>lt_node := Some node\<rparr>\<rparr>)"
| edit_follow: "may_carry (status v) (vm :: 'j vm) \<Longrightarrow> volume_edit J v (follow_vm name node now v)"
| edit_placed: "volume_edit J v (home_chosen node v)"
| edit_pending: "volume_edit J v (v\<lparr>status := (status v)
     \<lparr>lt_reported := Some (said_here LP_Pending LR_Unplaced (Some reason) now)\<rparr>\<rparr>)"
| edit_noted: "volume_edit J v (note_on_volume message v)"
| edit_releasing: "volume_edit J v (v\<lparr>status := (status v)\<lparr>lt_holder := Some reason\<rparr>\<rparr>)"
| edit_unfinal: "volume_edit J v (without_finalizer fin v)"
| edit_elsewhere: "lt_attached_to (status v') = lt_attached_to (status v) \<Longrightarrow>
     lt_attached_uid (status v') = lt_attached_uid (status v) \<Longrightarrow>
     lt_claimant_gone (status v') = lt_claimant_gone (status v) \<Longrightarrow>
     lt_open_on (status v') = lt_open_on (status v) \<Longrightarrow> volume_edit J v v'"

inductive volume_write :: "'j json_ops \<Rightarrow> volume \<Rightarrow> volume \<Rightarrow> bool" for J :: "'j json_ops" where
  "volume_edit J v v' \<Longrightarrow> volume_write J v (volume_settle now v')"

abbreviation volume_run where "volume_run J \<equiv> (volume_write J)\<^sup>*\<^sup>*"

abbreviation claim_of :: "volume \<Rightarrow> string option \<times> string option" where
  "claim_of v \<equiv> (lt_attached_to (status v), lt_attached_uid (status v))"

definition let_go :: "volume \<Rightarrow> bool" where
  "let_go v \<longleftrightarrow> lt_attached_to (status v) = None \<and> lt_open_on (status v) = []"

lemma judged_bind:
  "cv_bind (claimant_verdict_of J seen vms) \<noteq> None \<Longrightarrow> lt_attached_uid (status seen) = None"
  by (auto simp: claimant_verdict_of_def Let_def split: option.splits if_splits)

lemma note_open_claim [simp]:
  "lt_attached_to (status (note_open v n b)) = lt_attached_to (status v)"
  "lt_attached_uid (status (note_open v n b)) = lt_attached_uid (status v)"
  by (simp_all add: note_open_def open_here_def closed_here_def split: sum.splits)

lemma edit_keeps_claim:
  assumes "volume_edit J v v'" "lt_attached_to (status v) = Some h" "lt_attached_uid (status v) = Some u"
  shows "claim_of v' = claim_of v"
  using assms
proof cases
  case (edit_judged seen vms)
  then show ?thesis using assms(2,3) judged_bind [of J seen vms]
    by (auto simp: claimant_judged_def Let_def split: option.splits)
next
  case (edit_report node said reported at)
  then show ?thesis by (auto simp: volume_from_node_def Let_def)
next
  case (edit_gone node open1 at)
  then show ?thesis by (auto simp: apply_gone_def Let_def)
qed (auto simp: claimant_left_def follow_vm_def home_chosen_def note_on_volume_def without_finalizer_def split: option.splits)

lemma settle_claim:
  "claim_of (volume_settle now v) = claim_of v \<or> let_go (volume_settle now v)"
  by (auto simp: volume_settle_def Let_def let_go_def volume_claim_holds_iff)

lemma write_keeps_claim:
  assumes "volume_write J v v'" "claimed_by (status v) u"
  shows "claimed_by (status v') u \<or> let_go v'"
  using assms(1)
proof cases
  case (1 w now)
  obtain h where h: "lt_attached_to (status v) = Some h" "lt_attached_uid (status v) = Some u"
    using assms(2) by (auto simp: claimed_by_def)
  have "claim_of w = claim_of v" by (rule edit_keeps_claim [OF 1(2) h])
  then show ?thesis using settle_claim [of now w] h 1(1) by (auto simp: claimed_by_def)
qed

subsection \<open>A disk that goes from one guest to another\<close>

definition sample_volume :: volume where
  "sample_volume =
     new_volume ''disk''
       \<lparr>ls_tenant = ''t'', ls_pool = ''p'', ls_size_gib = 1, ls_mode = VolFilesystem, ls_access_mode = ReadWriteOnce,
        ls_base_image = None, ls_from_snapshot = None, ls_description = []\<rparr> ''uid-disk'' 1000"

definition disk_of_a :: volume where
  "disk_of_a = volume_settle 1000 (with_claim (sample_vm ''a'' 1 1024) sample_volume)"

definition disk_of_nobody :: volume where
  "disk_of_nobody = volume_settle 2000 (claimant_left (sample_vm ''a'' 1 1024) disk_of_a)"

definition disk_of_b :: volume where
  "disk_of_b = volume_settle 3000 (with_claim (sample_vm ''b'' 1 1024) disk_of_nobody)"

lemma disk_goes_on: "volume_run tree_ops disk_of_a disk_of_b"
proof -
  have "volume_write tree_ops disk_of_a disk_of_nobody"
    unfolding disk_of_nobody_def by (intro volume_write.intros edit_left)
  moreover have "volume_write tree_ops disk_of_nobody disk_of_b"
    unfolding disk_of_b_def
    by (intro volume_write.intros edit_claim [where migrating = True]) (code_simp, simp)
  ultimately show ?thesis by (meson r_into_rtranclp rtranclp_trans)
qed

lemma disk_claims: "claimed_by (status disk_of_a) ''uid-a''" "claimed_by (status disk_of_b) ''uid-b''"
  by (code_simp, code_simp)

text \<open>C5: A disk changes hands only when nobody claims it and no machine has it open. Over any sequence of
  the writes a cluster makes to a volume (claims taken for guests, claimants leaving, the claimant
  pass judging old copies, reports of nodes, stale ones and tombstones included, placements, moves
  and notes, and any write that leaves the claim and the open list alone), if one guest holds the claim at one time and another guest at a later time, then in
  between there was a moment at which the volume was claimed by nobody and open on no node.\<close>

theorem volume_changes_hands_closed:
  assumes run: "volume_run J v0 v" and first: "claimed_by (status v0) a" and later: "claimed_by (status v) b"
    and other: "a \<noteq> b"
  shows "\<exists>w. volume_run J v0 w \<and> volume_run J w v \<and> lt_attached_to (status w) = None \<and> lt_open_on (status w) = []"
proof -
  have "claimed_by (status v) a \<or> (\<exists>w. volume_run J v0 w \<and> volume_run J w v \<and> let_go w)"
    using run
  proof (induction rule: rtranclp_induct)
    case base then show ?case using first by simp
  next
    case (step y z)
    show ?case
    proof (cases "\<exists>w. volume_run J v0 w \<and> volume_run J w y \<and> let_go w")
      case True
      then show ?thesis using step.hyps(2) rtranclp.rtrancl_into_rtrancl by metis
    next
      case False
      then have "claimed_by (status z) a \<or> let_go z" using step write_keeps_claim by blast
      then show ?thesis using step.hyps rtranclp.rtrancl_into_rtrancl [OF step.hyps] by blast
    qed
  qed
  moreover have "\<not> claimed_by (status v) a" using later other by (auto simp: claimed_by_def)
  ultimately show ?thesis by (auto simp: let_go_def)
qed

theorem volume_changes_hands_closed_witness:
  "\<exists>w. volume_run tree_ops disk_of_a w \<and> volume_run tree_ops w disk_of_b \<and>
     lt_attached_to (status w) = None \<and> lt_open_on (status w) = []"
  using volume_changes_hands_closed [OF disk_goes_on disk_claims] by simp

end
