(* ===== verification/Guest_Reconcile.thy ===== *)
theory Guest_Reconcile
  imports Volume_Pass
begin

text \<open>
  One pass of a cluster over one guest: \<open>cluster-controller/src/reconcile/vms.rs\<close>, \<open>requeue.rs\<close>,
  \<open>told.rs\<close> and the ownership rules of \<open>reconcile/mod.rs\<close>. What goes to a node over its session is a
  parameter, a program that answers whether the node took the command; so is the create, which
  opens a secret and builds the agent's document first. An \<open>anyhow\<close> error is the text it prints.
\<close>

section \<open>Whose guest it is\<close>

definition may_reconcile :: "'j vm \<Rightarrow> string set \<Rightarrow> bool" where
  "may_reconcile vm sessions =
     (case vs_node_name (spec vm) of
        Some node \<Rightarrow> node \<in> sessions
      | None \<Rightarrow> (case vt_node_name (status vm) of Some old \<Rightarrow> old \<in> sessions | None \<Rightarrow> True))"

definition may_reconcile_volume :: "volume \<Rightarrow> string set \<Rightarrow> bool" where
  "may_reconcile_volume volume sessions =
     (case lt_node (status volume) of Some node \<Rightarrow> node \<in> sessions | None \<Rightarrow> True)"

section \<open>Silence\<close>

definition claims_a_guest :: "vm_phase_kind \<Rightarrow> bool" where
  "claims_a_guest phase \<longleftrightarrow> phase \<in> {VP_Running, VP_Paused, VP_Provisioning}"

definition unexplained_unknown :: "vm_status \<Rightarrow> bool" where
  "unexplained_unknown t \<longleftrightarrow> ph_kind (vt_phase t) = VP_Unknown \<and> vt_silence t = None"

definition silent :: "'j vm \<Rightarrow> instant option \<Rightarrow> instant \<Rightarrow> bool" where
  "silent vm last_heartbeat now \<longleftrightarrow>
     vs_node_name (spec vm) \<noteq> None
     \<and> (claims_a_guest (ph_kind (vt_phase (status vm))) \<or> unexplained_unknown (status vm))
     \<and> heartbeat_expired last_heartbeat now"

definition silenced :: "string \<Rightarrow> instant option \<Rightarrow> instant \<Rightarrow> 'j vm \<Rightarrow> 'j vm" where
  "silenced node last_heartbeat now v =
     (if claims_a_guest (ph_kind (vt_phase (status v))) \<or> unexplained_unknown (status v)
      then v\<lparr>status := (status v)\<lparr>vt_silence := Some
             \<lparr>vl_holder = ''node '' @ node, vl_last_heard = last_heartbeat,
              vl_since = (case vt_silence (status v) of Some s \<Rightarrow> vl_since s | None \<Rightarrow> now)\<rparr>\<rparr>\<rparr>
      else v)"

fun expire_lines ::
  "('b, 'k) store \<Rightarrow> ('j, 'b) placement_types \<Rightarrow> string \<Rightarrow> instant option \<Rightarrow> instant \<Rightarrow> 'j vm list \<Rightarrow> ('b, unit) io" where
  "expire_lines S P node last_heartbeat now [] = Done ()"
| "expire_lines S P node last_heartbeat now (vm # vms) =
     (if \<not> silent vm last_heartbeat now then expire_lines S P node last_heartbeat now vms
      else and_then (mutate_if S (pt_vm P) (md_name (metadata vm)) (md_uid (metadata vm))
                       (\<lambda>v. Done (silenced node last_heartbeat now v))) (\<lambda>r.
           and_then (case r of
                       Inr _ \<Rightarrow> record_event S (pt_event P)
                          (vm_happening vm REASON_PHASE_CHANGED (node @ '' stopped answering'') EvWarning)
                     | Inl _ \<Rightarrow> Done ())
             (\<lambda>_. expire_lines S P node last_heartbeat now vms)))"

definition expire_vm_reports ::
  "('b, 'k) store \<Rightarrow> ('j, 'b) placement_types \<Rightarrow> 'j vm list \<Rightarrow> string \<Rightarrow> instant option \<Rightarrow> instant \<Rightarrow>
   ('b, unit) io" where
  "expire_vm_reports S P vms node last_heartbeat now =
     expire_lines S P node last_heartbeat now (filter (\<lambda>v. vs_node_name (spec v) = Some node) vms)"

section \<open>Commands\<close>

datatype command_op =
    OpStart string | OpStop string "u64 option" | OpPause string | OpResume string | OpDestroy string

fun lifecycle_op :: "lifecycle \<Rightarrow> string \<Rightarrow> command_op" where
  "lifecycle_op LcStart uid = OpStart uid"
| "lifecycle_op LcStop uid = OpStop uid None"
| "lifecycle_op LcPause uid = OpPause uid"
| "lifecycle_op LcResume uid = OpResume uid"

type_synonym 'b teller = "string \<Rightarrow> command_op \<Rightarrow> ('b, string + unit) io"

text \<open>What became of a create: the secret is not there yet, or the node's answer.\<close>

datatype create_told = SeedNotReady string | CreateTaken | CannotServe string | CreateRefused string

type_synonym ('j, 'b) creator = "'j vm \<Rightarrow> string \<Rightarrow> ('b, string + create_told) io"

text \<open>The memo of what was said lately.\<close>

definition RETELL_AFTER :: nat where "RETELL_AFTER = secs 30"

record lifecycle_said =
  ls_node :: string
  ls_action :: lifecycle
  ls_generation :: u64

type_synonym 'a memo = "string \<rightharpoonup> 'a \<times> instant"

definition lately :: "instant \<Rightarrow> instant \<Rightarrow> bool" where
  "lately now at \<longleftrightarrow> nat (now - at) < RETELL_AFTER"

definition memo_said_lately :: "'a memo \<Rightarrow> instant \<Rightarrow> string \<Rightarrow> 'a \<Rightarrow> bool" where
  "memo_said_lately m now uid what =
     (case m uid of Some (said, at) \<Rightarrow> said = what \<and> lately now at | None \<Rightarrow> False)"

definition memo_note :: "'a memo \<Rightarrow> instant \<Rightarrow> string \<Rightarrow> 'a \<Rightarrow> 'a memo" where
  "memo_note m now uid what =
     (\<lambda>u. case m u of Some (said, at) \<Rightarrow> if lately now at then Some (said, at) else None | None \<Rightarrow> None)
       (uid \<mapsto> (what, now))"

definition memo_forget :: "'a memo \<Rightarrow> string \<Rightarrow> 'a memo" where
  "memo_forget m uid = m(uid := None)"

definition close_generation ::
  "('b, 'k) store \<Rightarrow> ('j vm_spec, vm_status, 'b) resource \<Rightarrow> 'j vm \<Rightarrow> ('b, string + unit) io" where
  "close_generation S Tv vm =
     (let dispatched = md_generation (metadata vm)
      in if dispatched \<le> vt_observed_generation (status vm) then Done (Inr ())
         else and_then (mutate_if S Tv (md_name (metadata vm)) (md_uid (metadata vm)) (\<lambda>v.
                Done (v\<lparr>status := (status v)
                  \<lparr>vt_observed_generation := max (vt_observed_generation (status v)) dispatched\<rparr>\<rparr>)))
                (\<lambda>r. Done (map_sum store_error_display (\<lambda>_. ()) r)))"

text \<open>The memo is read and written by the instants of the clock of this replica; the pass hands the
  memo on.\<close>

definition send_lifecycle ::
  "('b, 'k) store \<Rightarrow> ('j vm_spec, vm_status, 'b) resource \<Rightarrow> 'b teller \<Rightarrow> lifecycle_said memo \<Rightarrow> 'j vm \<Rightarrow> string \<Rightarrow>
   lifecycle \<Rightarrow> ('b, lifecycle_said memo \<times> (string + unit)) io" where
  "send_lifecycle S Tv tell m vm node action =
     (let uid = md_uid (metadata vm);
          said = \<lparr>ls_node = node, ls_action = action, ls_generation = md_generation (metadata vm)\<rparr>
      in and_then utc_now (\<lambda>now.
           if memo_said_lately m now uid said
           then and_then (close_generation S Tv vm) (\<lambda>r. Done (m, r))
           else and_then (tell node (lifecycle_op action uid)) (\<lambda>answer.
             case answer of
               Inl e \<Rightarrow> Done (m, Inl e)
             | Inr _ \<Rightarrow> and_then utc_now (\<lambda>then1.
                 and_then (close_generation S Tv vm) (\<lambda>r. Done (memo_note m then1 uid said, r))))))"

section \<open>Disks that drifted\<close>

record drift =
  df_attach :: "string list"
  df_release :: "string list"

definition volume_drift :: "'j json_ops \<Rightarrow> 'j vm \<Rightarrow> drift option" where
  "volume_drift J vm =
     (if ph_kind (vt_phase (status vm)) \<notin> {VP_Running, VP_Stopped} then None
      else let wanted = referenced_volumes J (spec vm)
           in if wanted = [] \<and> vt_volumes (status vm) = [] then None
              else let got = map vat_name (filter vat_attached (vt_volumes (status vm)));
                       attach = filter (\<lambda>name. name \<notin> set got) wanted;
                       release = filter (\<lambda>name. name \<notin> set wanted) got
                   in if attach \<noteq> [] \<or> release \<noteq> [] then Some \<lparr>df_attach = attach, df_release = release\<rparr>
                      else None)"

section \<open>A guest that failed\<close>

datatype requeue = RequeueNot | RequeueArm | RequeueKick | RequeueReset

definition requeue_decision :: "'j vm \<Rightarrow> requeue_policy \<Rightarrow> instant \<Rightarrow> requeue" where
  "requeue_decision vm policy now =
     (if ph_kind (vt_phase (status vm)) \<noteq> VP_Failed
      then (if vt_requeue_attempts (status vm) > 0 \<or> vt_last_requeue (status vm) \<noteq> None
            then RequeueReset else RequeueNot)
      else if vs_run_strategy (spec vm) = RunStopped \<or> vs_node_name (spec vm) = None then RequeueNot
      else case vt_last_requeue (status vm) of
             None \<Rightarrow> RequeueArm
           | Some since \<Rightarrow>
               (case next_delay policy (vt_requeue_attempts (status vm)) of
                  None \<Rightarrow> RequeueNot
                | Some delay \<Rightarrow> if since \<le> now \<and> delay \<le> nat (now - since) then RequeueKick else RequeueNot))"

definition kick_counted :: "u32 \<Rightarrow> instant \<Rightarrow> 'j vm \<Rightarrow> 'j vm" where
  "kick_counted attempt now v =
     v\<lparr>status := (status v)\<lparr>vt_requeue_attempts := attempt, vt_last_requeue := Some now\<rparr>\<rparr>"

definition kick_taken :: "string \<Rightarrow> u64 \<Rightarrow> instant \<Rightarrow> 'j vm \<Rightarrow> 'j vm" where
  "kick_taken node dispatched now v =
     (let t = (status v)\<lparr>vt_observed_generation := max (vt_observed_generation (status v)) dispatched\<rparr>
      in v\<lparr>status :=
           (if ph_kind (vt_phase (status v)) = VP_Failed
            then t\<lparr>vt_reported := Some (said_here VP_Provisioning VR_Dispatched (Some (node @ '' was told again'')) now)\<rparr>
            else t)\<rparr>)"

definition kick ::
  "('b, 'j) store \<Rightarrow> ('j, 'b) placement_types \<Rightarrow> ('j, 'b) creator \<Rightarrow> 'j vm \<Rightarrow> string \<Rightarrow> ('b, string + unit) io" where
  "kick S P tell_create vm node =
     (let name = md_name (metadata vm); uid = md_uid (metadata vm);
          attempt = vt_requeue_attempts (status vm) + 1
      in and_then (mutate_if S (pt_vm P) name uid (\<lambda>v.
           and_then utc_now (\<lambda>now. Done (kick_counted attempt now v)))) (\<lambda>counted.
         case counted of
           Inl e \<Rightarrow> Done (Inl (store_error_display e))
         | Inr _ \<Rightarrow> try_then (tell_create vm node) (\<lambda>told.
             case told of
               SeedNotReady reason \<Rightarrow> note_vm_pending S P vm SecretNotReady reason
             | CreateTaken \<Rightarrow>
                 and_then (mutate_if S (pt_vm P) name uid (\<lambda>v.
                   and_then utc_now (\<lambda>now. Done (kick_taken node (md_generation (metadata vm)) now v))))
                   (\<lambda>r. Done (map_sum store_error_display (\<lambda>_. ()) r))
             | _ \<Rightarrow> Done (Inr ()))))"

definition heal_if_failed ::
  "('b, 'j) store \<Rightarrow> ('j, 'b) placement_types \<Rightarrow> requeue_policy \<Rightarrow> ('j, 'b) creator \<Rightarrow> 'j vm \<Rightarrow> string \<Rightarrow>
   ('b, string + unit) io" where
  "heal_if_failed S P policy tell_create vm node =
     (let name = md_name (metadata vm); uid = md_uid (metadata vm);
          shown = (\<lambda>r. Done (map_sum store_error_display (\<lambda>_. ()) r))
      in and_then utc_now (\<lambda>now.
         case requeue_decision vm policy now of
           RequeueNot \<Rightarrow> Done (Inr ())
         | RequeueReset \<Rightarrow>
             and_then (mutate_if S (pt_vm P) name uid (\<lambda>v. Done (v\<lparr>status := (status v)
               \<lparr>vt_requeue_attempts := 0, vt_last_requeue := None\<rparr>\<rparr>))) shown
         | RequeueArm \<Rightarrow>
             and_then (mutate_if S (pt_vm P) name uid (\<lambda>v.
               case vt_last_requeue (status v) of
                 Some _ \<Rightarrow> Done v
               | None \<Rightarrow> and_then utc_now (\<lambda>at. Done (v\<lparr>status := (status v)\<lparr>vt_last_requeue := Some at\<rparr>\<rparr>)))) shown
         | RequeueKick \<Rightarrow> kick S P tell_create vm node))"

section \<open>The create\<close>

datatype bindings = BindingsReady "volume_binding list" | BindingsNotReady string

fun bindings_for ::
  "('b, 'j) store \<Rightarrow> ('j, 'b) storage_types \<Rightarrow> volume_binding list \<Rightarrow> string list \<Rightarrow> ('b, string + bindings) io" where
  "bindings_for S Y bs [] = Done (Inr (BindingsReady bs))"
| "bindings_for S Y bs (name # names) =
     and_then (store_get S (sy_volume Y) name) (\<lambda>got.
       case got of
         Inl (NotFound _) \<Rightarrow> Done (Inr (BindingsNotReady (''volume '' @ name @ '' does not exist here any more'')))
       | Inl e \<Rightarrow> Done (Inl (store_error_display e))
       | Inr volume \<Rightarrow>
           if ph_kind (lt_phase (status volume)) \<noteq> LP_Ready
           then Done (Inr (BindingsNotReady (''volume '' @ name @ '' is '' @
                  volume_phase_kind_str (ph_kind (lt_phase (status volume))) @ '': '' @
                  unwrap_or ''waiting for it to be made'' (phase_message (lt_phase (status volume))))))
           else and_then (store_get S (sy_pool Y) (ls_pool (spec volume))) (\<lambda>got_pool.
             let bound = (\<lambda>pool.
                   \<lparr>vb_volume = name, vb_node = lt_node (status volume),
                    vb_locality = Option.bind pool (\<lambda>p. pt_locality (status p)),
                    vb_pool_nodes = (case pool of Some p \<Rightarrow> ps_nodes (spec p) | None \<Rightarrow> []),
                    vb_driver = map_option (\<lambda>p. ps_driver (spec p)) pool\<rparr>)
             in case got_pool of
                  Inr pool \<Rightarrow> bindings_for S Y (bs @ [bound (Some pool)]) names
                | Inl (NotFound _) \<Rightarrow> bindings_for S Y (bs @ [bound None]) names
                | Inl e \<Rightarrow> Done (Inl (store_error_display e))))"

definition volume_bindings ::
  "('b, 'j) store \<Rightarrow> ('j, 'b) storage_types \<Rightarrow> 'j vm \<Rightarrow> ('b, string + bindings) io" where
  "volume_bindings S Y vm = bindings_for S Y [] (referenced_volumes (st_json S) (spec vm))"

fun create_answer :: "string option \<Rightarrow> vm_phase_kind \<Rightarrow> (vm_phase_kind \<times> string option) option" where
  "create_answer None current = (if current = VP_Pending then Some (VP_Provisioning, None) else None)"
| "create_answer (Some said) current = (if current = VP_Quarantined then None else Some (VP_Failed, Some said))"

definition create_written ::
  "bool \<Rightarrow> u64 \<Rightarrow> string option \<Rightarrow> instant \<Rightarrow> instant \<Rightarrow> 'j vm \<Rightarrow> 'j vm" where
  "create_written settles_here dispatched said at at' v =
     (let t = (if said = None \<and> settles_here
               then (status v)\<lparr>vt_observed_generation := max (vt_observed_generation (status v)) dispatched\<rparr>
               else status v)
      in v\<lparr>status :=
           (case create_answer said (ph_kind (vt_phase (status v))) of
              None \<Rightarrow> t
            | Some (phase, message) \<Rightarrow>
                t\<lparr>vt_reported := Some (said_here phase (if phase = VP_Failed then VR_Refused else VR_Dispatched) message at),
                  vt_node_name := vs_node_name (spec v),
                  vt_observed_at := Some at'\<rparr>)\<rparr>)"

definition REFUSAL_TTL :: nat where "REFUSAL_TTL = secs 600"

definition refused_by_node :: "string \<Rightarrow> string \<Rightarrow> instant \<Rightarrow> instant \<Rightarrow> 'j vm \<Rightarrow> 'j vm" where
  "refused_by_node node said until now v =
     v\<lparr>spec := (spec v)\<lparr>vs_node_name := None\<rparr>,
       status := (status v)
         \<lparr>vt_reported := Some (said_here VP_Pending VR_Refused (Some said) now),
          vt_placement := None,
          vt_refused_by := filter (\<lambda>r. rf_node r \<noteq> node) (vt_refused_by (status v)) @
            [\<lparr>rf_node = node, rf_message = said, rf_until = until\<rparr>]\<rparr>\<rparr>"

definition unbind_refused ::
  "('b, 'j) store \<Rightarrow> ('j, 'b) placement_types \<Rightarrow> 'j vm \<Rightarrow> string \<Rightarrow> string \<Rightarrow> ('b, string + unit) io" where
  "unbind_refused S P vm node said =
     and_then utc_now (\<lambda>started.
     and_then (mutate_if S (pt_vm P) (md_name (metadata vm)) (md_uid (metadata vm)) (\<lambda>v.
        and_then utc_now (\<lambda>now. Done (refused_by_node node said (started + int REFUSAL_TTL) now v)))) (\<lambda>r.
     case r of
       Inl e \<Rightarrow> Done (Inl (store_error_display e))
     | Inr _ \<Rightarrow> and_then (record_event S (pt_event P)
                   (vm_happening vm REASON_UNBOUND (''node '' @ node @ '': '' @ said) EvWarning))
                 (\<lambda>_. Done (Inr ()))))"

definition dispatch_create ::
  "('b, 'j) store \<Rightarrow> ('j, 'b) placement_types \<Rightarrow> ('j, 'b) creator \<Rightarrow> 'j vm \<Rightarrow> string \<Rightarrow> ('b, string + unit) io" where
  "dispatch_create S P tell_create vm node =
     try_then (tell_create vm node) (\<lambda>told.
       let record = (\<lambda>said.
             and_then (mutate_if S (pt_vm P) (md_name (metadata vm)) (md_uid (metadata vm)) (\<lambda>v.
               and_then utc_now (\<lambda>at. and_then utc_now (\<lambda>at'.
               Done (create_written (volume_drift (st_json S) vm = None) (md_generation (metadata vm)) said at at' v)))))
             (\<lambda>r. Done (case r of
                 Inl e \<Rightarrow> Inl (store_error_display e)
               | Inr _ \<Rightarrow> (case said of Some e \<Rightarrow> Inl e | None \<Rightarrow> Inr ()))))
       in case told of
            SeedNotReady reason \<Rightarrow> note_vm_pending S P vm SecretNotReady reason
          | CannotServe message \<Rightarrow> unbind_refused S P vm node message
          | CreateTaken \<Rightarrow> record None
          | CreateRefused e \<Rightarrow> record (Some e))"

definition hot_plug ::
  "('b, 'j) store \<Rightarrow> ('j, 'b) placement_types \<Rightarrow> ('j, 'b) storage_types \<Rightarrow> ('j, 'b) creator \<Rightarrow> 'j vm \<Rightarrow> string \<Rightarrow>
   drift \<Rightarrow> ('b, string + unit) io" where
  "hot_plug S P Y tell_create vm node drift =
     try_then (volume_bindings S Y vm) (\<lambda>found.
       let plug = try_then (hold_volumes S P Y vm node) (\<lambda>_.
                  try_then (dispatch_create S P tell_create vm node) (\<lambda>_.
                  and_then (release_named_volumes S Y vm (df_release drift)) (\<lambda>_. Done (Inr ()))))
       in case found of
            BindingsNotReady reason \<Rightarrow> note_vm_pending S P vm VolumeNotReady reason
          | BindingsReady bs \<Rightarrow>
              (case Option.bind (find (\<lambda>b. pins_elsewhere b node) bs) (\<lambda>b. map_option (Pair (vb_volume b)) (vb_node b)) of
                 Some (volume, on) \<Rightarrow>
                   note_vm_pending S P vm VolumeNotReady
                     (''volume '' @ volume @ '' lives on node '' @ on @ ''; this vm runs on node '' @ node)
               | None \<Rightarrow> plug))"

section \<open>Leaving a node\<close>

definition unbind ::
  "('b, 'j) store \<Rightarrow> ('j, 'b) storage_types \<Rightarrow> 'b teller \<Rightarrow> 'j vm \<Rightarrow> string \<Rightarrow> ('b, string + unit) io" where
  "unbind S Y tell vm old =
     try_then (tell old (OpDestroy (md_uid (metadata vm)))) (\<lambda>_.
     and_then (release_volumes S Y vm) (\<lambda>_. Done (Inr ())))"

definition destroy_target :: "'j vm \<Rightarrow> string option" where
  "destroy_target vm =
     (if ph_kind (vt_phase (status vm)) \<noteq> VP_Pending then vs_node_name (spec vm) else None)"

definition tear_down ::
  "('b, 'j) store \<Rightarrow> ('j, 'b) placement_types \<Rightarrow> ('j, 'b) storage_types \<Rightarrow> 'b teller \<Rightarrow> 'j vm \<Rightarrow> ('b, string + unit) io" where
  "tear_down S P Y tell vm =
     try_then (case destroy_target vm of
                 Some node \<Rightarrow> tell node (OpDestroy (md_uid (metadata vm)))
               | None \<Rightarrow> Done (Inr ())) (\<lambda>_.
     and_then (finish_delete S (pt_vm P) vm (\<lambda>v. is_deleting v \<and> destroy_target v = destroy_target vm)) (\<lambda>r.
       case r of
         Inl e \<Rightarrow> Done (Inl (store_error_display e))
       | Inr False \<Rightarrow> Done (Inr ())
       | Inr True \<Rightarrow> and_then (release_volumes S Y vm) (\<lambda>_. Done (Inr ()))))"

definition evacuation_moving :: "evacuating \<Rightarrow> 'j vm \<Rightarrow> 'j vm" where
  "evacuation_moving mark v =
     v\<lparr>spec := (spec v)\<lparr>vs_node_name := None\<rparr>,
       status := (status v)\<lparr>vt_evacuating := Some (mark\<lparr>ev_step := evacuation_step_str StepMoving\<rparr>)\<rparr>\<rparr>"

definition evacuation_over :: "'j vm \<Rightarrow> 'j vm" where
  "evacuation_over v = v\<lparr>status := (status v)\<lparr>vt_evacuating := None\<rparr>\<rparr>"

definition evacuate ::
  "('b, 'j) store \<Rightarrow> ('j, 'b) placement_types \<Rightarrow> 'b teller \<Rightarrow> lifecycle_said memo \<Rightarrow> 'j vm \<Rightarrow> string \<Rightarrow>
   ('b, lifecycle_said memo \<times> (string + unit)) io" where
  "evacuate S P tell m vm node =
     (let write = (\<lambda>f. mutate_if S (pt_vm P) (md_name (metadata vm)) (md_uid (metadata vm)) (\<lambda>v. Done (f v)));
          shown = (\<lambda>r. Done (m, map_sum store_error_display (\<lambda>_. ()) r))
      in case vt_evacuating (status vm) of
           None \<Rightarrow> Done (m, Inr ())
         | Some mark \<Rightarrow>
             if node \<noteq> ev_from mark
             then and_then (write evacuation_over) (\<lambda>r.
                    case r of
                      Inl e \<Rightarrow> Done (m, Inl (store_error_display e))
                    | Inr _ \<Rightarrow> and_then (record_event S (pt_event P) (vm_happening vm REASON_SCHEDULED
                          (''moved off '' @ ev_from mark @ '' by restart; now on '' @ node) EvNormal)) (\<lambda>_.
                        Done (m, Inr ())))
             else (case evacuation_step_parse (ev_step mark) of
                     Some StepStopping \<Rightarrow>
                       if ph_kind (vt_phase (status vm)) \<in> {VP_Running, VP_Paused}
                       then send_lifecycle S (pt_vm P) tell m vm node LcStop
                       else if ph_kind (vt_phase (status vm)) \<noteq> VP_Stopped then Done (m, Inr ())
                       else and_then (write (evacuation_moving mark)) shown
                   | Some StepMoving \<Rightarrow> and_then (write evacuation_over) shown
                   | None \<Rightarrow> Done (m, Inr ())))"

section \<open>One pass over one guest\<close>

definition reconcile_bound ::
  "('b, 'j) store \<Rightarrow> ('j, 'b) placement_types \<Rightarrow> 'b teller \<Rightarrow> ('j, 'b) creator \<Rightarrow> requeue_policy \<Rightarrow>
   lifecycle_said memo \<Rightarrow> 'j vm \<Rightarrow> string \<Rightarrow> ('b, lifecycle_said memo \<times> (string + unit)) io" where
  "reconcile_bound S P tell tell_create policy m vm node =
     (if vt_evacuating (status vm) \<noteq> None then evacuate S P tell m vm node
      else and_then (case lifecycle_command (vs_run_strategy (spec vm)) (ph_kind (vt_phase (status vm))) of
                       Some action \<Rightarrow> send_lifecycle S (pt_vm P) tell m vm node action
                     | None \<Rightarrow> Done (m, Inr ())) (\<lambda>(m', sent).
           case sent of
             Inl e \<Rightarrow> Done (m', Inl e)
           | Inr _ \<Rightarrow> and_then (heal_if_failed S P policy tell_create vm node) (\<lambda>r. Done (m', r))))"

definition reconcile_vm ::
  "('b, 'j) store \<Rightarrow> ('j, 'b) placement_types \<Rightarrow> ('j, 'b) storage_types \<Rightarrow> 'b teller \<Rightarrow> ('j, 'b) creator \<Rightarrow>
   requeue_policy \<Rightarrow> string set \<Rightarrow> ('j vm \<Rightarrow> ('b, string + unit) io) \<Rightarrow> lifecycle_said memo \<Rightarrow> 'j vm \<Rightarrow>
   ('b, lifecycle_said memo \<times> (string + unit)) io" where
  "reconcile_vm S P Y tell tell_create policy sessions place m vm =
     (if \<not> may_reconcile vm sessions then Done (m, Inr ())
      else if is_deleting vm then and_then (tear_down S P Y tell vm) (\<lambda>r. Done (m, r))
      else case vs_node_name (spec vm) of
             None \<Rightarrow>
               (case vt_node_name (status vm) of
                  Some old \<Rightarrow> and_then (unbind S Y tell vm old) (\<lambda>r. Done (m, r))
                | None \<Rightarrow> and_then (place vm) (\<lambda>r. Done (m, r)))
           | Some node \<Rightarrow>
               if ph_kind (vt_phase (status vm)) = VP_Pending
               then and_then (try_then (hold_volumes S P Y vm node) (\<lambda>_. dispatch_create S P tell_create vm node)) (\<lambda>r.
                      case r of
                        Inl e \<Rightarrow> Done (m, Inl e)
                      | Inr _ \<Rightarrow> reconcile_bound S P tell tell_create policy m vm node)
               else (case volume_drift (st_json S) vm of
                       Some drift \<Rightarrow> and_then (hot_plug S P Y tell_create vm node drift) (\<lambda>r. Done (m, r))
                     | None \<Rightarrow> reconcile_bound S P tell tell_create policy m vm node))"

section \<open>What the pieces promise\<close>

text \<open>A failed guest is tried again no sooner than ten seconds after the last attempt or first sighting,
  and never when nobody wants it running or it has no node.\<close>

lemma kick_spaced:
  assumes "requeue_decision vm policy now = RequeueKick"
  shows "\<exists>since. vt_last_requeue (status vm) = Some since \<and> since + int (secs 10) \<le> now"
    and "vs_run_strategy (spec vm) \<noteq> RunStopped" and "vs_node_name (spec vm) \<noteq> None"
proof -
  obtain since delay where d: "vt_last_requeue (status vm) = Some since"
      "next_delay policy (vt_requeue_attempts (status vm)) = Some delay" "since \<le> now" "delay \<le> nat (now - since)"
    using assms by (auto simp: requeue_decision_def split: if_splits option.splits)
  have "delay = backoff (vt_requeue_attempts (status vm))"
    using d(2) by (cases policy) (auto split: if_splits)
  then have "secs 10 \<le> nat (now - since)" using d(4) backoff_bounds(1) le_trans by blast
  then show "\<exists>since. vt_last_requeue (status vm) = Some since \<and> since + int (secs 10) \<le> now"
    using d(1,3) by (simp add: le_nat_iff secs_def)
  show "vs_run_strategy (spec vm) \<noteq> RunStopped" "vs_node_name (spec vm) \<noteq> None"
    using assms by (auto simp: requeue_decision_def split: if_splits)
qed

text \<open>What was said is said again only after thirty seconds, or when it changed.\<close>

lemma memo_note_lately:
  "memo_said_lately (memo_note m at uid what) now uid what' \<longleftrightarrow> what' = what \<and> nat (now - at) < RETELL_AFTER"
  by (auto simp: memo_said_lately_def memo_note_def lately_def)

lemma memo_note_others:
  "uid' \<noteq> uid \<Longrightarrow> memo_said_lately (memo_note m at uid what) now uid' w \<Longrightarrow> memo_said_lately m now uid' w"
  by (auto simp: memo_said_lately_def memo_note_def split: option.splits if_splits)

text \<open>Silence makes a phase unknown and nothing else, and only a phase that claimed a guest.\<close>

lemma silenced_unknown:
  "silent vm heard now \<Longrightarrow> ph_kind (vt_phase (status (vm_settle f t (silenced node heard now vm)))) = VP_Unknown"
  by (simp add: silent_def silenced_def vm_settle_def settle_vm_silent)

lemma drift_settled:
  assumes "volume_drift J vm = None" "ph_kind (vt_phase (status vm)) \<in> {VP_Running, VP_Stopped}"
  shows "set (referenced_volumes J (spec vm)) = vat_name ` {a \<in> set (vt_volumes (status vm)). vat_attached a}"
  using assms by (auto simp: volume_drift_def Let_def filter_empty_conv split: if_splits)

text \<open>The cloud's half of the same report leaves a guest without a binding alone.\<close>

lemma cloud_keeps_unbound: "vs_cluster_name (spec v) = None \<Longrightarrow> phase_from_cluster c k r m at v = v"
  by (simp add: phase_from_cluster_def ours_cluster_def)

section \<open>A guest whose binding fell\<close>

lemma listed_uid:
  "map_of (rev (map (\<lambda>v. (md_uid (metadata v), v)) known)) uid = Some vm \<Longrightarrow> md_uid (metadata vm) = uid"
  by (auto dest!: map_of_SomeD)

lemma letting_go_unnamed: "vm \<in> set (letting_go vms n report) \<Longrightarrow> \<not> (\<exists>r \<in> set (rp_vms report). sr_id r = md_uid (metadata vm))"
  by (auto simp: letting_go_def split: if_splits)

definition plain_resource :: "string \<Rightarrow> ('s, 't, unit) resource" where
  "plain_resource r =
     \<lparr>RESOURCE = r, KIND = r, NAME_SHAPE = DnsLabel, settle = (\<lambda>_ obj. obj), to_vec = (\<lambda>_. Inr ()),
      from_slice = (\<lambda>_. Inl ''opaque'')\<rparr>"

definition plain_types :: "(json, unit) placement_types" where
  "plain_types = \<lparr>pt_vm = plain_resource ''vms'', pt_node = plain_resource ''nodes'',
     pt_claim = plain_resource ''capacityreservations'', pt_event = plain_resource ''events''\<rparr>"

definition plain_storage :: "(json, unit) storage_types" where
  "plain_storage = \<lparr>sy_volume = plain_resource ''volumes'', sy_pool = plain_resource ''storagepools'',
     sy_snapshot = plain_resource ''volumesnapshots'', sy_migration = plain_resource ''vmmigrations''\<rparr>"

definition leaving_guest :: "json vm" where
  "leaving_guest = (let v = sample_vm ''a'' 2 3000 in v\<lparr>status := (status v)\<lparr>vt_node_name := Some ''n1''\<rparr>\<rparr>)"

lemma leaving_guest_seen:
  "observe_one [leaving_guest] (ours_node ''n1'') (sample_line ''Running'')
     = Some (sample_line ''Running'', ObsChanged leaving_guest VP_Running VR_Unrecorded None)"
  by code_simp

text \<open>C19: A guest that was let go is placed again while its old node still reports it. The binding of a guest
  is gone, the old node still stands in its status, and the report of that node names the guest with
  a phase that differs from the one that stands. The node has not let go: the pass that clears the
  old node from a complete inventory leaves the guest alone, and before the report the reconciler
  tells the old node to destroy it. But writing the phase replaces the node in the status by the
  binding, which is none, so after the report every replica sends the guest to placement.\<close>

theorem changed_phase_frees_held_guest:
  assumes seen: "observe_one vms (ours_node n) line = Some (line, ObsChanged vm k r m)"
    and reported: "line \<in> set (rp_vms report)"
    and unbound: "vs_node_name (spec vm) = None" and held_here: "vt_node_name (status vm) = Some n"
    and owner: "n \<in> sessions" and alive: "\<not> is_deleting vm"
  shows "vm \<notin> set (letting_go vms n report)
    \<and> reconcile_vm S P Y tell tell_create policy sessions place memo vm
        = and_then (unbind S Y tell vm n) (\<lambda>answer. Done (memo, answer))
    \<and> reconcile_vm S P Y tell tell_create policy anywhere place memo (vm_settle f now (phase_from_node n k r m at vm))
        = and_then (place (vm_settle f now (phase_from_node n k r m at vm))) (\<lambda>answer. Done (memo, answer))"
proof -
  let ?v = "vm_settle f now (phase_from_node n k r m at vm)"
  have "md_uid (metadata vm) = sr_id line" using observe_one_Changed [OF seen] listed_uid by blast
  then have "vm \<notin> set (letting_go vms n report)" using letting_go_unnamed [of vm vms n report] reported by auto
  moreover have "vt_node_name (status ?v) = None"
    using unbound by (simp add: vm_settle_def phase_from_node_def ours_node_def)
  ultimately show ?thesis
    using unbound held_here owner alive by (simp add: reconcile_vm_def may_reconcile_def is_deleting_def)
qed

theorem changed_phase_frees_held_guest_witness:
  "reconcile_vm sample_store plain_types plain_storage (\<lambda>_ _. Done (Inr ())) (\<lambda>_ _. Done (Inr CreateTaken))
       CrashLoopBackoff {} (\<lambda>_. Done (Inr ())) (\<lambda>_. None)
       (vm_settle dec_rfc 2000 (phase_from_node ''n1'' VP_Running VR_Unrecorded None 1500 leaving_guest))
     = Done (\<lambda>_. None, Inr ())"
proof -
  have "vs_node_name (spec leaving_guest) = None" "vt_node_name (status leaving_guest) = Some ''n1''"
      "\<not> is_deleting leaving_guest"
    by (simp_all add: leaving_guest_def sample_defs Let_def is_deleting_def)
  then show ?thesis
    using changed_phase_frees_held_guest [OF leaving_guest_seen, of "\<lparr>rp_vms = [sample_line ''Running''], rp_vms_complete = True\<rparr>"
        "{''n1''}" sample_store plain_types plain_storage "\<lambda>_ _. Done (Inr ())" "\<lambda>_ _. Done (Inr CreateTaken)"
        CrashLoopBackoff "\<lambda>_. Done (Inr ())" "\<lambda>_. None" "{}" dec_rfc 2000 1500]
    by simp
qed

end
