(* ===== verification/Quota.thy ===== *)
theory Quota
  imports Capacity_Model Storage_Resource
begin

text \<open>
  \<open>shared/controller-api/src/quota.rs\<close> and the tenant's own record in \<open>resources/tenant.rs\<close>: what a tenant
  holds, and whether it may hold more. Sums saturate at the width of their counter, so a limit at
  the largest value of its width is no limit.
\<close>

record tenant_quota =
  tq_max_vms :: "u32 option"
  tq_max_vcpus :: "u32 option"
  tq_max_mem_mib :: "u64 option"

definition is_unset :: "tenant_quota \<Rightarrow> bool" where
  "is_unset q \<longleftrightarrow> tq_max_vms q = None \<and> tq_max_vcpus q = None \<and> tq_max_mem_mib q = None"

record tenant_spec =
  ts_description :: string
  ts_quota :: tenant_quota
  ts_vni :: "u32 option"
  ts_network_prefixes :: "string list"
  ts_labels :: labels

record tenant_usage =
  tu_vms :: u32
  tu_vcpus :: u32
  tu_mem_mib :: u64

record tenant_status =
  tt_used :: tenant_usage

type_synonym tenant = "(tenant_spec, tenant_status) object"

definition quota_fence :: "string \<Rightarrow> string" where
  "quota_fence tenant = ''quota/'' @ tenant"

section \<open>Guests\<close>

record usage =
  us_vms :: u32
  us_size :: capacity

definition usage_default :: usage where
  "usage_default = \<lparr>us_vms = 0, us_size = capacity_default\<rparr>"

definition usage_plus :: "usage \<Rightarrow> capacity \<Rightarrow> usage" where
  "usage_plus u size1 = \<lparr>us_vms = sat_add (us_vms u) 1, us_size = plus_cap (us_size u) size1\<rparr>"

definition usage_of :: "'j json_ops \<Rightarrow> string \<Rightarrow> 'j vm list \<Rightarrow> string option \<Rightarrow> usage" where
  "usage_of J tenant vms except =
     foldl (\<lambda>acc vm. usage_plus acc (wanted_by J vm)) usage_default
       (filter (\<lambda>v. Some (md_name (metadata v)) \<noteq> except)
         (filter (\<lambda>v. vs_tenant (spec v) = Some tenant) vms))"

definition usage_reported :: "usage \<Rightarrow> tenant_usage" where
  "usage_reported u = \<lparr>tu_vms = us_vms u, tu_vcpus = vcpus (us_size u), tu_mem_mib = mem_mib (us_size u)\<rparr>"

definition over_quota :: "string \<Rightarrow> string \<Rightarrow> nat \<Rightarrow> nat \<Rightarrow> string" where
  "over_quota tenant what want limit =
     ''tenant '' @ tenant @ '' would hold '' @ dec want @ '' '' @ what @ '', and its quota is '' @ dec limit"

definition above :: "'a::len word option \<Rightarrow> 'a word \<Rightarrow> bool" where
  "above limit n = (case limit of Some m \<Rightarrow> m < n | None \<Rightarrow> False)"

definition quota_check :: "tenant_quota \<Rightarrow> string \<Rightarrow> usage \<Rightarrow> string + unit" where
  "quota_check q tenant after =
     (if above (tq_max_vms q) (us_vms after)
      then Inl (over_quota tenant ''vms'' (unat (us_vms after)) (unat (the (tq_max_vms q))))
      else if above (tq_max_vcpus q) (vcpus (us_size after))
      then Inl (over_quota tenant ''vcpus'' (unat (vcpus (us_size after))) (unat (the (tq_max_vcpus q))))
      else if above (tq_max_mem_mib q) (mem_mib (us_size after))
      then Inl (over_quota tenant ''MiB of memory'' (unat (mem_mib (us_size after))) (unat (the (tq_max_mem_mib q))))
      else Inr ())"

section \<open>Storage\<close>

record storage_usage =
  su_volumes :: u32
  su_gib :: u64

definition storage_usage_default :: storage_usage where
  "storage_usage_default = \<lparr>su_volumes = 0, su_gib = 0\<rparr>"

definition storage_usage_plus :: "storage_usage \<Rightarrow> u64 \<Rightarrow> storage_usage" where
  "storage_usage_plus u gib = \<lparr>su_volumes = sat_add (su_volumes u) 1, su_gib = sat_add (su_gib u) gib\<rparr>"

definition storage_usage_of :: "string \<Rightarrow> string \<Rightarrow> volume list \<Rightarrow> string option \<Rightarrow> storage_usage" where
  "storage_usage_of tenant pool volumes except =
     foldl (\<lambda>acc v. storage_usage_plus acc (ls_size_gib (spec v))) storage_usage_default
       (filter (\<lambda>v. Some (md_name (metadata v)) \<noteq> except)
         (filter (\<lambda>v. ls_tenant (spec v) = tenant \<and> ls_pool (spec v) = pool) volumes))"

definition check_storage :: "'j storage_pool \<Rightarrow> string \<Rightarrow> storage_usage \<Rightarrow> string + unit" where
  "check_storage pool tenant after =
     (let limit = quota_for (spec pool) tenant
      in if limit < su_gib after
         then Inl (''tenant '' @ tenant @ '' would hold '' @ dec (unat (su_gib after)) @ '' GiB in storage pool '' @
                md_name (metadata pool) @ '', and its quota there is '' @ dec (unat limit) @ '' GiB'')
         else Inr ())"

fun holds_room :: "volume_phase_kind \<Rightarrow> bool" where
  "holds_room LP_Pending = True"
| "holds_room LP_Provisioning = True"
| "holds_room LP_Ready = True"
| "holds_room LP_Releasing = True"
| "holds_room LP_Failed = True"

section \<open>What an accepted check says\<close>

text \<open>What a tenant holds, as a set: the name and the size of each of its guests. A limit bounds a
  count unless it is the largest value of its width.\<close>

definition within_limit :: "'a::len word option \<Rightarrow> nat \<Rightarrow> bool" where
  "within_limit limit n = (case limit of None \<Rightarrow> True | Some w \<Rightarrow> w = - 1 \<or> n \<le> unat w)"

definition within_quota :: "tenant_quota \<Rightarrow> (string \<times> capacity) set \<Rightarrow> bool" where
  "within_quota q holdings \<longleftrightarrow>
     within_limit (tq_max_vms q) (card holdings)
     \<and> within_limit (tq_max_vcpus q) (\<Sum>h\<in>holdings. unat (vcpus (snd h)))
     \<and> within_limit (tq_max_mem_mib q) (\<Sum>h\<in>holdings. unat (mem_mib (snd h)))"

definition holdings :: "'j json_ops \<Rightarrow> string \<Rightarrow> 'j vm set \<Rightarrow> (string \<times> capacity) set" where
  "holdings J tenant vms = (\<lambda>v. (md_name (metadata v), wanted_by J v)) ` {v \<in> vms. vs_tenant (spec v) = Some tenant}"

lemma within_limit_mono: "within_limit l n \<Longrightarrow> m \<le> n \<Longrightarrow> within_limit l m"
  by (auto simp: within_limit_def split: option.splits)

lemma within_quota_mono:
  assumes "within_quota q B" "finite B" "A \<subseteq> B"
  shows "within_quota q A"
proof -
  have s: "sum f A \<le> sum f B" for f :: "string \<times> capacity \<Rightarrow> nat" by (rule sum_mono2) (use assms in auto)
  have c: "card A \<le> card B" by (rule card_mono [OF assms(2,3)])
  note q = assms(1) [unfolded within_quota_def]
  show ?thesis
    unfolding within_quota_def
    by (intro conjI within_limit_mono [OF _ c] within_limit_mono [OF _ s]) (simp_all add: q)
qed

lemma above_within:
  fixes n :: "'a::len word"
  assumes "\<not> above limit n" "unat n = min k (2 ^ LENGTH('a) - 1)"
  shows "within_limit limit k"
proof (cases limit)
  case (Some w)
  have "min k (2 ^ LENGTH('a) - 1) \<le> unat w" using assms Some by (simp add: above_def not_less word_le_nat_alt)
  moreover have "w = - 1" if "unat w = 2 ^ LENGTH('a) - 1"
    using that by (simp add: word_unat_eq_iff unat_max_word)
  ultimately show ?thesis using unat_le_max [of w] Some by (auto simp: within_limit_def min_def split: if_splits)
qed (simp add: within_limit_def)

lemma usage_plus_simps [simp]:
  "us_vms (usage_plus u s) = sat_add (us_vms u) 1" "us_size (usage_plus u s) = plus_cap (us_size u) s"
  by (simp_all add: usage_plus_def)

lemma foldl_usage:
  "us_vms (foldl (\<lambda>acc vm. usage_plus acc (f vm)) u vms) = foldl (\<lambda>n vm. sat_add n 1) (us_vms u) vms"
  "us_size (foldl (\<lambda>acc vm. usage_plus acc (f vm)) u vms) = foldl plus_cap (us_size u) (map f vms)"
  by (induction vms arbitrary: u) simp_all

lemma unat_foldl_count:
  "unat (foldl (\<lambda>n vm. sat_add n 1) (a :: u32) vms) = min (unat a + length vms) (2 ^ 32 - 1)"
proof (induction vms arbitrary: a)
  case Nil show ?case using unat_le_max [of a] by simp
qed (simp add: unat_sat_add)

lemma usage_foldl:
  "usage_of J t vms except =
     foldl (\<lambda>acc vm. usage_plus acc (wanted_by J vm)) usage_default
       (filter (\<lambda>v. vs_tenant (spec v) = Some t \<and> Some (md_name (metadata v)) \<noteq> except) vms)"
  by (simp add: usage_of_def conj_commute)

lemma unat_usage:
  fixes except :: "string option" and t :: string and vms :: "'j vm list"
  defines "counted \<equiv> filter (\<lambda>v. vs_tenant (spec v) = Some t \<and> Some (md_name (metadata v)) \<noteq> except) vms"
  shows "unat (us_vms (usage_plus (usage_of J t vms except) size1)) = min (length counted + 1) (2 ^ 32 - 1)"
    "unat (vcpus (us_size (usage_plus (usage_of J t vms except) size1)))
       = min ((\<Sum>v\<leftarrow>counted. unat (vcpus (wanted_by J v))) + unat (vcpus size1)) (2 ^ 32 - 1)"
    "unat (mem_mib (us_size (usage_plus (usage_of J t vms except) size1)))
       = min ((\<Sum>v\<leftarrow>counted. unat (mem_mib (wanted_by J v))) + unat (mem_mib size1)) (2 ^ 64 - 1)"
proof -
  have size1: "us_size (usage_of J t vms except) = sum_caps (map (wanted_by J) counted)"
    by (simp add: usage_foldl foldl_usage counted_def usage_default_def sum_caps_def)
  show "unat (us_vms (usage_plus (usage_of J t vms except) size1)) = min (length counted + 1) (2 ^ 32 - 1)"
    by (simp add: usage_foldl foldl_usage counted_def usage_default_def unat_sat_add unat_foldl_count)
  show "unat (vcpus (us_size (usage_plus (usage_of J t vms except) size1)))
       = min ((\<Sum>v\<leftarrow>counted. unat (vcpus (wanted_by J v))) + unat (vcpus size1)) (2 ^ 32 - 1)"
    "unat (mem_mib (us_size (usage_plus (usage_of J t vms except) size1)))
       = min ((\<Sum>v\<leftarrow>counted. unat (mem_mib (wanted_by J v))) + unat (mem_mib size1)) (2 ^ 64 - 1)"
    by (simp_all add: size1 unat_sat_add unat_sum_caps o_def)
qed

lemma sum_of_named:
  assumes "distinct (map (\<lambda>v. md_name (metadata v)) vs)"
  shows "(\<Sum>v\<leftarrow>vs. h (md_name (metadata v), f v)) = (\<Sum>p\<in>(\<lambda>v. (md_name (metadata v), f v)) ` set vs. h p)"
    and "length vs = card ((\<lambda>v. (md_name (metadata v), f v)) ` set vs)"
proof -
  have d: "distinct vs" and inj: "inj_on (\<lambda>v. (md_name (metadata v), f v)) (set vs)"
    using assms by (auto simp: distinct_map inj_on_def)
  show "(\<Sum>v\<leftarrow>vs. h (md_name (metadata v), f v)) = (\<Sum>p\<in>(\<lambda>v. (md_name (metadata v), f v)) ` set vs. h p)"
    using d inj by (simp add: sum.reindex sum_list_distinct_conv_sum_set)
  show "length vs = card ((\<lambda>v. (md_name (metadata v), f v)) ` set vs)"
    using d inj by (simp add: card_image distinct_card)
qed

text \<open>An accepted check bounds what the tenant holds beside the excepted guest, with the new one.\<close>

lemma quota_check_within:
  assumes ok: "quota_check q t (usage_plus (usage_of J t vms except) size1) = Inr ()"
    and d: "distinct (map (\<lambda>v. md_name (metadata v)) vms)"
  shows "within_quota q (insert (n, size1) {h \<in> holdings J t (set vms). Some (fst h) \<noteq> except \<and> fst h \<noteq> n})"
proof -
  let ?vs = "filter (\<lambda>v. vs_tenant (spec v) = Some t \<and> Some (md_name (metadata v)) \<noteq> except) vms"
  let ?H = "{h \<in> holdings J t (set vms). Some (fst h) \<noteq> except}"
    and ?K = "{h \<in> holdings J t (set vms). Some (fst h) \<noteq> except \<and> fst h \<noteq> n}"
  have H: "?H = (\<lambda>v. (md_name (metadata v), wanted_by J v)) ` set ?vs" by (auto simp: holdings_def)
  have dv: "distinct (map (\<lambda>v. md_name (metadata v)) ?vs)" using d by (simp add: distinct_map_filter)
  have fH: "finite ?H" unfolding H by simp
  have sub: "?K \<subseteq> ?H" by auto
  have fK: "finite ?K" by (rule finite_subset [OF sub fH])
  have out: "(n, size1) \<notin> ?K" by auto
  have c: "card (insert (n, size1) ?K) \<le> length ?vs + 1"
    using sum_of_named(2) [OF dv, of "wanted_by J"] card_insert_disjoint [OF fK out] card_mono [OF fH sub]
    unfolding H by simp
  have sums: "(\<Sum>h\<in>insert (n, size1) ?K. f (snd h)) \<le> (\<Sum>v\<leftarrow>?vs. f (wanted_by J v)) + f size1"
    for f :: "capacity \<Rightarrow> nat"
    using sum_of_named(1) [OF dv, of "\<lambda>h. f (snd h)" "wanted_by J"] sum.insert [OF fK out, of "\<lambda>h. f (snd h)"]
      sum_mono2 [OF fH sub, of "\<lambda>h. f (snd h)"]
    unfolding H by simp
  have n: "\<not> above (tq_max_vms q) (us_vms (usage_plus (usage_of J t vms except) size1))"
      "\<not> above (tq_max_vcpus q) (vcpus (us_size (usage_plus (usage_of J t vms except) size1)))"
      "\<not> above (tq_max_mem_mib q) (mem_mib (us_size (usage_plus (usage_of J t vms except) size1)))"
    using ok by (auto simp: quota_check_def split: if_splits)
  show ?thesis
    unfolding within_quota_def
  proof (intro conjI)
    show "within_limit (tq_max_vms q) (card (insert (n, size1) ?K))"
      by (rule within_limit_mono [OF above_within [OF n(1)] c])
        (simp add: unat_usage(1) del: usage_plus_simps)
    show "within_limit (tq_max_vcpus q) (\<Sum>h\<in>insert (n, size1) ?K. unat (vcpus (snd h)))"
      by (rule within_limit_mono [OF above_within [OF n(2)] sums [of "\<lambda>s. unat (vcpus s)"]])
        (simp add: unat_usage(2) del: usage_plus_simps)
    show "within_limit (tq_max_mem_mib q) (\<Sum>h\<in>insert (n, size1) ?K. unat (mem_mib (snd h)))"
      by (rule within_limit_mono [OF above_within [OF n(3)] sums [of "\<lambda>s. unat (mem_mib s)"]])
        (simp add: unat_usage(3) del: usage_plus_simps)
  qed
qed

end
