(* ===== verification/Quota_Safety.thy ===== *)
theory Quota_Safety
  imports Admission Placement_Safety Registry
begin

text \<open>
  Admission between replicas: what the tenants hold, as the store has it, and that no interleaving of
  admissions puts a tenant above its quota. The fence is what carries the argument: as long as it has
  not moved, nobody has added to what the tenant holds.
\<close>

section \<open>What the tenants hold\<close>

definition tenant_holds ::
  "('e, 'b) etcd_ops \<Rightarrow> ('b, 'j) store \<Rightarrow> ('j, 'b) cloud_types \<Rightarrow> string \<Rightarrow> 'e \<Rightarrow> (string \<times> capacity) set" where
  "tenant_holds X S C t e = holdings (st_json S) t {v. stands X S (ct_vm C) e v}"

definition quota_key :: "('b, 'j) store \<Rightarrow> string \<Rightarrow> string" where
  "quota_key S t = st_prefix S @ ''/fences/'' @ quota_fence t"

definition quota_keys :: "('b, 'j) store \<Rightarrow> ('j, 'b) cloud_types \<Rightarrow> string set" where
  "quota_keys S C = {k. in_dir S (ct_vm C) k} \<union> range (obj_key S (ct_tenant C)) \<union> range (quota_key S)"

definition quotas_are ::
  "('e, 'b) etcd_ops \<Rightarrow> ('b, 'j) store \<Rightarrow> ('j, 'b) cloud_types \<Rightarrow> (string \<Rightarrow> tenant_quota) \<Rightarrow> 'e \<Rightarrow> bool" where
  "quotas_are X S C quota e \<longleftrightarrow>
     (\<forall>t x object. et_look X e (obj_key S (ct_tenant C) t) = Some x \<longrightarrow>
        decode (ct_tenant C) (en_value x) (en_mod_revision x) = Inr object \<longrightarrow> ts_quota (spec object) = quota t)"

definition quota_inv ::
  "('e, 'b) etcd_ops \<Rightarrow> ('b, 'j) store \<Rightarrow> ('j, 'b) cloud_types \<Rightarrow> (string \<Rightarrow> tenant_quota) \<Rightarrow> 'e \<Rightarrow> bool" where
  "quota_inv X S C quota e \<longleftrightarrow>
     et_ok X e \<and> (\<exists>vms. directory X S (ct_vm C) e vms) \<and> quotas_are X S C quota e \<and>
     (\<forall>t. within_quota (quota t) (tenant_holds X S C t e))"

text \<open>What anybody does to a tenant's fence: it moves forward, and while it stands still the tenant
  holds no more than before.\<close>

definition fence_step ::
  "('e, 'b) etcd_ops \<Rightarrow> ('b, 'j) store \<Rightarrow> ('j, 'b) cloud_types \<Rightarrow> 'e \<Rightarrow> 'e \<Rightarrow> string \<Rightarrow> bool" where
  "fence_step X S C e e' t \<longleftrightarrow>
     key_moves X (quota_key S t) e e' \<and>
     (et_look X e (quota_key S t) \<noteq> None \<longrightarrow> et_look X e' (quota_key S t) \<noteq> None) \<and>
     (et_look X e' (quota_key S t) = et_look X e (quota_key S t) \<longrightarrow>
        tenant_holds X S C t e' \<subseteq> tenant_holds X S C t e)"

definition quota_rely ::
  "('e, 'b) etcd_ops \<Rightarrow> ('b, 'j) store \<Rightarrow> ('j, 'b) cloud_types \<Rightarrow> (string \<Rightarrow> tenant_quota) \<Rightarrow>
   'e \<times> unit \<Rightarrow> 'e \<times> unit \<Rightarrow> bool" where
  "quota_rely X S C quota s s' \<longleftrightarrow>
     quota_inv X S C quota (fst s) \<and> quota_inv X S C quota (fst s') \<and> (\<forall>t. fence_step X S C (fst s) (fst s') t)"

text \<open>What the rest of the system does: it deletes guests and edits them without making them larger or
  giving them to another tenant, and it moves fences.\<close>

definition quota_env ::
  "('e, 'b) etcd_ops \<Rightarrow> ('b, 'j) store \<Rightarrow> ('j, 'b) cloud_types \<Rightarrow> (string \<Rightarrow> tenant_quota) \<Rightarrow> 'e \<Rightarrow> 'e \<Rightarrow> bool" where
  "quota_env X S C quota e e' \<longleftrightarrow>
     et_ok X e' \<and> (\<exists>vms. directory X S (ct_vm C) e' vms) \<and> quotas_are X S C quota e' \<and>
     (\<forall>t. key_moves X (quota_key S t) e e' \<and>
          (et_look X e (quota_key S t) \<noteq> None \<longrightarrow> et_look X e' (quota_key S t) \<noteq> None) \<and>
          tenant_holds X S C t e' \<subseteq> tenant_holds X S C t e)"

definition cloud_registry :: "('j, 'b) cloud_types \<Rightarrow> bool" where
  "cloud_registry C \<longleftrightarrow>
     (\<exists>r tv fs. ct_vm C = vm_resource r tv fs) \<and> (\<exists>tv fs. ct_tenant C = tenant_resource tv fs) \<and>
     (\<exists>tv fs. ct_event C = event_resource tv fs)"

text \<open>The programs: the last stage of a creation, in which the guest belongs to its owner, and of an
  update, which is addressed to the guest's own name.\<close>

definition admits :: "('b, 'j) store \<Rightarrow> ('j, 'b) cloud_types \<Rightarrow> ('b, api_error + 'j vm) io \<Rightarrow> bool" where
  "admits S C m \<longleftrightarrow>
     (\<exists>dry owner vm. m = admit_create S C dry owner vm \<and> vs_tenant (spec vm) = Some owner) \<or>
     (\<exists>dry body. m = admit_update S C dry (obj_name body) body)"

lemma finite_holds: "quota_inv X S C quota e \<Longrightarrow> finite (tenant_holds X S C t e)"
proof -
  assume "quota_inv X S C quota e"
  then obtain vms where "directory X S (ct_vm C) e vms" by (auto simp: quota_inv_def)
  from directoryD(2) [OF this] have "{v. stands X S (ct_vm C) e v} = set vms" by auto
  then show ?thesis by (simp add: tenant_holds_def holdings_def)
qed

lemma quota_key_inject [simp]: "quota_key S t = quota_key S u \<longleftrightarrow> t = u"
  by (simp add: quota_key_def quota_fence_def)

lemma quota_key_apart [simp]: "\<not> in_dir S T (quota_key S t)" "quota_key S t \<noteq> obj_key S T n" "obj_key S T n \<noteq> quota_key S t"
  by (auto simp: in_dir_def quota_key_def obj_key_def store_dir_def store_key_def prefix_def)

locale admitting = etcd X for X :: "('e, 'b) etcd_ops" +
  fixes S :: "('b, 'j) store" and C :: "('j, 'b) cloud_types" and quota :: "string \<Rightarrow> tenant_quota"
  assumes types: "cloud_registry C" and vm_codec: "codec (ct_vm C)"
begin

abbreviation (input) inv where "inv \<equiv> quota_inv X S C quota"
abbreviation (input) rely where "rely \<equiv> quota_rely X S C quota"

lemma vm_type: "RESOURCE (ct_vm C) = ''vms''" "metadata (settle (ct_vm C) now v) = metadata v"
    "spec (settle (ct_vm C) now v) = spec v"
  and tenant_type: "RESOURCE (ct_tenant C) = ''tenants''"
  and event_type: "RESOURCE (ct_event C) = ''events''"
  using types by (auto simp: cloud_registry_def vm_resource_def tenant_resource_def event_resource_def vm_settle_def)

lemma tenant_apart: "\<not> in_dir S (ct_vm C) (obj_key S (ct_tenant C) t)"
  using in_other_dir [of "ct_tenant C" "ct_vm C" S "obj_key S (ct_tenant C) t"] vm_type(1) tenant_type by simp

text \<open>A fence that stands at the end as it stood at the beginning has not moved in between.\<close>

lemma fence_between:
  assumes "et_ok X e1" "fence_step X S C e1 e2 t" "fence_step X S C e2 e3 t"
    and same: "et_look X e3 (quota_key S t) = et_look X e1 (quota_key S t)"
  shows "et_look X e2 (quota_key S t) = et_look X e1 (quota_key S t)"
proof (cases "et_look X e1 (quota_key S t)")
  case None then show ?thesis using assms(3) same by (auto simp: fence_step_def)
next
  case (Some x)
  have "et_look X e2 (quota_key S t) = Some x \<or> et_head X e2 < en_mod_revision x"
    using assms(3) same Some by (auto simp: fence_step_def key_moves_def)
  moreover have "en_mod_revision x \<le> et_head X e2"
    using revisions [OF assms(1) Some] assms(2) by (auto simp: fence_step_def key_moves_def)
  ultimately show ?thesis using Some by simp
qed

lemma rely_inv: "rely s s' \<Longrightarrow> inv (fst s')"
  by (simp add: quota_rely_def)

lemma quota_rely_refl: "inv e \<Longrightarrow> rely (e, g) (e, g')"
  by (simp add: quota_rely_def fence_step_def key_moves_same)

lemma quota_rely_trans: "rely s1 s2 \<Longrightarrow> rely s2 s3 \<Longrightarrow> rely s1 s3"
proof -
  assume r: "rely s1 s2" "rely s2 s3"
  have ok: "et_ok X (fst s1)" using r(1) by (simp add: quota_rely_def quota_inv_def)
  have "fence_step X S C (fst s1) (fst s3) t" for t
  proof -
    have st: "fence_step X S C (fst s1) (fst s2) t" "fence_step X S C (fst s2) (fst s3) t"
      using r by (simp_all add: quota_rely_def)
    show ?thesis
      using st fence_between [OF ok st] key_moves_trans [of X "quota_key S t" "fst s1" "fst s2" "fst s3"]
      by (auto simp: fence_step_def)
  qed
  then show ?thesis using r by (simp add: quota_rely_def)
qed

text \<open>A step that leaves the keys alone.\<close>

lemma step_away:
  assumes i: "inv e" and out: "outside X (quota_keys S C) e e'"
  shows "rely (e, g) (e', g')"
proof -
  obtain vms where d: "directory X S (ct_vm C) e vms" using i by (auto simp: quota_inv_def)
  have same: "et_look X e' k = et_look X e k" if "k \<in> quota_keys S C" for k
    using out that by (simp add: outside_def)
  have d': "directory X S (ct_vm C) e' vms"
    by (rule directory_away [OF d]) (simp add: same quota_keys_def)
  have "stands X S (ct_vm C) e' v \<longleftrightarrow> stands X S (ct_vm C) e v" for v
    using directoryD(2) [OF d] directoryD(2) [OF d'] by blast
  then have holds: "tenant_holds X S C t e' = tenant_holds X S C t e" for t by (simp add: tenant_holds_def)
  have q: "quotas_are X S C quota e'"
    using i same [of "obj_key S (ct_tenant C) t" for t]
    by (auto simp: quota_inv_def quotas_are_def quota_keys_def)
  have "key_moves X (quota_key S t) e e'" "et_look X e' (quota_key S t) = et_look X e (quota_key S t)" for t
    using out by (auto simp: outside_def quota_keys_def intro: key_moves_same)
  then show ?thesis
    using i d' q out by (auto simp: quota_rely_def quota_inv_def fence_step_def holds outside_def)
qed

lemma env_step:
  assumes i: "inv e" and env: "quota_env X S C quota e e'"
  shows "rely (e, g) (e', g')"
proof -
  have "within_quota (quota t) (tenant_holds X S C t e')" for t
    by (rule within_quota_mono [OF _ finite_holds [OF i, of t]]) (use i env in \<open>auto simp: quota_inv_def quota_env_def\<close>)
  then show ?thesis using i env by (auto simp: quota_rely_def quota_env_def fence_step_def quota_inv_def)
qed

end

sublocale admitting \<subseteq> rep: replica X "quota_rely X S C quota" "quota_rely X S C quota"
proof unfold_locales
  fix s s1 s2 s3 e g e'
  show "quota_rely X S C quota s (e, g) \<Longrightarrow> et_ok X e" by (simp add: quota_rely_def quota_inv_def)
  show "quota_rely X S C quota s1 s2 \<Longrightarrow> quota_rely X S C quota s2 s3 \<Longrightarrow> quota_rely X S C quota s1 s3"
    by (rule quota_rely_trans)
  show "quota_rely X S C quota s1 s2 \<Longrightarrow> quota_rely X S C quota s2 s2"
    using quota_rely_refl [of "fst s2" "snd s2" "snd s2"] by (simp add: quota_rely_def)
  assume r: "quota_rely X S C quota s (e, g)" and "et_ok X e'" "unchanged X e e'"
  then have "outside X (quota_keys S C) e e'" by (auto simp: outside_def unchanged_def)
  then have "quota_rely X S C quota (e, g) (e', g)" using step_away rely_inv [OF r] by simp
  then show "quota_rely X S C quota s (e', g) \<and> quota_rely X S C quota (e, g) (e', g)"
    using quota_rely_trans [OF r] by blast
qed

section \<open>The requests of an admission\<close>

definition fenced_put ::
  "('e, 'b) etcd_ops \<Rightarrow> 'e \<Rightarrow> string \<Rightarrow> 'b \<Rightarrow> string \<Rightarrow> 'b \<Rightarrow> 'e \<Rightarrow> bool" where
  "fenced_put X e k v fk w e' \<longleftrightarrow>
     et_ok X e' \<and> et_head X e' = et_head X e + 1 \<and>
     et_look X e' = (et_look X e)(k \<mapsto> put_entry (et_head X e + 1) k v (et_look X e),
                                  fk \<mapsto> put_entry (et_head X e + 1) fk w (et_look X e))"

context replica
begin

lemma fence_rule:
  assumes "\<And>e g err. R s (e, g) \<Longrightarrow> Q (Inl err) (e, g)"
    and "\<And>e g. R s (e, g) \<Longrightarrow>
      Q (Inr \<lparr>fence_key = st_prefix S @ ''/fences/'' @ name, fence_revision =
           (case et_look X e (st_prefix S @ ''/fences/'' @ name) of None \<Rightarrow> 0 | Some x \<Rightarrow> en_mod_revision x)\<rparr>) (e, g)"
  shows "guarded X R G (store_fence S name) Q s"
  unfolding store_fence_def Let_def
proof (rule timed_reading, goal_cases)
  case (3 e g r a)
  then show ?case using assms(2) [OF 3(1)] by (cases r) (auto simp: kv_at_def kv_of_def split: option.splits)
qed (simp_all add: assms(1))

lemma list_counted_rule:
  assumes "\<And>e g err. R s (e, g) \<Longrightarrow> Q (Inl err) (e, g)"
    and "\<And>e g kvs. R s (e, g) \<Longrightarrow> is_range (et_look X e) (store_dir S (RESOURCE T)) kvs \<Longrightarrow>
      Q (Inr (decode_range T kvs, length kvs)) (e, g)"
  shows "guarded X R G (list_counted S T) Q s"
  unfolding list_counted_def
proof (rule timed_reading, goal_cases)
  case (3 e g r a)
  then show ?case using assms(2) [OF 3(1)] by (cases r) auto
qed (simp_all add: assms(1))

lemma fenced_rule:
  assumes ro: "\<not> list_ex is_write b" and apart: "k \<noteq> fk" and R: "R = G"
    and put: "\<And>e g e'. R s (e, g) \<Longrightarrow> list_all (compare_holds (et_look X e)) cs \<Longrightarrow>
      fenced_put X e k v fk w e' \<Longrightarrow> \<exists>g'. R (e, g) (e', g')"
    and out: "\<And>err s'. R s s' \<Longrightarrow> Q (Inl err) s'" and after: "\<And>t s'. R s s' \<Longrightarrow> guarded X R G (f t) Q s'"
  shows "guarded X R G (try_then (timed what (ReqTxn cs [OpPut k v opt, OpPut fk w PutPlain] b) rep_txn) f) Q s"
proof (rule timed_txn)
  have step: "\<exists>g'. G (e, g) (e', g') \<and> R s (e', g')"
    if r: "R s (e, g)" and t: "txn_runs X e cs [OpPut k v opt, OpPut fk w PutPlain] b e'" and ok: "et_ok X e'" for e g e'
  proof (cases "list_all (compare_holds (et_look X e)) cs")
    case True
    then have "fenced_put X e k v fk w e'"
      using t ok apart by (auto simp: txn_runs_def txn_branch_def fenced_put_def put_entry_def Let_def)
    then show ?thesis using put [OF r True] rely_trans [OF r] R by blast
  next
    case False
    then show ?thesis using txn_stale [OF r ok t False ro] by blast
  qed
  show "\<exists>g'. G (e, g) (e', g') \<and> Q (Inl err) (e', g')"
    if "R s (e, g)" "txn_runs X e cs [OpPut k v opt, OpPut fk w PutPlain] b e'" "et_ok X e'" for e g e' err
    using step [OF that] out by blast
  show "\<exists>g'. G (e, g) (e', g') \<and> guarded X R G (f t) Q (e', g')"
    if "R s (e, g)" "txn_runs X e cs [OpPut k v opt, OpPut fk w PutPlain] b e'" "et_ok X e'" for e g t e'
    using step [OF that] after by blast
qed (rule out)

end

context admitting
begin

text \<open>A guest is written: what its tenant holds is what it held beside it, and the guest.\<close>

lemma holds_written:
  assumes d: "directory X S (ct_vm C) e vms" and y: "et_look X e' (obj_key S (ct_vm C) (obj_name v)) = Some y"
      "decode (ct_vm C) (en_value y) (en_mod_revision y) = Inr v"
    and same: "\<And>k. in_dir S (ct_vm C) k \<Longrightarrow> k \<noteq> obj_key S (ct_vm C) (obj_name v) \<Longrightarrow> et_look X e' k = et_look X e k"
  shows "tenant_holds X S C t e' =
     {(n, c). n = obj_name v \<and> c = wanted_by (st_json S) v \<and> vs_tenant (spec v) = Some t} \<union>
     {h \<in> tenant_holds X S C t e. fst h \<noteq> obj_name v}"
proof -
  have "stands X S (ct_vm C) e' o1 \<longleftrightarrow> o1 = v \<or> stands X S (ct_vm C) e o1 \<and> obj_name o1 \<noteq> obj_name v" for o1
  proof -
    have "directory X S (ct_vm C) e' (filter (\<lambda>o1. obj_name o1 \<noteq> obj_name v) vms @ [v])"
      by (rule directory_written [OF d y]) (rule same)
    from directoryD(2) [OF this, of o1] show ?thesis using directoryD(2) [OF d, of o1] by auto
  qed
  then show ?thesis by (auto simp: tenant_holds_def holdings_def image_iff)
qed

lemma step_written:
  assumes i: "inv e" and ok: "et_ok X e'" and head: "et_head X e \<le> et_head X e'"
    and y: "et_look X e' (obj_key S (ct_vm C) (obj_name v)) = Some y"
      "decode (ct_vm C) (en_value y) (en_mod_revision y) = Inr v"
    and same: "\<And>k. k \<in> quota_keys S C \<Longrightarrow> k \<noteq> obj_key S (ct_vm C) (obj_name v) \<Longrightarrow>
      (\<And>t. vs_tenant (spec v) = Some t \<Longrightarrow> k \<noteq> quota_key S t) \<Longrightarrow> et_look X e' k = et_look X e k"
    and fence: "\<And>t. vs_tenant (spec v) = Some t \<Longrightarrow>
      (\<exists>z. et_look X e' (quota_key S t) = Some z \<and> et_head X e < en_mod_revision z) \<and>
      within_quota (quota t) (insert (obj_name v, wanted_by (st_json S) v) {h \<in> tenant_holds X S C t e. fst h \<noteq> obj_name v})"
  shows "rely (e, g) (e', g')"
proof -
  obtain vms where d: "directory X S (ct_vm C) e vms" using i by (auto simp: quota_inv_def)
  have same_dir: "et_look X e' k = et_look X e k"
    if "in_dir S (ct_vm C) k" "k \<noteq> obj_key S (ct_vm C) (obj_name v)" for k
    by (rule same) (use that quota_key_apart(1) in \<open>auto simp: quota_keys_def\<close>)
  have held: "tenant_holds X S C t e' =
     {(n, c). n = obj_name v \<and> c = wanted_by (st_json S) v \<and> vs_tenant (spec v) = Some t} \<union>
     {h \<in> tenant_holds X S C t e. fst h \<noteq> obj_name v}" for t
    by (rule holds_written [OF d y]) (rule same_dir)
  have d': "directory X S (ct_vm C) e' (filter (\<lambda>o1. obj_name o1 \<noteq> obj_name v) vms @ [v])"
    by (rule directory_written [OF d y]) (rule same_dir)
  have less: "{h \<in> tenant_holds X S C t e. fst h \<noteq> obj_name v} \<subseteq> tenant_holds X S C t e" for t by auto
  have more: "within_quota (quota t) (tenant_holds X S C t e')" for t
  proof (cases "vs_tenant (spec v) = Some t")
    case True
    then have "tenant_holds X S C t e' =
        insert (obj_name v, wanted_by (st_json S) v) {h \<in> tenant_holds X S C t e. fst h \<noteq> obj_name v}"
      unfolding held by auto
    then show ?thesis using fence [OF True] by simp
  next
    case False
    then show ?thesis
      using within_quota_mono [OF _ finite_holds [OF i] less, of "quota t" t] i unfolding held by (simp add: quota_inv_def)
  qed
  have tenants: "quotas_are X S C quota e'"
  proof -
    have "et_look X e' (obj_key S (ct_tenant C) t) = et_look X e (obj_key S (ct_tenant C) t)" for t
      by (rule same) (use tenant_apart [of t] in_dir_key [of S "ct_vm C" "obj_name v"] in \<open>auto simp: quota_keys_def\<close>)
    then show ?thesis using i by (simp add: quota_inv_def quotas_are_def)
  qed
  have "fence_step X S C e e' t" for t
  proof (cases "vs_tenant (spec v) = Some t")
    case True
    obtain z where "et_look X e' (quota_key S t) = Some z" "et_head X e < en_mod_revision z" using fence [OF True] by blast
    moreover have "et_look X e (quota_key S t) \<noteq> Some z"
      using revisions [of e "quota_key S t" z] i calculation(2) by (auto simp: quota_inv_def)
    ultimately show ?thesis using head by (auto simp: fence_step_def key_moves_def)
  next
    case False
    have "et_look X e' (quota_key S t) = et_look X e (quota_key S t)"
      by (rule same) (use False in \<open>auto simp: quota_keys_def\<close>)
    then show ?thesis using False head by (auto simp: fence_step_def key_moves_same held)
  qed
  then show ?thesis
    using i ok tenants more d' by (auto simp: quota_rely_def quota_inv_def)
qed

text \<open>What the store wrote reads back as the guest that was admitted.\<close>

lemma wrote:
  assumes "encode (ct_vm C) obj now = Inr b"
  obtains v where "decode (ct_vm C) b r = Inr v" "obj_name v = obj_name obj" "spec v = spec obj"
  using codec.decode_encode [OF vm_codec assms, of r] vm_type by (auto simp: Let_def)

lemma step_fenced:
  assumes i: "inv e" and put: "fenced_put X e (obj_key S (ct_vm C) (obj_name obj)) b (quota_key S t) w e'"
    and b: "encode (ct_vm C) obj now = Inr b" and t: "vs_tenant (spec obj) = Some t"
    and room: "within_quota (quota t)
      (insert (obj_name obj, wanted_by (st_json S) obj) {h \<in> tenant_holds X S C t e. fst h \<noteq> obj_name obj})"
  shows "rely (e, g) (e', g')"
proof -
  obtain v where v: "decode (ct_vm C) b (et_head X e + 1) = Inr v" "obj_name v = obj_name obj" "spec v = spec obj"
    by (rule wrote [OF b])
  have w: "wanted_by (st_json S) v = wanted_by (st_json S) obj" using v(3) by (simp add: wanted_by_def)
  show ?thesis
    by (rule step_written [OF i, where v = v])
      (use put v w t room in \<open>auto simp: fenced_put_def put_entry_def\<close>)
qed

lemma step_untenanted:
  assumes i: "inv e" and put: "puts X e (obj_key S (ct_vm C) (obj_name obj)) b e'"
    and b: "encode (ct_vm C) obj now = Inr b" and t: "vs_tenant (spec obj) = None"
  shows "rely (e, g) (e', g')"
proof -
  obtain v where v: "decode (ct_vm C) b (et_head X e + 1) = Inr v" "obj_name v = obj_name obj" "spec v = spec obj"
    by (rule wrote [OF b])
  show ?thesis
    by (rule step_written [OF i, where v = v]) (use put v t in \<open>auto simp: puts_def put_entry_def\<close>)
qed

section \<open>The programs\<close>

lemma away_ok:
  assumes i: "inv (fst s)" and out: "\<And>a s'. rely s s' \<Longrightarrow> Q a s'" and m: "avoids (quota_keys S C) m"
  shows "guarded X rely rely m Q s"
proof (rule rep.avoiding_rule [OF _ _ _ m])
  show "\<exists>g'. rely (e, g) (e', g') \<and> rely s (e', g')"
    if "rely s (e, g)" "outside X (quota_keys S C) e e'" for s e g e'
    using step_away [OF _ that(2)] rely_inv [OF that(1)] quota_rely_trans [OF that(1)] by fastforce
  show "rely s s" using quota_rely_refl [OF i, of "snd s" "snd s"] by (cases s) simp
qed (rule out)

lemma events_avoid: "avoids (quota_keys S C) (record_event S (ct_event C) h)"
proof -
  have key: "store_key S (RESOURCE (ct_event C)) n \<notin> quota_keys S C" for n
  proof -
    have "in_dir S (ct_event C) (obj_key S (ct_event C) n)" by simp
    then have "\<not> in_dir S (ct_vm C) (obj_key S (ct_event C) n)" "\<not> in_dir S (ct_tenant C) (obj_key S (ct_event C) n)"
      using in_other_dir [of "ct_event C" "ct_vm C" S] in_other_dir [of "ct_event C" "ct_tenant C" S]
        vm_type(1) tenant_type event_type by simp_all
    then have "obj_key S (ct_event C) n \<notin> quota_keys S C"
      using in_dir_key [of S "ct_tenant C"] by (auto simp: quota_keys_def)
    then show ?thesis by (simp add: obj_key_def)
  qed
  show ?thesis
    unfolding record_event_def create_with_ttl_def Let_def mutate_def
    by (intro avoids_now avoids_uid avoids_and_then avoids_try_timed avoids_create key)
      (auto simp: request_writes_def split: sum.splits store_error.splits
        intro!: avoids_and_then avoids_mutate_loop key)
qed

text \<open>What a passed check is worth: as long as its fence stands, the guest fits.\<close>

definition admissible :: "fence \<Rightarrow> string \<Rightarrow> string \<Rightarrow> capacity \<Rightarrow> 'e \<Rightarrow> bool" where
  "admissible fence t n size1 e \<longleftrightarrow>
     fence_key fence = quota_key S t \<and>
     (\<forall>e'. rely (e, ()) (e', ()) \<longrightarrow>
        compare_holds (et_look X e') (ModRevisionEq (fence_key fence) (fence_revision fence)) \<longrightarrow>
        within_quota (quota t) (insert (n, size1) {h \<in> tenant_holds X S C t e'. fst h \<noteq> n}))"

lemma fence_still:
  assumes r: "rely (e1, ()) (e2, ())" "rely (e2, ()) (e3, ())"
    and now: "compare_holds (et_look X e3) (ModRevisionEq (quota_key S t)
      (case et_look X e1 (quota_key S t) of None \<Rightarrow> 0 | Some x \<Rightarrow> en_mod_revision x))"
  shows "tenant_holds X S C t e3 \<subseteq> tenant_holds X S C t e2"
proof -
  let ?k = "quota_key S t"
  have ok: "et_ok X e1" "et_ok X e3" using r by (simp_all add: quota_rely_def quota_inv_def)
  have st: "fence_step X S C e1 e2 t" "fence_step X S C e2 e3 t" "fence_step X S C e1 e3 t"
    using r quota_rely_trans [OF r] by (simp_all add: quota_rely_def)
  have same: "et_look X e3 ?k = et_look X e1 ?k"
  proof (cases "et_look X e1 ?k")
    case None
    then show ?thesis using now revisions [OF ok(2), of ?k] by (fastforce split: option.splits)
  next
    case (Some x)
    then have "0 < en_mod_revision x" "en_mod_revision x \<le> et_head X e1"
      using revisions [OF ok(1) Some] by auto
    then obtain y where "et_look X e3 ?k = Some y" "en_mod_revision y = en_mod_revision x"
      using now Some by (auto split: option.splits)
    then show ?thesis
      using key_moves_found [of X ?k e1 e3 x y] st(3) Some \<open>en_mod_revision x \<le> et_head X e1\<close>
      by (simp add: fence_step_def)
  qed
  then show ?thesis using fence_between [OF ok(1) st(1,2) same] st(2) by (simp add: fence_step_def)
qed

lemma listed_ok:
  assumes r: "rely (e1, ()) (e3, ())" and kvs: "is_range (et_look X e3) (store_dir S (RESOURCE (ct_vm C))) kvs"
    and accepted: "quota_check (quota t) t (usage_plus (usage_of (st_json S) t (decode_range (ct_vm C) kvs) except) adding) = Inr ()"
    and except: "except = None \<or> except = Some n"
  shows "admissible \<lparr>fence_key = quota_key S t, fence_revision =
      (case et_look X e1 (quota_key S t) of None \<Rightarrow> 0 | Some x \<Rightarrow> en_mod_revision x)\<rparr> t n adding e3"
  unfolding admissible_def fence.select_convs
proof (intro conjI refl allI impI)
  fix e'
  assume r': "rely (e3, ()) (e', ())" and still1: "compare_holds (et_look X e') (ModRevisionEq (quota_key S t)
      (case et_look X e1 (quota_key S t) of None \<Rightarrow> 0 | Some x \<Rightarrow> en_mod_revision x))"
  obtain vms where d: "directory X S (ct_vm C) e3 vms" using r by (auto simp: quota_rely_def quota_inv_def)
  let ?vms = "decode_range (ct_vm C) kvs"
  have m: "mset ?vms = mset vms" by (rule directory_range [OF d kvs])
  then have d3: "directory X S (ct_vm C) e3 ?vms" by (rule directory_perm [OF d])
  have there: "holdings (st_json S) t (set ?vms) = tenant_holds X S C t e3"
  proof -
    have "set ?vms = {v. stands X S (ct_vm C) e3 v}" using directoryD(2) [OF d3] by auto
    then show ?thesis by (simp add: tenant_holds_def)
  qed
  have beside: "{h \<in> tenant_holds X S C t e3. Some (fst h) \<noteq> except \<and> fst h \<noteq> n} = {h \<in> tenant_holds X S C t e3. fst h \<noteq> n}"
    using except by auto
  have in3: "within_quota (quota t) (insert (n, adding) {h \<in> tenant_holds X S C t e3. fst h \<noteq> n})"
    using quota_check_within [OF accepted directoryD(1) [OF d3], of n] unfolding there beside .
  have "finite (tenant_holds X S C t e3)" using finite_holds rely_inv [OF r] by simp
  then show "within_quota (quota t) (insert (n, adding) {h \<in> tenant_holds X S C t e'. fst h \<noteq> n})"
    by (intro within_quota_mono [OF in3]) (use fence_still [OF r r' still1] in auto)
qed

lemma unlimited_ok:
  assumes "is_unset (quota t)" "fence_key fence = quota_key S t"
  shows "admissible fence t n adding e"
  using assms by (simp add: admissible_def is_unset_def within_quota_def within_limit_def)

lemma check_ok:
  assumes except: "except = None \<or> except = Some n"
    and no: "\<And>err s'. rely s s' \<Longrightarrow> Q (Inl err) s'" and free: "tenant = None \<Longrightarrow> Q (Inr None) s"
    and yes: "\<And>t fence s'. tenant = Some t \<Longrightarrow> rely s s' \<Longrightarrow> admissible fence t n adding (fst s') \<Longrightarrow> Q (Inr (Some fence)) s'"
  shows "guarded X rely rely (check_quota S C tenant adding except) Q s"
proof (cases tenant)
  case None then show ?thesis using free by (simp add: check_quota_def)
next
  case (Some t)
  have listed: "guarded X rely rely
      (and_then (list_counted S (ct_vm C)) (\<lambda>r. case r of Inl e \<Rightarrow> Done (Inl (api_error_of_store e)) | Inr x \<Rightarrow> f x)) Q (e2, g2)"
    if r: "rely s (e2, g2)" and f: "\<And>e g kvs. rely (e2, g2) (e, g) \<Longrightarrow>
        is_range (et_look X e) (store_dir S (RESOURCE (ct_vm C))) kvs \<Longrightarrow>
        guarded X rely rely (f (decode_range (ct_vm C) kvs, length kvs)) Q (e, g)" for e2 g2 f
    unfolding guarded_and_then
    by (rule rep.list_counted_rule) (use no quota_rely_trans [OF r] f in auto)
  show ?thesis
    unfolding check_quota_def Some option.case try_api_def guarded_and_then
  proof (rule rep.fence_rule, goal_cases)
    case (1 e g err) then show ?case using no by simp
  next
    case (2 e1 g)
    note r1 = 2
    show ?case
      unfolding sum.case quota_key_def [symmetric] guarded_and_then
    proof (rule rep.get_rule, goal_cases)
      case (1 e2 g2 err) then show ?case using no quota_rely_trans [OF r1] by auto
    next
      case (2 e2 g2) then show ?case using no quota_rely_trans [OF r1] by auto
    next
      case (3 e2 g2 x)
      note r2 = quota_rely_trans [OF r1 3(1)]
      show ?case
      proof (cases "decode (ct_tenant C) (en_value x) (en_mod_revision x)")
        case (Inl err) then show ?thesis using no [OF r2] by simp
      next
        case (Inr object)
        have q: "ts_quota (spec object) = quota t"
          using rely_inv [OF r2] 3(2) Inr by (auto simp: quota_inv_def quotas_are_def obj_key_def)
        show ?thesis
        proof (cases "is_unset (quota t)")
          case True
          then show ?thesis using Inr q yes [OF Some r2] unlimited_ok by simp
        next
          case False
          show ?thesis
            unfolding Inr sum.case q if_not_P [OF False] try_api_def
          proof (rule listed [OF r2], goal_cases)
            case (1 e3 g3 kvs)
            note r3 = quota_rely_trans [OF r2 1(1)] and r13 = quota_rely_trans [OF 3(1) 1(1)]
            let ?vms = "decode_range (ct_vm C) kvs"
            let ?check = "quota_check (quota t) t (usage_plus (usage_of (st_json S) t ?vms except) adding)"
            have refuse: "guarded X rely rely (and_then (record_event S (ct_event C) h) (\<lambda>_. Done (Inl why))) Q (e3, g3)" for h why
              unfolding guarded_and_then
              by (rule away_ok [OF _ _ events_avoid]) (use rely_inv [OF r3] no quota_rely_trans [OF r3] in auto)
            have "?check = Inr () \<Longrightarrow> Q (Inr (Some \<lparr>fence_key = quota_key S t, fence_revision =
                (case et_look X e1 (quota_key S t) of None \<Rightarrow> 0 | Some x \<Rightarrow> en_mod_revision x)\<rparr>)) (e3, g3)"
              by (rule yes [OF Some r3]) (use listed_ok [OF _ 1(2) _ except] r13 in auto)
            then show ?case using refuse no [OF r3] by (auto split: sum.splits)
          qed
        qed
      qed
    qed
  qed
qed

text \<open>The two fenced writes.\<close>

lemma fenced_write_ok:
  assumes adm: "admissible fence t (obj_name obj) (wanted_by (st_json S) obj) (fst s)" and t: "vs_tenant (spec obj) = Some t"
    and b: "encode (ct_vm C) obj now = Inr b" and r: "rely s s1" and ro: "\<not> list_ex is_write ops"
    and out: "\<And>a s'. rely s s' \<Longrightarrow> Q a s'" and f: "\<And>resp. avoids (quota_keys S C) (f resp)"
  shows "guarded X rely rely (try_then (timed what (ReqTxn
      [c, ModRevisionEq (fence_key fence) (fence_revision fence)]
      [OpPut (store_key S (RESOURCE (ct_vm C)) (obj_name obj)) b opt, OpPut (fence_key fence) w PutPlain] ops) rep_txn) f) Q s1"
proof (rule rep.fenced_rule [OF ro _ refl])
  have key: "fence_key fence = quota_key S t" using adm by (simp add: admissible_def)
  show "store_key S (RESOURCE (ct_vm C)) (obj_name obj) \<noteq> fence_key fence"
    using quota_key_apart(3) [of S "ct_vm C" "obj_name obj" t] by (simp add: key obj_key_def)
  fix e g e'
  assume e: "rely s1 (e, g)" and cs: "list_all (compare_holds (et_look X e)) [c, ModRevisionEq (fence_key fence) (fence_revision fence)]"
    and put: "fenced_put X e (store_key S (RESOURCE (ct_vm C)) (obj_name obj)) b (fence_key fence) w e'"
  have r': "rely (fst s, ()) (e, ())" using quota_rely_trans [OF r e] by (simp add: quota_rely_def)
  have "within_quota (quota t) (insert (obj_name obj, wanted_by (st_json S) obj) {h \<in> tenant_holds X S C t e. fst h \<noteq> obj_name obj})"
    using adm r' cs by (auto simp: admissible_def)
  then show "\<exists>g'. rely (e, g) (e', g')"
    using step_fenced [OF _ _ b t] rely_inv [OF r'] put by (auto simp: key obj_key_def)
next
  show "Q (Inl err) s'" if "rely s1 s'" for err s' using out quota_rely_trans [OF r that] by blast
  show "guarded X rely rely (f resp) Q s'" if "rely s1 s'" for resp s'
    using quota_rely_trans [OF r that] out quota_rely_trans f
    by (intro away_ok [OF rely_inv [OF that]]) blast+
qed

lemma avoids_some_written: "avoids K (map_some (written S T n b resp))"
  unfolding map_some_def try_then_def by (intro avoids_and_then avoids_written) (auto split: sum.splits)

lemma create_fenced_ok:
  assumes adm: "admissible fence t (obj_name obj) (wanted_by (st_json S) obj) (fst s)" and t: "vs_tenant (spec obj) = Some t"
    and i: "inv (fst s)" and out: "\<And>a s'. rely s s' \<Longrightarrow> Q a s'"
  shows "guarded X rely rely (create_fenced S (ct_vm C) obj fence) Q s"
proof -
  let ?first = "obj\<lparr>metadata := metadata obj\<lparr>md_generation := 1\<rparr>\<rparr>"
  have here: "Q a s" for a using out quota_rely_refl [OF i, of "snd s" "snd s"] by (cases s) simp
  have adm1: "admissible fence t (obj_name ?first) (wanted_by (st_json S) ?first) (fst s)" and t1: "vs_tenant (spec ?first) = Some t"
    using adm t by (simp_all add: wanted_by_def)
  have name: "obj_name ?first = obj_name obj" by simp
  show ?thesis
    unfolding create_fenced_def Let_def try_val_def
  proof (cases "check_name (obj_name obj) (NAME_SHAPE (ct_vm C))", goal_cases)
    case (1 e) then show ?case using here by simp
  next
    case (2 u)
    show ?case
      unfolding 2 sum.case
    proof (rule rep.now_rule, goal_cases)
      case (1 e g now)
      show ?case
      proof (cases "encode (ct_vm C) ?first now")
        case (Inl err) then show ?thesis using out [OF 1] by simp
      next
        case (Inr b)
        show ?thesis
          unfolding Inr sum.case
          by (rule fenced_write_ok [OF adm1 t1 Inr 1, unfolded name])
            (auto intro: out avoids_some_written split: option.splits bool.splits)
      qed
    qed
  qed
qed

lemma update_fenced_ok:
  assumes adm: "admissible fence t (obj_name obj) (wanted_by (st_json S) obj) (fst s)" and t: "vs_tenant (spec obj) = Some t"
    and i: "inv (fst s)" and out: "\<And>a s'. rely s s' \<Longrightarrow> Q a s'"
  shows "guarded X rely rely (update_fenced S (ct_vm C) obj fence) Q s"
proof -
  have here: "Q a s" for a using out quota_rely_refl [OF i, of "snd s" "snd s"] by (cases s) simp
  have put: "guarded X rely rely (case encode (ct_vm C) obj now of Inl e \<Rightarrow> Done (Inl e) | Inr b \<Rightarrow>
      try_then (timed ''update'' (ReqTxn
        [c, ModRevisionEq (fence_key fence) (fence_revision fence)]
        [OpPut (store_key S (RESOURCE (ct_vm C)) (obj_name obj)) b opt, OpPut (fence_key fence) w PutPlain] [OpGet k]) rep_txn) (f b)) Q (e, g)"
    if "rely s (e, g)" "\<And>b resp. avoids (quota_keys S C) (f b resp)" for e g now c opt w k f
  proof (cases "encode (ct_vm C) obj now")
    case (Inl err) then show ?thesis using out [OF that(1)] by simp
  next
    case (Inr b)
    show ?thesis
      unfolding Inr sum.case by (rule fenced_write_ok [OF adm t Inr that(1)]) (simp_all add: out that(2))
  qed
  show ?thesis
    unfolding update_fenced_def Let_def try_val_def
    by (auto intro!: here rep.now_rule put avoids_some_written split: sum.split option.split)
qed

lemma update_ok:
  assumes t: "vs_tenant (spec obj) = None" and i: "inv (fst s)" and out: "\<And>a s'. rely s s' \<Longrightarrow> Q a s'"
  shows "guarded X rely rely (update S (ct_vm C) obj) Q s"
proof -
  have here: "Q a s" for a using out quota_rely_refl [OF i, of "snd s" "snd s"] by (cases s) simp
  have step: "rely (e, g) (e', g) \<and> rely s (e', g)"
    if "rely s (e, g)" "puts X e (store_key S (RESOURCE (ct_vm C)) (obj_name obj)) b e'"
      "encode (ct_vm C) obj now = Inr b" for e g e' b now
    using step_untenanted [OF _ _ that(3) t, of e e' g g] that(1,2) rely_inv [OF that(1)] quota_rely_trans [OF that(1)]
    by (auto simp: obj_key_def)
  have reads: "guarded X rely rely (store_get S (ct_vm C) n) Q s'" if "rely s s'" for s' n
    by (rule away_ok [OF rely_inv [OF that] _ avoids_get]) (use out quota_rely_trans [OF that] in blast)
  show ?thesis
  proof (rule rep.update_rule, goal_cases)
    case (4 e g e' x v now err) then show ?case using step out by blast
  next
    case (5 e g e' x v now) then show ?case using step out reads by blast
  qed (use here out in auto)
qed

text \<open>Deciding again keeps the invariant as long as each decision does.\<close>

lemma admit_ok:
  assumes attempt: "\<And>s. inv (fst s) \<Longrightarrow> guarded X rely rely attempt (\<lambda>_ s'. inv (fst s')) s" and i: "inv (fst s)"
  shows "guarded X rely rely (admit t attempt) (\<lambda>_ s'. inv (fst s')) s"
proof -
  have "guarded X rely rely (admit_loop n t attempt) (\<lambda>_ s'. inv (fst s')) s" if "inv (fst s)" for n s
    using that
  proof (induction n arbitrary: s)
    case (Suc n)
    show ?case
      unfolding admit_loop.simps try_then_def guarded_and_then
      by (rule guarded_mono [OF attempt [OF Suc.prems]])
        (auto intro: Suc.IH split: sum.split option.split)
  qed simp
  then show ?thesis unfolding admit_def using i by blast
qed

lemma attempt_ok:
  assumes i: "inv (fst s)" and except: "except = None \<or> except = Some (obj_name vm)"
    and put: "\<And>fence s'. rely s s' \<Longrightarrow> (case fence of None \<Rightarrow> vs_tenant (spec vm) = None | Some f \<Rightarrow>
        \<exists>t. vs_tenant (spec vm) = Some t \<and> admissible f t (obj_name vm) (wanted_by (st_json S) vm) (fst s')) \<Longrightarrow>
        guarded X rely rely (m fence) (\<lambda>_ s'. inv (fst s')) s'"
  shows "guarded X rely rely
     (try_then (check_quota S C (vs_tenant (spec vm)) (wanted_by_spec (st_json S) (vs_vm (spec vm))) except) (\<lambda>fence.
        case dry_run_preview dry vm of Some preview \<Rightarrow> Done (Inr (Some preview)) | None \<Rightarrow> m fence))
     (\<lambda>_ s'. inv (fst s')) s"
proof -
  have here: "rely s s" using quota_rely_refl [OF i, of "snd s" "snd s"] by (cases s) simp
  show ?thesis
    unfolding try_then_def guarded_and_then wanted_by_def [symmetric]
    by (rule check_ok [OF except])
      (use here put [of s None] in \<open>auto dest: rely_inv intro!: put split: option.split\<close>)
qed

lemma admits_ok:
  assumes "admits S C m" and i: "inv (fst s)"
  shows "guarded X rely rely m (\<lambda>_ s'. inv (fst s')) s"
  using assms(1) unfolding admits_def
proof (elim disjE exE conjE)
  fix dry owner vm
  assume m: "m = admit_create S C dry owner vm" and t: "vs_tenant (spec vm) = Some owner"
  have put: "guarded X rely rely (create_under S (ct_vm C) vm fence) (\<lambda>_ s'. inv (fst s')) s'"
    if "rely s s'" and "case fence of None \<Rightarrow> vs_tenant (spec vm) = None | Some f \<Rightarrow>
        \<exists>t. vs_tenant (spec vm) = Some t \<and> admissible f t (obj_name vm) (wanted_by (st_json S) vm) (fst s')" for fence s s'
    using that t unfolding create_under_def try_api_def
    by (auto simp: guarded_and_then split: option.splits intro!: create_fenced_ok dest: rely_inv split: sum.split)
  show ?thesis
    unfolding m admit_create_def Let_def t [symmetric]
    by (rule admit_ok [OF attempt_ok i]) (simp_all add: put)
next
  fix dry body
  assume m: "m = admit_update S C dry (obj_name body) body"
  have put: "guarded X rely rely (update_under S (ct_vm C) body fence) (\<lambda>_ s'. inv (fst s')) s'"
    if "rely s s'" and "case fence of None \<Rightarrow> vs_tenant (spec body) = None | Some f \<Rightarrow>
        \<exists>t. vs_tenant (spec body) = Some t \<and> admissible f t (obj_name body) (wanted_by (st_json S) body) (fst s')" for fence s s'
    using that unfolding update_under_def try_api_def
    by (auto simp: guarded_and_then split: option.splits intro!: update_fenced_ok update_ok dest: rely_inv split: sum.split)
  show ?thesis
    unfolding m admit_update_def Let_def
    by (rule admit_ok [OF attempt_ok i]) (simp_all add: put)
qed

end

section \<open>A guest admitted over the service in memory\<close>

datatype cloud_doc = CloudVm "json vm" | CloudTenant tenant | CloudVolume volume | CloudEvent event | CloudMark string

fun cloud_vm :: "cloud_doc \<Rightarrow> string + json vm" where
  "cloud_vm (CloudVm v) = Inr v" | "cloud_vm _ = Inl ''kind''"

fun cloud_tenant :: "cloud_doc \<Rightarrow> string + tenant" where
  "cloud_tenant (CloudTenant t) = Inr t" | "cloud_tenant _ = Inl ''kind''"

fun cloud_volume :: "cloud_doc \<Rightarrow> string + volume" where
  "cloud_volume (CloudVolume v) = Inr v" | "cloud_volume _ = Inl ''kind''"

fun cloud_event :: "cloud_doc \<Rightarrow> string + event" where
  "cloud_event (CloudEvent e) = Inr e" | "cloud_event _ = Inl ''kind''"

definition cloud_store :: "(cloud_doc, json) store" where
  "cloud_store = sample_store\<lparr>st_bytes := CloudMark\<rparr>"

definition cloud_samples :: "(json, cloud_doc) cloud_types" where
  "cloud_samples = \<lparr>ct_vm = vm_resource (\<lambda>_. []) (\<lambda>v. Inr (CloudVm v)) cloud_vm,
     ct_tenant = tenant_resource (\<lambda>t. Inr (CloudTenant t)) cloud_tenant,
     ct_volume = volume_resource (\<lambda>v. Inr (CloudVolume v)) cloud_volume,
     ct_event = event_resource (\<lambda>e. Inr (CloudEvent e)) cloud_event\<rparr>"

definition one_guest :: tenant_quota where
  "one_guest = \<lparr>tq_max_vms = Some 1, tq_max_vcpus = None, tq_max_mem_mib = Some 4096\<rparr>"

definition acme :: tenant where
  "acme = \<lparr>api_version = API_VERSION, obj_kind = ''Tenant'', metadata = metadata_default\<lparr>md_name := ''acme''\<rparr>,
     spec = \<lparr>ts_description = [], ts_quota = one_guest, ts_vni = None, ts_network_prefixes = [], ts_labels = []\<rparr>,
     status = \<lparr>tt_used = \<lparr>tu_vms = 0, tu_vcpus = 0, tu_mem_mib = 0\<rparr>\<rparr>\<rparr>"

definition acme_mem :: "cloud_doc mem" where
  "acme_mem = \<lparr>mem_keys = [(''/m/registry/tenants/acme'',
      \<lparr>en_value = CloudTenant acme, en_create_revision = 1, en_mod_revision = 1\<rparr>)], mem_revision = 1\<rparr>"

definition acme_guest :: "json vm" where
  "acme_guest = (sample_vm ''a'' 2 3000)\<lparr>spec := (spec (sample_vm ''a'' 2 3000))\<lparr>vs_tenant := Some ''acme''\<rparr>\<rparr>"

lemma acme_eval:
  "md_name (metadata acme_guest) = ''a''" "vs_tenant (spec acme_guest) = Some ''acme''"
  "md_resource_version (metadata acme_guest) = []" "ts_quota (spec acme) = one_guest"
  by (simp_all add: acme_guest_def acme_def) (simp_all add: sample_defs)

lemma acme_wanted: "wanted_by_spec tree_ops (vs_vm (spec acme_guest)) = \<lparr>vcpus = 2, mem_mib = 3000\<rparr>"
  using sample_wanted [of 2 "''a''" 3000] by (simp add: wanted_by_def acme_guest_def)

lemma acme_fits: "quota_check one_guest t (usage_plus (usage_of J t [] None) \<lparr>vcpus = 2, mem_mib = 3000\<rparr>) = Inr ()"
  by (simp add: one_guest_def usage_of_def usage_default_def capacity_default_def quota_check_def above_def
      plus_cap_def sat_add_def)

lemma acme_limited: "\<not> is_unset one_guest"
  by (simp add: is_unset_def one_guest_def)

lemmas cloud_eval = mem_eval store_eval store_fence_def cloud_store_def sample_store_def cloud_samples_def
  vm_resource_def tenant_resource_def place_names dec_samples acme_mem_def acme_eval quota_fence_def try_api_def
  list_counted_def decode_range_def store_dir_def mem_range_def map_filter_simps create_fenced_def create_under_def
  dry_run_preview_def acme_wanted acme_fits acme_limited map_some_def

definition acme_stored :: "json vm" where
  "acme_stored = vm_settle (\<lambda>_. []) 1 (acme_guest\<lparr>metadata := metadata acme_guest\<lparr>md_generation := 1, md_resource_version := []\<rparr>\<rparr>)"

definition acme_held :: "cloud_doc mem" where
  "acme_held = \<lparr>mem_keys =
     [(''/m/fences/quota/acme'',
        \<lparr>en_value = CloudMark (fence_mark ''vms'' ''a''), en_create_revision = 2, en_mod_revision = 2\<rparr>),
      (''/m/registry/vms/a'', \<lparr>en_value = CloudVm acme_stored, en_create_revision = 2, en_mod_revision = 2\<rparr>)] @
      mem_keys acme_mem, mem_revision = 2\<rparr>"

lemma acme_admitted:
  "\<exists>m. drive (Suc (Suc (Suc (Suc (Suc 0))))) acme_mem (admit_create cloud_store cloud_samples False ''acme'' acme_guest)
     = (acme_held, m)"
  unfolding admit_create_def admit_def ADMISSION_ROUNDS_def eval_nat_numeral admit_loop.simps(2)
  by (simp add: check_quota_def cloud_eval) (simp add: acme_held_def acme_stored_def acme_mem_def)

lemma cloud_samples_ok: "cloud_registry cloud_samples" "codec (ct_vm cloud_samples)"
  by (auto simp: cloud_registry_def cloud_samples_def codec_def vm_resource_def)

interpretation acme_cloud: admitting mem_etcd cloud_store cloud_samples "\<lambda>_. one_guest"
  by unfold_locales (simp_all add: cloud_samples_ok codec.reads_back [OF cloud_samples_ok(2)])

lemma acme_starts: "quota_inv mem_etcd cloud_store cloud_samples (\<lambda>_. one_guest) acme_mem"
proof -
  have none: "\<not> stands mem_etcd cloud_store (ct_vm cloud_samples) acme_mem v" for v
    by (simp add: stands_def mem_etcd_def obj_key_def cloud_eval)
  then have "directory mem_etcd cloud_store (ct_vm cloud_samples) acme_mem []"
    by (auto simp: directory_def mem_etcd_def in_dir_def cloud_eval split: if_splits)
  moreover have "quotas_are mem_etcd cloud_store cloud_samples (\<lambda>_. one_guest) acme_mem"
    by (auto simp: quotas_are_def mem_etcd_def obj_key_def cloud_eval split: if_splits)
  moreover have "et_ok mem_etcd acme_mem" by (simp add: mem_etcd_def mem_ok_def acme_mem_def)
  moreover have "tenant_holds mem_etcd cloud_store cloud_samples t acme_mem = {}" for t
    using none by (simp add: tenant_holds_def holdings_def)
  ultimately show ?thesis by (auto simp: quota_inv_def within_quota_def within_limit_def one_guest_def)
qed

lemma acme_holds: "(''a'', \<lparr>vcpus = 2, mem_mib = 3000\<rparr>) \<in> tenant_holds mem_etcd cloud_store cloud_samples ''acme'' acme_held"
proof -
  let ?v = "acme_stored\<lparr>metadata := metadata acme_stored\<lparr>md_resource_version := ''2''\<rparr>\<rparr>"
  have v: "md_name (metadata ?v) = ''a''" "spec ?v = spec acme_guest"
    by (simp_all add: acme_stored_def vm_settle_def acme_eval)
  have "stands mem_etcd cloud_store (ct_vm cloud_samples) acme_held ?v"
    unfolding stands_def v(1) by (simp add: mem_etcd_def acme_held_def obj_key_def cloud_eval)
  moreover have "wanted_by tree_ops ?v = \<lparr>vcpus = 2, mem_mib = 3000\<rparr>" using acme_wanted v by (simp add: wanted_by_def)
  ultimately show ?thesis
    using v acme_eval(2) unfolding tenant_holds_def holdings_def
    by (intro image_eqI [of _ _ ?v]) (simp_all add: cloud_store_def sample_store_def)
qed

text \<open>C3: No tenant ever holds more than its quota. Any number of replicas of the cloud run the last stage of
  creating and of updating guests, for any tenants, over one etcd. Their requests interleave in any
  order, any of them may fail or time out before or after it took effect, and the rest of the system
  deletes guests, edits them without making them larger and moves fences. If at the start no tenant
  holds more guests, processors or memory than its quota allows, none ever does: the count and the
  sums are exact, without wrap-around or saturation, and a limit of the largest value of its width is
  no limit.\<close>

theorem replicas_never_exceed_quota:
  fixes X :: "('e, 'b) etcd_ops" and quota :: "string \<Rightarrow> tenant_quota" and C :: "('j, 'b) cloud_types"
  assumes service: "etcd X" and types: "cloud_registry C" "codec (ct_vm C)"
    and start: "quota_inv X S C quota e0" and programs: "\<And>i :: 'i. admits S C (ps0 i)"
    and run: "sys_run X (quota_env X S C quota) (e0, ps0) (e, ps)"
  shows "within_quota (quota t) (tenant_holds X S C t e)"
proof -
  have adm: "admitting X C" using service types by (simp add: admitting_def admitting_axioms_def)
  let ?R = "quota_rely X S C quota"
  have "\<exists>g. \<forall>i. \<exists>s. ?R s (e, g) \<and> guarded X ?R ?R (ps i) (\<lambda>_ s'. quota_inv X S C quota (fst s')) s"
  proof (rule replicas_together [OF run, where ?g0.0 = "()"], goal_cases)
    case (1 i) show ?case by (rule admitting.admits_ok [OF adm programs]) (simp add: start)
  next
    case (2 i) show ?case by (rule admitting.quota_rely_refl [OF adm start])
  next
    case (3 i s1 s2 s3) then show ?case by (rule admitting.quota_rely_trans [OF adm])
  next
    case (5 i s1 s2)
    then show ?case using admitting.quota_rely_refl [OF adm, of S quota "fst s2" "snd s2" "snd s2"] by (simp add: quota_rely_def)
  next
    case (6 e1 g1 e2)
    then have "quota_inv X S C quota e1" by (auto simp: quota_rely_def)
    then show ?case using admitting.env_step [OF adm _ 6(1)] by blast
  qed simp
  then have "quota_inv X S C quota e" by (auto simp: quota_rely_def)
  then show ?thesis by (simp add: quota_inv_def)
qed

theorem replicas_never_exceed_quota_witness:
  "(\<exists>ps. sys_run mem_etcd (quota_env mem_etcd cloud_store cloud_samples (\<lambda>_. one_guest))
     (acme_mem, \<lambda>i :: bool. admit_create cloud_store cloud_samples False ''acme'' acme_guest) (acme_held, ps)) \<and>
   (''a'', \<lparr>vcpus = 2, mem_mib = 3000\<rparr>) \<in> tenant_holds mem_etcd cloud_store cloud_samples ''acme'' acme_held \<and>
   within_quota one_guest (tenant_holds mem_etcd cloud_store cloud_samples ''acme'' acme_held)"
proof -
  let ?ps = "\<lambda>i :: bool. admit_create cloud_store cloud_samples False ''acme'' acme_guest"
  obtain m where m: "drive (Suc (Suc (Suc (Suc (Suc 0))))) acme_mem (?ps True) = (acme_held, m)"
    using acme_admitted by blast
  have run: "sys_run mem_etcd (quota_env mem_etcd cloud_store cloud_samples (\<lambda>_. one_guest))
      (acme_mem, ?ps) (acme_held, ?ps(True := m))"
    by (rule drive_runs) (rule m)
  have "admits cloud_store cloud_samples (?ps i)" for i using acme_eval(2) by (auto simp: admits_def)
  then show ?thesis
    using replicas_never_exceed_quota [OF mem.etcd_axioms cloud_samples_ok acme_starts _ run] run acme_holds by blast
qed

end
