(* ===== verification/Spec2Isabelle.thy ===== *)
theory Spec2Isabelle
  imports Ipv4_Net Capability Node_Rooms Store_Mutate Placement_Pass Placement_Safety Deadlines Guest_Reconcile
    Quota_Safety
begin

text \<open>
  MeisterStack: a verification development of the control plane.

  The program. MeisterStack is a cloud in three tiers. The cloud controller takes requests, decides which cluster a
  guest goes to and admits it under its tenant's quota; a cluster controller places guests and volumes
  on its nodes, tells the nodes' agents what to do over sessions and reconciles; an agent runs guests
  and reports. Each controller runs as several replicas that share nothing but one etcd. Everything they
  agree on, they agree on by transactions over objects in etcd, and every status they show is derived
  from what a named party reported. The development models that part: the objects, the store, the
  decisions, and the programs of the replicas with every request they send to etcd.

  Programs and the service. A function that talks to etcd is a program \<open>('b, 'a) io\<close>: it is done, or it asks and goes
  on with the answer (\<open>Etcd_Io\<close>). The clock and new identifiers are asked for in the same way. etcd is not part of
  the sources; it is the record \<open>etcd_ops\<close> and the locale \<open>etcd\<close>, whose laws are the documented ones (revisions grow,
  a transaction is one step, an unanswered request has happened or has not). The locale is interpreted by a
  service in memory, \<open>mem_etcd\<close>, on which every witness runs. \<open>sys_run\<close> interleaves any number of programs
  and an environment; \<open>Etcd_Logic\<close> has a judgement in rely and guarantee and its soundness for every run
  (\<open>replicas_together\<close>). \<open>serde_json\<close> is the record \<open>json_ops\<close> with the locale \<open>json_value\<close> (interpreted by
  trees) for documents the code looks into, and the locale \<open>codec\<close> for objects that are stored; RFC 3339 printing is a
  function argument; commands to nodes are argument programs.

  Conventions. \<open>u32\<close> and \<open>u64\<close> are words of that width, with saturating operations where the source has them and wrap-around
  elsewhere. A string is its UTF-8 bytes. A \<open>BTreeMap\<close> is a sorted association list. An instant is an integer of
  nanoseconds, a duration a natural number of them. A fallible function returns a sum whose left is the
  error; an \<open>anyhow\<close> error is the text it prints, and messages are the texts of the source. Logging and
  metrics are left out.

  Theories and sources (\<open>C\<close> stands for \<open>src/shared/controller-api/src\<close>, \<open>R\<close> for
  \<open>src/components/cluster-controller/src\<close>, \<open>D\<close> for \<open>src/components/cloud-controller/src\<close>).
  \<^item> \<open>Meister_Prelude\<close>, \<open>Rust_Str\<close>, \<open>Rust_Float\<close>, \<open>Json_Api\<close>, \<open>Samples\<close>: what is shared; the standard library the
    sources use; small objects for the witnesses.
  \<^item> \<open>Ipv4_Net\<close>, \<open>Capability\<close>: \<open>src/shared/common/src/net.rs\<close> and \<open>capability.rs\<close>.
  \<^item> \<open>Phase_Model\<close>: \<open>C/resources/phase.rs\<close>, over a vocabulary (locale \<open>phase_vocab\<close>, interpreted seven times);
    \<open>Object_Model\<close>, \<open>Vm_Resource\<close>, \<open>Node_Resource\<close>, \<open>Storage_Resource\<close>, \<open>Image_Resource\<close>, \<open>Network_Resource\<close>,
    \<open>Migration_Resource\<close>: the objects and their derived phases; \<open>Registry\<close>: the table \<open>resources!\<close>.
  \<^item> \<open>Capacity_Model\<close>, \<open>Scheduler\<close>, \<open>Node_Rooms\<close>: \<open>C/scheduler.rs\<close>; \<open>Volume_Placement\<close>, \<open>Placement_Pass\<close>: the
    decision of \<open>R/reconcile/placement.rs\<close> under the lock of the shared candidate list, and the pass over the
    guests; \<open>Reservation\<close>: \<open>C/capacity.rs\<close> and \<open>C/resources/reservation.rs\<close>; \<open>Placement_Program\<close>: the commit of a
    placement as programs. \<open>Capacity_Commit\<close> is an abstract specification of that commit, a transition system that
    translates no lines of its own; \<open>Placement_Steps\<close>, \<open>Placement_Refines\<close>, \<open>Placement_Safety\<close> tie the programs to it.
  \<^item> \<open>Etcd_Store\<close>: \<open>C/store.rs\<close>; \<open>Store_Rules\<close>, \<open>Store_View\<close>: a proof rule for each operation, and directories as
    lists of objects; \<open>Store_Mutate\<close>, \<open>Vni\<close>, \<open>Vni_Alloc\<close> (\<open>C/vni.rs\<close>), \<open>Events\<close> (\<open>C/events.rs\<close>), \<open>Rest_Api\<close>
    (\<open>C/rest/mod.rs\<close>), \<open>Deletion\<close> (\<open>C/deletion.rs\<close>): clients of the store.
  \<^item> \<open>Lifecycle_Policy\<close>: \<open>C/lifecycle.rs\<close>, \<open>drain.rs\<close>, \<open>requeue.rs\<close>, \<open>stuck.rs\<close>, \<open>mirror.rs\<close>; \<open>Deadlines\<close>: the sweeps
    \<open>deadlines\<close> of \<open>R/reconcile/mod.rs\<close> and \<open>D/reconcile/mod.rs\<close>; \<open>Status_Ingest\<close>: what
    the reports of nodes and clusters write, \<open>R/session/ingest.rs\<close> and \<open>D/session/ingest.rs\<close>.
  \<^item> \<open>Volume_Claims\<close>, \<open>Volume_Pass\<close>, \<open>Guest_Reconcile\<close>: the passes over volumes and guests,
    \<open>R/reconcile/volumes.rs\<close>, \<open>vms.rs\<close>, \<open>requeue.rs\<close>, \<open>told.rs\<close>.
  \<^item> \<open>Quota\<close>, \<open>Admission\<close>, \<open>Quota_Safety\<close>: \<open>C/quota.rs\<close>, \<open>D/api/admission.rs\<close> and the checks and last stages in
    \<open>D/api/vms.rs\<close> and \<open>storage.rs\<close>.

  What is shown.
  \<^item> Between replicas, for every interleaving and with requests that fail before or after they took effect: nodes are
    never overbooked and the placement programs refine the commit protocol, as long as the copies of the guests were
    read before the run, sizes and capacities stand still and no migration is settled; no tenant holds more than its
    quota, as long as the quota stands; a delete removes only the object that was judged; edits are neither lost nor
    applied twice; identifiers are issued once.
  \<^item> Over any sequence of writes: a volume changes hands only through a moment at which it is claimed by nobody and open
    nowhere; the list of nodes that have it open is the set the reports describe.
  \<^item> Decisions: the scheduler is sound and complete for its constraints, a pass spends no room twice and no claim of another
    guest, the verdict names the constraint that failed; claims that are told yes fit together; ranges, capabilities and wire forms read back.
  \<^item> Derived states: a resting phase needs a named reporter; every phase that is stored is well typed; deriving twice
    changes nothing; a mirrored report is silent the next time; a deadline sweep counts exactly what is overdue.
  \<^item> Where the code does something else than its documentation says, the theorem states what it does
    (\<open>node_rooms_debit_the_roomiest\<close>: room may be overstated; \<open>met_by_a_node_exactly\<close> and
    \<open>cluster_speaks_for_its_nodes\<close>: draining nodes count; \<open>verdict_names_the_failing_question\<close>: a capability may be said
    to be missing that a full node offers; \<open>changed_phase_frees_held_guest\<close>: a guest is placed while its old node
    still holds it).

  Bounds. Retry loops are recursion on the number of attempts of the source: 8 in \<open>mutate\<close> and its
  relatives, in \<open>admit\<close> and in \<open>finish_delete\<close>, 16 in \<open>allocate\<close>; the last attempt answers as the source does, and
  \<open>retry_loops_end\<close> counts the requests. No other definition carries fuel. Sums saturate where the source
  saturates; the theorems on room and quota compare exact sums of natural numbers, and a quota of the largest
  value of its width is no limit.

  Not modelled, and why. The agent, the drivers and the command line act on processes, devices and kernels. Sessions,
  gRPC, TLS, routing of requests, watches and telemetry are framework code around the modelled functions.
  Authentication and authorisation rest on cryptography and on tokens of third parties. Of the API handlers, the
  validation of requests and the handlers of kinds other than guests are not modelled; of the
  cluster, the collection of the candidates, the migration state machine with its settlement, snapshots and the provisioning of volumes; of the cloud, its placement
  pass; floating addresses and network plans, beyond the arithmetic of ranges. Of a tenant's quota the theorem
  takes the quota as it stands: lowering one below what is held is possible and is meant to be.
\<close>

section \<open>Phases across the tiers\<close>

text \<open>What one tier writes into a status, the next reads back: for every kind of object, the wire form of
  a well-formed phase reads back with its kind, its reason and its message, and with its instant
  when it was stamped. This covers guests, volumes, snapshots, pools, images, routers and
  migrations, each with its own closed vocabulary.\<close>

lemma every_phase_reads_back:
  "(phase_ok vm_vocab p1 \<longrightarrow> phase_of_wire vm_vocab now (wire_of vm_vocab p1)
      = p1\<lparr>ph_since := if ph_since p1 = UNSTAMPED then now else ph_since p1\<rparr>)
   \<and> (phase_ok volume_vocab p2 \<longrightarrow> phase_of_wire volume_vocab now (wire_of volume_vocab p2)
      = p2\<lparr>ph_since := if ph_since p2 = UNSTAMPED then now else ph_since p2\<rparr>)
   \<and> (phase_ok volume_snapshot_vocab p3 \<longrightarrow> phase_of_wire volume_snapshot_vocab now (wire_of volume_snapshot_vocab p3)
      = p3\<lparr>ph_since := if ph_since p3 = UNSTAMPED then now else ph_since p3\<rparr>)
   \<and> (phase_ok storage_pool_vocab p4 \<longrightarrow> phase_of_wire storage_pool_vocab now (wire_of storage_pool_vocab p4)
      = p4\<lparr>ph_since := if ph_since p4 = UNSTAMPED then now else ph_since p4\<rparr>)
   \<and> (phase_ok image_vocab p5 \<longrightarrow> phase_of_wire image_vocab now (wire_of image_vocab p5)
      = p5\<lparr>ph_since := if ph_since p5 = UNSTAMPED then now else ph_since p5\<rparr>)
   \<and> (phase_ok router_vocab p6 \<longrightarrow> phase_of_wire router_vocab now (wire_of router_vocab p6)
      = p6\<lparr>ph_since := if ph_since p6 = UNSTAMPED then now else ph_since p6\<rparr>)
   \<and> (phase_ok vm_migration_vocab p7 \<longrightarrow> phase_of_wire vm_migration_vocab now (wire_of vm_migration_vocab p7)
      = p7\<lparr>ph_since := if ph_since p7 = UNSTAMPED then now else ph_since p7\<rparr>)"
  by (intro conjI impI vm_phases.wire_roundtrip volume_phases.wire_roundtrip
      volume_snapshot_phases.wire_roundtrip storage_pool_phases.wire_roundtrip
      image_phases.wire_roundtrip router_phases.wire_roundtrip vm_migration_phases.wire_roundtrip)

text \<open>C25: Deriving a status twice says nothing new, for guests and for volumes: the second derivation, however
  much later, leaves the object as the first made it. So a stored object can be read and settled
  any number of times, and the instant since when it is in its phase stays the first one.\<close>

theorem settling_is_idempotent:
  assumes "now \<noteq> UNSTAMPED"
  shows "vm_settle f later (vm_settle f now v) = vm_settle f now v
    \<and> volume_settle later (volume_settle now w) = volume_settle now w"
  using vm_settle_twice [OF assms] volume_settle_twice [OF assms] by blast

theorem settling_is_idempotent_witness:
  "vm_settle (\<lambda>_. []) 99 (vm_settle (\<lambda>_. []) 7 (sample_vm ''a'' 1 1)) = vm_settle (\<lambda>_. []) 7 (sample_vm ''a'' 1 1)"
  using settling_is_idempotent [of 7 "\<lambda>_. []" 99 "sample_vm ''a'' 1 1"] by (simp add: UNSTAMPED_def)

text \<open>C36: A router forwards or stands by, and a migration has succeeded, only on the word of a machine: where
  one of these is shown, a report that names its reporter says it.\<close>

theorem routers_and_migrations_need_a_reporter:
  "(ph_kind (settle_router rt) \<in> {RP_Active, RP_Standby} \<longrightarrow>
      (\<exists>r. rt_reported rt = Some r \<and> sa_phase r = ph_kind (settle_router rt) \<and> sa_node r \<noteq> []))
   \<and> (ph_kind (settle_vm_migration mt) = MP_Succeeded \<longrightarrow>
      (\<exists>r. mt_reported mt = Some r \<and> sa_phase r = MP_Succeeded \<and> sa_node r \<noteq> []))"
  using settle_router_resting [of rt] settle_vm_migration_succeeded [of mt] by blast

definition sample_migration_status :: vm_migration_status where
  "sample_migration_status =
     \<lparr>mt_migration_id = None, mt_vm_uid = None, mt_recovery_required = False, mt_cancelling = False,
      mt_phase = phase_default vm_migration_vocab,
      mt_reported = Some (said_by ''n1'' MP_Succeeded MR_AwaitingTarget None 7),
      mt_observed_generation = 0, mt_source_node = None, mt_target_node = None, mt_peer = None,
      mt_started_at = None, mt_finished_at = None, mt_target_reported = None, mt_source_reported = None,
      mt_source_message = None\<rparr>"

theorem routers_and_migrations_need_a_reporter_witness:
  "ph_kind (settle_vm_migration sample_migration_status) = MP_Succeeded
   \<and> (\<exists>r. mt_reported sample_migration_status = Some r \<and> sa_phase r = MP_Succeeded \<and> sa_node r \<noteq> [])"
proof -
  have "ph_kind (settle_vm_migration sample_migration_status) = MP_Succeeded"
    by (simp add: settle_vm_migration_def sample_migration_status_def said_by_def said_phase_def phase_said_def)
  with routers_and_migrations_need_a_reporter [of _ sample_migration_status] show ?thesis by blast
qed

end
